(* ===== verification/AP_Prelude.thy ===== *)
theory AP_Prelude
  imports
    Main
    "HOL-Library.Word"
    "HOL-Library.List_Lexorder"
    "HOL-Library.Char_ord"
begin

text \<open>
  The shared vocabulary of the development: names for Rust's integer and byte
  types, the parts of Rust's standard library that the modelled crates use
  (slices, string splitting and joining, decimal printing and parsing, UTF-8
  validation, ordered maps), and the generic lemmas about them that the component
  proofs rest on.

  A Rust \<open>String\<close> and a \<open>Vec<u8>\<close> are both sequences of bytes. HOL's \<open>char\<close>
  has exactly the 256 byte values, so both are \<open>string\<close> here (\<open>bytes\<close> names the
  second use), \<open>into_bytes\<close> is the identity and \<open>len()\<close> is \<open>length\<close>; the check
  that \<open>String::from_utf8\<close> makes is the predicate \<open>utf8_valid\<close> below. \<open>usize\<close> is
  the 64-bit one.
\<close>

section \<open>Machine types\<close>

type_synonym u16 = "16 word"
type_synonym u32 = "32 word"
type_synonym u64 = "64 word"
type_synonym bytes = string

text \<open>Lemma collections: one for the result of each operation on every branch, one for the
  way each operation acts on a server's table of live fids.\<close>

named_theorems op_simps \<open>unfolding rules for the operations of the file servers\<close>
named_theorems fid_simps \<open>effect of operations on fid tables\<close>

section \<open>Byte buffers\<close>

abbreviation newline :: char where
  "newline \<equiv> CHR 0x0A"

text \<open>\<open>bytes[start..end].to_vec()\<close> for a range already known to be in bounds.\<close>

definition subrange :: "bytes \<Rightarrow> nat \<Rightarrow> nat \<Rightarrow> bytes" where
  "subrange bs start end = take (end - start) (drop start bs)"

text \<open>The helper \<open>slice\<close> that every file server carries: a read window clamped to the
  bytes that exist.\<close>

definition slice :: "bytes \<Rightarrow> u64 \<Rightarrow> u32 \<Rightarrow> bytes" where
  "slice bs offset count =
     (let start = min (unat offset) (length bs);
          end = min (length bs) (start + unat count)
      in subrange bs start end)"

text \<open>The buffered write every document file performs: zero-fill the buffer up to the end of
  the written range, then copy the data over it.\<close>

definition write_at :: "nat \<Rightarrow> bytes \<Rightarrow> bytes \<Rightarrow> bytes" where
  "write_at start data buf =
     (let end = start + length data;
          buf' = (if length buf < end then buf @ replicate (end - length buf) (CHR 0x00) else buf)
      in take start buf' @ data @ drop end buf')"

lemma slice_alt: "slice bs offset count = take (unat count) (drop (unat offset) bs)"
  by (auto simp: slice_def subrange_def Let_def min_def)

lemma length_slice: "length (slice bs offset count) = min (unat count) (length bs - unat offset)"
  by (simp add: slice_alt)

lemma slice_past_end [simp]: "length bs \<le> unat offset \<Longrightarrow> slice bs offset count = []"
  by (simp add: slice_alt)

lemma slice_whole: "length bs \<le> unat count \<Longrightarrow> slice bs 0 count = bs"
  by (simp add: slice_alt)

lemma length_write_at [simp]:
  "length (write_at start data buf) = max (length buf) (start + length data)"
  by (auto simp: write_at_def Let_def)

lemma write_at_reads_back: "take (length data) (drop start (write_at start data buf)) = data"
  by (auto simp: write_at_def Let_def)

lemma write_at_before: "start \<le> length buf \<Longrightarrow> take start (write_at start data buf) = take start buf"
  by (auto simp: write_at_def Let_def)

lemma write_at_append: "write_at (length buf) data buf = buf @ data"
  by (auto simp: write_at_def Let_def)

lemma write_at_empty [simp]: "write_at 0 data [] = data"
  using write_at_append [of "[]" data] by simp

lemma write_at_nth_outside:
  assumes "i < length buf" "i < start \<or> start + length data \<le> i"
  shows "write_at start data buf ! i = buf ! i"
  using assms by (auto simp: write_at_def Let_def nth_append)

lemma write_at_nth:
  assumes "i < max (length buf) (start + length data)"
  shows "write_at start data buf ! i =
    (if i < start then (if i < length buf then buf ! i else CHR 0x00)
     else if i < start + length data then data ! (i - start) else buf ! i)"
  using assms by (auto simp: write_at_def Let_def nth_append)

lemma write_at_write_at:
  "write_at (start + length a) b (write_at start a buf) = write_at start (a @ b) buf"
  by (rule nth_equalityI) (auto simp: write_at_nth nth_append)

section \<open>Strings: splitting and joining\<close>

text \<open>\<open>str::split\<close> on one separator character: \<open>n\<close> separators give \<open>n + 1\<close> pieces, empty
  ones included.\<close>

fun split_on :: "char \<Rightarrow> string \<Rightarrow> string list" where
  "split_on c [] = [[]]"
| "split_on c (x # xs) =
     (if x = c then [] # split_on c xs
      else case split_on c xs of [] \<Rightarrow> [[x]] | y # ys \<Rightarrow> (x # y) # ys)"

text \<open>\<open>[String]::join\<close>.\<close>

fun join_with :: "string \<Rightarrow> string list \<Rightarrow> string" where
  "join_with sep [] = []"
| "join_with sep [x] = x"
| "join_with sep (x # y # ys) = x @ sep @ join_with sep (y # ys)"

lemma split_on_nonempty [simp]: "split_on c s \<noteq> []"
  by (induction s) (auto split: list.splits)

lemma split_on_no_sep: "c \<notin> set s \<Longrightarrow> split_on c s = [s]"
  by (induction s) auto

lemma split_on_append_sep:
  "c \<notin> set s \<Longrightarrow> split_on c (s @ c # t) = s # split_on c t"
  by (induction s) auto

lemma split_on_pieces: "p \<in> set (split_on c s) \<Longrightarrow> c \<notin> set p"
proof (induction s arbitrary: p)
  case Nil
  then show ?case by simp
next
  case (Cons x xs)
  show ?case
  proof (cases "x = c")
    case True
    with Cons show ?thesis by auto
  next
    case False
    obtain y ys where ys: "split_on c xs = y # ys"
      by (cases "split_on c xs") auto
    with Cons.prems False have "p = x # y \<or> p \<in> set ys" by simp
    with Cons.IH ys False show ?thesis by auto
  qed
qed

lemma split_on_join:
  assumes "ps \<noteq> []" "\<And>p. p \<in> set ps \<Longrightarrow> c \<notin> set p"
  shows "split_on c (join_with [c] ps) = ps"
  using assms
proof (induction "[c]" ps rule: join_with.induct)
  case 1
  then show ?case by simp
next
  case (2 x)
  then show ?case by (simp add: split_on_no_sep)
next
  case (3 x y ys)
  then have "split_on c (join_with [c] (y # ys)) = y # ys" by simp
  with 3 show ?case by (simp add: split_on_append_sep)
qed

lemma join_split_on: "join_with [c] (split_on c s) = s"
proof (induction s)
  case (Cons x xs)
  obtain y ys where ys: "split_on c xs = y # ys"
    by (cases "split_on c xs") auto
  with Cons show ?case by (cases ys) auto
qed simp

text \<open>\<open>str::split_once\<close> with a pattern string: the text before and after the first
  occurrence.\<close>

fun strip_prefix :: "string \<Rightarrow> string \<Rightarrow> string option" where
  "strip_prefix [] s = Some s"
| "strip_prefix (p # ps) [] = None"
| "strip_prefix (p # ps) (x # xs) = (if p = x then strip_prefix ps xs else None)"

fun split_once :: "string \<Rightarrow> string \<Rightarrow> (string \<times> string) option" where
  "split_once pat [] = (case strip_prefix pat [] of Some rest \<Rightarrow> Some ([], rest) | None \<Rightarrow> None)"
| "split_once pat (x # xs) =
     (case strip_prefix pat (x # xs) of
        Some rest \<Rightarrow> Some ([], rest)
      | None \<Rightarrow> map_option (\<lambda>(a, b). (x # a, b)) (split_once pat xs))"

lemma strip_prefix_append [simp]: "strip_prefix p (p @ s) = Some s"
  by (induction p) auto

lemma strip_prefix_Some: "strip_prefix p s = Some r \<longleftrightarrow> s = p @ r"
  by (induction p s rule: strip_prefix.induct) auto

lemma split_once_char:
  "c \<notin> set a \<Longrightarrow> split_once [c] (a @ c # b) = Some (a, b)"
  by (induction a) auto

lemma split_once_hd:
  assumes "p \<noteq> []" "hd p \<notin> set a"
  shows "split_once p (a @ p @ b) = Some (a, b)"
  using assms(2)
proof (induction a)
  case Nil
  obtain q qs where "p = q # qs" using assms(1) by (cases p) auto
  then show ?case using strip_prefix_append [of p b] by simp
next
  case (Cons x xs)
  obtain q qs where p: "p = q # qs" using assms(1) by (cases p) auto
  with Cons.prems have "strip_prefix p (x # xs @ p @ b) = None" by simp
  with Cons show ?case by simp
qed

text \<open>\<open>str::contains\<close> and \<open>str::replace\<close> with a non-empty pattern: matches are taken left to
  right and do not overlap.\<close>

fun str_contains :: "string \<Rightarrow> string \<Rightarrow> bool" where
  "str_contains [] pat \<longleftrightarrow> pat = []"
| "str_contains (x # xs) pat \<longleftrightarrow> strip_prefix pat (x # xs) \<noteq> None \<or> str_contains xs pat"

lemma str_contains_iff: "str_contains s pat \<longleftrightarrow> (\<exists>a b. s = a @ pat @ b)"
proof (induction s)
  case Nil
  then show ?case by auto
next
  case (Cons x xs)
  have "strip_prefix pat (x # xs) \<noteq> None \<longleftrightarrow> (\<exists>b. x # xs = pat @ b)"
    by (auto simp: strip_prefix_Some)
  moreover have "(\<exists>a b. x # xs = a @ pat @ b) \<longleftrightarrow>
      (\<exists>b. x # xs = pat @ b) \<or> (\<exists>a b. xs = a @ pat @ b)"
    by (metis (no_types, opaque_lifting) append_Cons append_Nil list.sel(3) neq_Nil_conv)
  ultimately show ?case using Cons by simp
qed

function str_replace :: "string \<Rightarrow> string \<Rightarrow> string \<Rightarrow> string" where
  "str_replace pat new [] = []"
| "str_replace pat new (x # xs) =
     (if pat = [] then x # xs
      else case strip_prefix pat (x # xs) of
        Some rest \<Rightarrow> new @ str_replace pat new rest
      | None \<Rightarrow> x # str_replace pat new xs)"
  by pat_completeness auto
termination
  by (relation "measure (\<lambda>(_, _, s). length s)") (auto simp: strip_prefix_Some Cons_eq_append_conv)

lemma str_replace_absent:
  "\<not> str_contains s pat \<Longrightarrow> str_replace pat new s = s"
  by (induction pat new s rule: str_replace.induct) (auto split: option.splits)


text \<open>\<open>str::lines\<close>: the pieces between line feeds, a carriage return before a line feed
  dropped with it, and no empty piece after a final line feed.\<close>

fun str_lines_aux :: "string \<Rightarrow> string \<Rightarrow> string list" where
  "str_lines_aux acc [] = (if acc = [] then [] else [rev acc])"
| "str_lines_aux acc (x # xs) =
     (if x = newline then
        rev (case acc of [] \<Rightarrow> [] | c # cs \<Rightarrow> if c = CHR 0x0D then cs else acc)
          # str_lines_aux [] xs
      else str_lines_aux (x # acc) xs)"

definition str_lines :: "string \<Rightarrow> string list" where
  "str_lines s = str_lines_aux [] s"

definition plain_line :: "string \<Rightarrow> bool" where
  "plain_line l \<longleftrightarrow> l \<noteq> [] \<and> newline \<notin> set l \<and> CHR 0x0D \<notin> set l"

lemma str_lines_aux_run:
  "newline \<notin> set l \<Longrightarrow> str_lines_aux acc (l @ rest) = str_lines_aux (rev l @ acc) rest"
  by (induction l arbitrary: acc) auto

lemma str_lines_join:
  "(\<And>l. l \<in> set ls \<Longrightarrow> plain_line l) \<Longrightarrow> str_lines (join_with [newline] ls) = ls"
proof (induction "[newline]" ls rule: join_with.induct)
  case 1
  then show ?case by (simp add: str_lines_def)
next
  case (2 x)
  then show ?case
    using str_lines_aux_run [of x "[]" "[]"] by (simp add: str_lines_def plain_line_def)
next
  case (3 x y ys)
  have x: "plain_line x" using 3 by simp
  then obtain c cs where rx: "rev x = c # cs" "c \<noteq> CHR 0x0D"
    by (cases "rev x") (auto simp: plain_line_def)
  have "str_lines_aux [] (x @ newline # join_with [newline] (y # ys)) =
        rev (rev x) # str_lines_aux [] (join_with [newline] (y # ys))"
    using x rx by (auto simp: str_lines_aux_run plain_line_def)
  with 3 show ?case by (simp add: str_lines_def)
qed

section \<open>Decimal numbers\<close>

text \<open>\<open>to_string\<close> on an unsigned integer, and \<open>str::parse\<close> for \<open>u64\<close> and \<open>usize\<close>: an optional
  leading plus sign, at least one decimal digit, and an error on overflow.\<close>

definition digit_char :: "nat \<Rightarrow> char" where
  "digit_char d = char_of (48 + d)"

definition is_digit :: "char \<Rightarrow> bool" where
  "is_digit c \<longleftrightarrow> 48 \<le> (of_char c :: nat) \<and> (of_char c :: nat) \<le> 57"

definition digit_val :: "char \<Rightarrow> nat" where
  "digit_val c = of_char c - 48"

fun show_nat :: "nat \<Rightarrow> string" where
  "show_nat n = (if n < 10 then [digit_char n] else show_nat (n div 10) @ [digit_char (n mod 10)])"

declare show_nat.simps [simp del]

fun parse_digits :: "nat \<Rightarrow> string \<Rightarrow> nat option" where
  "parse_digits acc [] = Some acc"
| "parse_digits acc (c # cs) =
     (if is_digit c then
        (let acc' = 10 * acc + digit_val c in
         if acc' < 2 ^ 64 then parse_digits acc' cs else None)
      else None)"

definition parse_u64 :: "string \<Rightarrow> nat option" where
  "parse_u64 s =
     (let body = (case s of c # d # ds \<Rightarrow> (if c = CHR ''+'' then d # ds else s) | _ \<Rightarrow> s)
      in if body = [] then None else parse_digits 0 body)"

lemma is_digit_digit_char [simp]: "d < 10 \<Longrightarrow> is_digit (digit_char d)"
  by (simp add: is_digit_def digit_char_def)

lemma digit_val_digit_char [simp]: "d < 10 \<Longrightarrow> digit_val (digit_char d) = d"
  by (simp add: digit_val_def digit_char_def)

lemma show_nat_nonempty [simp]: "show_nat n \<noteq> []"
  by (subst show_nat.simps) simp

lemma show_nat_digits: "c \<in> set (show_nat n) \<Longrightarrow> is_digit c"
proof (induction n rule: show_nat.induct)
  case (1 n)
  then show ?case
    by (cases "n < 10") (auto simp: show_nat.simps [of n])
qed

lemma parse_digits_snoc:
  "parse_digits acc (s @ [c]) = Option.bind (parse_digits acc s) (\<lambda>a. parse_digits a [c])"
  by (induction acc s rule: parse_digits.induct) (auto simp: Let_def)

lemma parse_digits_show: "n < 2 ^ 64 \<Longrightarrow> parse_digits 0 (show_nat n) = Some n"
proof (induction n rule: show_nat.induct)
  case (1 n)
  show ?case
  proof (cases "n < 10")
    case True
    then show ?thesis by (simp add: show_nat.simps [of n])
  next
    case False
    with 1 have "parse_digits 0 (show_nat (n div 10)) = Some (n div 10)" by simp
    with False "1.prems" show ?thesis
      by (simp add: show_nat.simps [of n] parse_digits_snoc)
  qed
qed

lemma is_digit_not_special: "is_digit c \<Longrightarrow> c \<notin> set ''+-./: ''" "is_digit c \<Longrightarrow> c \<noteq> newline"
  by (auto simp: is_digit_def)

theorem parse_u64_show_nat:
  assumes "n < 2 ^ 64"
  shows "parse_u64 (show_nat n) = Some n"
proof -
  obtain c cs where s: "show_nat n = c # cs" by (cases "show_nat n") auto
  then have "is_digit c" using show_nat_digits [of c n] by simp
  then have "c \<noteq> CHR ''+''" using is_digit_not_special by auto
  then show ?thesis
    using parse_digits_show [OF assms] s
    by (auto simp: parse_u64_def split: list.splits)
qed

lemma show_nat_no_special: "c \<in> set ''+-./: '' \<or> c = newline \<Longrightarrow> c \<notin> set (show_nat n)"
  using is_digit_not_special show_nat_digits by blast

lemma parse_digits_bound: "acc < 2 ^ 64 \<Longrightarrow> parse_digits acc s = Some n \<Longrightarrow> n < 2 ^ 64"
  by (induction acc s rule: parse_digits.induct) (auto simp: Let_def split: if_splits)

lemma parse_u64_bound: "parse_u64 s = Some n \<Longrightarrow> n < 2 ^ 64"
  using parse_digits_bound [of 0] by (auto simp: parse_u64_def Let_def split: if_splits)

lemma show_nat_inj: "m < 2 ^ 64 \<Longrightarrow> n < 2 ^ 64 \<Longrightarrow> show_nat m = show_nat n \<longleftrightarrow> m = n"
  using parse_u64_show_nat by (metis option.inject)

text \<open>\<open>to_string\<close> on \<open>i32\<close>.\<close>

definition show_int :: "int \<Rightarrow> string" where
  "show_int i = (if i < 0 then CHR ''-'' # show_nat (nat (- i)) else show_nat (nat i))"


section \<open>UTF-8\<close>

text \<open>
  One step of Rust's UTF-8 validator on the front of a non-empty byte string: \<open>(True, n)\<close> when a
  well-formed character of \<open>n\<close> bytes starts here, \<open>(False, n)\<close> when the first \<open>n\<close> bytes are the
  maximal ill-formed part that \<open>from_utf8_lossy\<close> replaces by one U+FFFD.
\<close>

definition byte_in :: "nat \<Rightarrow> nat \<Rightarrow> bytes \<Rightarrow> nat \<Rightarrow> bool" where
  "byte_in lo hi bs i \<longleftrightarrow>
     i < length bs \<and> lo \<le> (of_char (bs ! i) :: nat) \<and> (of_char (bs ! i) :: nat) \<le> hi"

definition utf8_step :: "bytes \<Rightarrow> bool \<times> nat" where
  "utf8_step bs =
     (let b = (of_char (hd bs) :: nat);
          cont = byte_in 0x80 0xBF bs;
          three = (\<lambda>lo hi. if \<not> byte_in lo hi bs 1 then (False, 1)
                            else if \<not> cont 2 then (False, 2) else (True, 3));
          four = (\<lambda>lo hi. if \<not> byte_in lo hi bs 1 then (False, 1)
                            else if \<not> cont 2 then (False, 2)
                            else if \<not> cont 3 then (False, 3) else (True, 4))
      in if b < 0x80 then (True, 1)
         else if 0xC2 \<le> b \<and> b \<le> 0xDF then (if cont 1 then (True, 2) else (False, 1))
         else if b = 0xE0 then three 0xA0 0xBF
         else if b = 0xED then three 0x80 0x9F
         else if 0xE1 \<le> b \<and> b \<le> 0xEF then three 0x80 0xBF
         else if b = 0xF0 then four 0x90 0xBF
         else if 0xF1 \<le> b \<and> b \<le> 0xF3 then four 0x80 0xBF
         else if b = 0xF4 then four 0x80 0x8F
         else (False, 1))"

lemma utf8_step_pos: "0 < snd (utf8_step bs)"
  by (auto simp: utf8_step_def Let_def)

function utf8_valid :: "bytes \<Rightarrow> bool" where
  "utf8_valid bs =
     (if bs = [] then True
      else if fst (utf8_step bs) then utf8_valid (drop (snd (utf8_step bs)) bs) else False)"
  by pat_completeness auto
termination
  by (relation "measure length") (auto simp: utf8_step_pos)

function from_utf8_lossy :: "bytes \<Rightarrow> string" where
  "from_utf8_lossy bs =
     (if bs = [] then []
      else (if fst (utf8_step bs) then take (snd (utf8_step bs)) bs
            else [CHR 0xEF, CHR 0xBF, CHR 0xBD])
           @ from_utf8_lossy (drop (snd (utf8_step bs)) bs))"
  by pat_completeness auto
termination
  by (relation "measure length") (auto simp: utf8_step_pos)

declare utf8_valid.simps [simp del] from_utf8_lossy.simps [simp del]

lemma utf8_valid_Nil [simp]: "utf8_valid []"
  by (simp add: utf8_valid.simps)

lemma from_utf8_lossy_Nil [simp]: "from_utf8_lossy [] = []"
  by (simp add: from_utf8_lossy.simps)

lemma from_utf8_lossy_valid: "utf8_valid bs \<Longrightarrow> from_utf8_lossy bs = bs"
proof (induction bs rule: utf8_valid.induct)
  case (1 bs)
  show ?case
  proof (cases "bs = []")
    case False
    obtain n where n: "utf8_step bs = (True, n)" and v: "utf8_valid (drop n bs)"
      using "1.prems" False
      by (cases "utf8_step bs") (auto simp: utf8_valid.simps [of bs] split: if_splits)
    have "from_utf8_lossy (drop n bs) = drop n bs"
      using "1.IH" False n v by simp
    then show ?thesis
      using False n by (simp add: from_utf8_lossy.simps [of bs])
  qed simp
qed

definition ascii :: "bytes \<Rightarrow> bool" where
  "ascii bs \<longleftrightarrow> (\<forall>c \<in> set bs. (of_char c :: nat) < 0x80)"

lemma ascii_utf8_valid: "ascii bs \<Longrightarrow> utf8_valid bs"
proof (induction bs)
  case (Cons c cs)
  then have "utf8_step (c # cs) = (True, 1)"
    by (simp add: ascii_def utf8_step_def)
  with Cons show ?case by (simp add: ascii_def utf8_valid.simps [of "c # cs"])
qed simp

text \<open>\<open>str::is_char_boundary\<close>: the two ends, and every index whose byte does not continue a
  character.\<close>

definition is_char_boundary :: "string \<Rightarrow> nat \<Rightarrow> bool" where
  "is_char_boundary s i \<longleftrightarrow>
     i = 0 \<or> i = length s \<or>
     (i < length s \<and> \<not> (0x80 \<le> (of_char (s ! i) :: nat) \<and> (of_char (s ! i) :: nat) \<le> 0xBF))"

section \<open>Ordered maps\<close>

text \<open>
  Rust's \<open>BTreeMap\<close> as an association list kept in strictly ascending key order, because the
  servers list their keys in that order. \<open>HashMap\<close>s, whose order the code never relies on, are
  HOL maps.
\<close>

type_synonym ('k, 'v) btree = "('k \<times> 'v) list"

abbreviation bt_get :: "('k, 'v) btree \<Rightarrow> 'k \<Rightarrow> 'v option" where
  "bt_get \<equiv> map_of"

abbreviation bt_keys :: "('k, 'v) btree \<Rightarrow> 'k list" where
  "bt_keys m \<equiv> map fst m"

definition bt_has :: "('k, 'v) btree \<Rightarrow> 'k \<Rightarrow> bool" where
  "bt_has m k \<longleftrightarrow> map_of m k \<noteq> None"

fun bt_insert :: "'k::linorder \<Rightarrow> 'v \<Rightarrow> ('k, 'v) btree \<Rightarrow> ('k, 'v) btree" where
  "bt_insert k v [] = [(k, v)]"
| "bt_insert k v ((a, b) # m) =
     (if k < a then (k, v) # (a, b) # m
      else if k = a then (k, v) # m
      else (a, b) # bt_insert k v m)"

definition bt_remove :: "'k \<Rightarrow> ('k, 'v) btree \<Rightarrow> ('k, 'v) btree" where
  "bt_remove k m = filter (\<lambda>p. fst p \<noteq> k) m"

definition bt_inv :: "('k::linorder, 'v) btree \<Rightarrow> bool" where
  "bt_inv m \<longleftrightarrow> sorted_wrt (<) (bt_keys m)"

lemma bt_get_insert [simp]: "bt_get (bt_insert k v m) = (bt_get m)(k \<mapsto> v)"
  by (induction k v m rule: bt_insert.induct) (auto simp: fun_eq_iff)

lemma bt_get_remove [simp]: "bt_get (bt_remove k m) = (bt_get m)(k := None)"
  by (induction m) (auto simp: bt_remove_def fun_eq_iff)

lemma bt_keys_insert [simp]: "set (bt_keys (bt_insert k v m)) = insert k (set (bt_keys m))"
  by (induction k v m rule: bt_insert.induct) auto

lemma bt_keys_remove [simp]: "set (bt_keys (bt_remove k m)) = set (bt_keys m) - {k}"
  by (auto simp: bt_remove_def)

lemma bt_has_iff: "bt_has m k \<longleftrightarrow> k \<in> set (bt_keys m)"
  by (auto simp: bt_has_def map_of_eq_None_iff)

lemma bt_fst_insert [simp]: "fst ` set (bt_insert k v m) = insert k (fst ` set m)"
  using bt_keys_insert [of k v m] by simp

lemma bt_has_insert [simp]: "bt_has (bt_insert k v m) k' \<longleftrightarrow> k' = k \<or> bt_has m k'"
  by (simp add: bt_has_iff)

lemma bt_has_get: "bt_has m k \<longleftrightarrow> (\<exists>v. bt_get m k = Some v)"
  by (simp add: bt_has_def)

lemma set_bt_insert: "set (bt_insert k v m) \<subseteq> insert (k, v) (set m)"
  by (induction m) (auto split: if_splits)

lemma set_bt_remove: "set (bt_remove k m) \<subseteq> set m"
  by (auto simp: bt_remove_def)

lemma bt_inv_Nil [simp]: "bt_inv []"
  by (simp add: bt_inv_def)

lemma bt_inv_insert [simp]: "bt_inv m \<Longrightarrow> bt_inv (bt_insert k v m)"
proof (induction k v m rule: bt_insert.induct)
  case (2 k v a b m)
  then show ?case
    using bt_keys_insert [of k v m] by (auto simp: bt_inv_def simp flip: set_map)
qed (simp add: bt_inv_def)

lemma bt_inv_remove [simp]: "bt_inv m \<Longrightarrow> bt_inv (bt_remove k m)"
  by (induction m) (auto simp: bt_inv_def bt_remove_def)

lemma bt_inv_distinct: "bt_inv m \<Longrightarrow> distinct (bt_keys m)"
  by (simp add: bt_inv_def strict_sorted_iff)

lemma bt_keys_get: "bt_inv m \<Longrightarrow> bt_inv m' \<Longrightarrow> dom (bt_get m) = dom (bt_get m') \<Longrightarrow> bt_keys m = bt_keys m'"
  by (metis bt_inv_def dom_map_of_conv_image_fst set_map strict_sorted_equal)

section \<open>Sorting\<close>

lemma insort_key_map: "insort_key g (f x) (map f xs) = map f (insort_key (\<lambda>x. g (f x)) x xs)"
  by (induction xs) auto

lemma sort_key_map: "sort_key g (map f xs) = map f (sort_key (\<lambda>x. g (f x)) xs)"
  by (induction xs) (auto simp: insort_key_map)

lemma sort_key_idem [simp]: "sort_key f (sort_key f xs) = sort_key f xs"
  by (simp add: sort_key_id_if_sorted)

text \<open>A stable sort of an index range keeps equal keys in index order.\<close>

lemma sort_key_upt_stable:
  assumes "sort_key f [0..<n] = pre @ i # post" "j < i" "f j = f i"
  shows "j \<in> set pre"
proof (rule ccontr)
  assume "j \<notin> set pre"
  have sets: "set (pre @ i # post) = {0..<n}" unfolding assms(1) [symmetric] by simp
  have "i \<in> set (pre @ i # post)" by simp
  then have "j \<in> set (pre @ i # post)" unfolding sets using assms(2) by simp
  then have "j \<in> set post" using \<open>j \<notin> set pre\<close> assms(2) by simp
  have "filter (\<lambda>y. f y = f i) (pre @ i # post) = filter (\<lambda>y. f y = f i) [0..<n]"
    unfolding assms(1) [symmetric] by (rule sort_key_stable)
  moreover have "sorted_wrt (<) (filter (\<lambda>y. f y = f i) [0..<n])"
    by (rule sorted_wrt_filter) simp
  ultimately have "sorted_wrt (<) (filter (\<lambda>y. f y = f i) (pre @ i # post))" by simp
  then have "\<forall>x\<in>set (filter (\<lambda>y. f y = f i) post). i < x" by (simp add: sorted_wrt_append)
  then have "i < j" using \<open>j \<in> set post\<close> assms(3) by simp
  then show False using assms(2) by simp
qed

section \<open>Ownership\<close>

text \<open>Holders own resources exclusively: each resource in use has exactly one holder.\<close>

definition owns :: "('h \<rightharpoonup> 'r) \<Rightarrow> 'r set \<Rightarrow> bool" where
  "owns h R \<longleftrightarrow> ran h = R \<and> inj_on h (dom h)"

lemma owns_empty [simp]: "owns (\<lambda>_. None) {}"
  by (simp add: owns_def ran_def)

lemma owns_unique: "owns h R \<Longrightarrow> h k = Some r \<Longrightarrow> h k' = Some r \<Longrightarrow> k = k'"
  using inj_onD [of h "dom h" k k'] by (auto simp: owns_def)

lemma owns_iff: "owns h R \<Longrightarrow> r \<in> R \<longleftrightarrow> (\<exists>!k. h k = Some r)"
  using owns_unique [of h R] unfolding owns_def ran_def by blast

lemma owns_acquire:
  assumes "owns h R" "h k = None" "r \<notin> R"
  shows "owns (h(k \<mapsto> r)) (insert r R)"
proof -
  have "ran (h(k \<mapsto> r)) = insert r R" using assms(1,2) by (simp add: owns_def)
  moreover have "inj_on (h(k \<mapsto> r)) (dom (h(k \<mapsto> r)))" using assms by (auto simp: owns_def inj_on_def ran_def)
  ultimately show ?thesis by (simp add: owns_def)
qed

lemma owns_release:
  assumes "owns h R" "h k = Some r"
  shows "owns (h(k := None)) (R - {r})"
proof -
  have uniq: "k' = k" if "h k' = Some r" for k' using owns_unique [OF assms(1) that assms(2)] .
  have "ran (h(k := None)) = R - {r}"
  proof (intro equalityI subsetI)
    fix x assume "x \<in> ran (h(k := None))"
    then obtain a where "a \<noteq> k" "h a = Some x" by (auto simp: ran_def split: if_splits)
    then show "x \<in> R - {r}" using uniq [of a] assms(1) by (auto simp: owns_def intro: ranI)
  next
    fix x assume "x \<in> R - {r}"
    then obtain a where "h a = Some x" "x \<noteq> r" using assms(1) by (auto simp: owns_def ran_def)
    then have "(h(k := None)) a = Some x" using assms(2) by auto
    then show "x \<in> ran (h(k := None))" by (rule ranI)
  qed
  moreover have "inj_on (h(k := None)) (dom (h(k := None)))" using assms(1) by (auto simp: owns_def inj_on_def)
  ultimately show ?thesis by (simp add: owns_def)
qed

lemma owns_drop: "owns h R \<Longrightarrow> h k = None \<Longrightarrow> owns (h(k := None)) R"
  by (simp add: fun_upd_idem)

end
