(* ===== verification/AP_Types.thy ===== *)
theory AP_Types
  imports AP_Prelude
begin

text \<open>
  The value types of the aP file protocol (\<open>crates/ap/src/types.rs\<close>), the per-file version
  table (\<open>version.rs\<close>) and the append-only byte stream behind every stream file
  (\<open>stream.rs\<close>).
\<close>

section \<open>Values of the protocol (types.rs)\<close>

type_synonym fid = u64
type_synonym offset = u64

abbreviation ROOT :: fid where
  "ROOT \<equiv> 0"

datatype file_kind = KDir | KFile | KStream | KClone

record qid =
  qid_kind :: file_kind
  qid_version :: u32
  qid_path :: u64

datatype open_mode = OpenRead | OpenWrite | OpenReadWrite

record stat =
  stat_name :: string
  stat_qid :: qid
  stat_length :: u64
  stat_executable :: bool
  stat_writable :: bool

datatype error_code =
    NotFound | NoAccess | RateLimited | BadRequest
  | NotDirectory | IsDirectory | Unsupported | Io

text \<open>An aP result: \<open>Inl\<close> the error code, \<open>Inr\<close> the value. The trait methods are asynchronous:
  \<open>None\<close> is a call that is parked at an await point (a read at the live edge of a stream).\<close>

type_synonym 'a res = "error_code + 'a"
type_synonym 'a poll = "'a res option"

abbreviation Ok :: "'a \<Rightarrow> 'a res" where "Ok \<equiv> Inr"
abbreviation Err :: "error_code \<Rightarrow> 'a res" where "Err \<equiv> Inl"

definition ready :: "'a res \<times> 's \<Rightarrow> 'a poll \<times> 's" where
  "ready rs = (Some (fst rs), snd rs)"

lemma ready_simps [simp]: "ready (r, s) = (Some r, s)"
  by (simp add: ready_def)

text \<open>\<open>Option::ok_or\<close>.\<close>

definition ok_or :: "'a option \<Rightarrow> error_code \<Rightarrow> 'a res" where
  "ok_or x e = (case x of None \<Rightarrow> Err e | Some v \<Rightarrow> Ok v)"

lemma ok_or_simps [simp]: "ok_or None e = Err e" "ok_or (Some v) e = Ok v"
  by (simp_all add: ok_or_def)

text \<open>The two recurring \<open>matches!\<close> tests on an open mode and on a fid's recorded mode.\<close>

definition write_intent :: "open_mode \<Rightarrow> bool" where
  "write_intent m \<longleftrightarrow> m = OpenWrite \<or> m = OpenReadWrite"

definition opened_for_write :: "open_mode option \<Rightarrow> bool" where
  "opened_for_write m \<longleftrightarrow> m = Some OpenWrite \<or> m = Some OpenReadWrite"

definition opened_for_read :: "open_mode option \<Rightarrow> bool" where
  "opened_for_read m \<longleftrightarrow> m = Some OpenRead \<or> m = Some OpenReadWrite"

text \<open>A fid that is bound and already open, as every \<open>open\<close> tests it before a reopen.\<close>

definition already_open :: "('f \<Rightarrow> open_mode option) \<Rightarrow> 'f option \<Rightarrow> bool" where
  "already_open mode f \<longleftrightarrow> (case f of Some x \<Rightarrow> mode x \<noteq> None | None \<Rightarrow> False)"

lemma already_open_iff [simp]: "already_open mode f \<longleftrightarrow> (\<exists>x. f = Some x \<and> mode x \<noteq> None)"
  by (simp add: already_open_def split: option.split)

text \<open>The offset checks of a buffered document write, as \<open>write\<close> of every document file makes
  them: the end of the range must be a \<open>usize\<close> and must stay within the document limit.\<close>

definition doc_write :: "nat \<Rightarrow> offset \<Rightarrow> bytes \<Rightarrow> bytes \<Rightarrow> bytes res" where
  "doc_write limit offset data buf =
     (let start = unat offset; end = start + length data in
      if 2 ^ 64 \<le> end then Err BadRequest
      else if limit < end then Err BadRequest
      else Ok (write_at start data buf))"

lemma doc_write_Ok:
  "doc_write limit offset data buf = Ok buf' \<longleftrightarrow>
     unat offset + length data < 2 ^ 64 \<and> unat offset + length data \<le> limit \<and>
     buf' = write_at (unat offset) data buf"
  by (auto simp: doc_write_def Let_def)

lemma doc_write_Err: "doc_write limit offset data buf = Err e \<Longrightarrow> e = BadRequest"
  by (auto simp: doc_write_def Let_def split: if_splits)

lemma doc_write_length:
  "doc_write limit offset data buf = Ok buf' \<Longrightarrow> length buf \<le> limit \<Longrightarrow> length buf' \<le> limit"
  by (auto simp: doc_write_Ok)

section \<open>Versions (version.rs)\<close>

type_synonym version_table = "u64 \<rightharpoonup> u32"

definition vt_new :: version_table where
  "vt_new = Map.empty"

definition vt_get :: "version_table \<Rightarrow> u64 \<Rightarrow> u32" where
  "vt_get vt key = (case vt key of None \<Rightarrow> 0 | Some v \<Rightarrow> v)"

definition vt_bump :: "u64 \<Rightarrow> version_table \<Rightarrow> version_table" where
  "vt_bump key vt = vt(key \<mapsto> vt_get vt key + 1)"

lemma vt_get_new [simp]: "vt_get vt_new k = 0"
  by (simp add: vt_get_def vt_new_def)

lemma vt_get_bump: "vt_get (vt_bump k vt) k' = (if k' = k then vt_get vt k + 1 else vt_get vt k')"
  by (simp add: vt_get_def vt_bump_def)

lemma vt_get_bump_same [simp]: "vt_get (vt_bump k vt) k = vt_get vt k + 1"
  by (simp add: vt_get_bump)

lemma vt_get_bump_other [simp]: "k' \<noteq> k \<Longrightarrow> vt_get (vt_bump k vt) k' = vt_get vt k'"
  by (simp add: vt_get_bump)

lemma vt_bump_differs: "vt_get (vt_bump k vt) k \<noteq> vt_get vt k"
  by simp

fun vt_bump_all :: "u64 list \<Rightarrow> version_table \<Rightarrow> version_table" where
  "vt_bump_all [] vt = vt"
| "vt_bump_all (k # ks) vt = vt_bump_all ks (vt_bump k vt)"

lemma vt_get_bump_all: "vt_get (vt_bump_all ks vt) k = vt_get vt k + of_nat (count_list ks k)"
  by (induction ks arbitrary: vt) (auto simp: vt_get_bump)

section \<open>Streams (stream.rs)\<close>

record stream =
  stream_buf :: bytes
  stream_len_tx :: u64

definition stream_new :: stream where
  "stream_new = \<lparr>stream_buf = [], stream_len_tx = 0\<rparr>"

definition stream_append :: "bytes \<Rightarrow> stream \<Rightarrow> stream" where
  "stream_append data s =
     (let buf = stream_buf s @ data
      in s\<lparr>stream_buf := buf, stream_len_tx := of_nat (length buf)\<rparr>)"

definition stream_len :: "stream \<Rightarrow> u64" where
  "stream_len s = of_nat (length (stream_buf s))"

definition stream_is_empty :: "stream \<Rightarrow> bool" where
  "stream_is_empty s \<longleftrightarrow> stream_buf s = []"

text \<open>\<open>None\<close> is the parked reader: no byte exists at \<open>offset\<close> yet.\<close>

definition stream_read :: "stream \<Rightarrow> offset \<Rightarrow> u32 \<Rightarrow> bytes option" where
  "stream_read s offset count =
     (let start = unat offset; buf = stream_buf s in
      if start < length buf
      then Some (subrange buf start (min (length buf) (start + unat count)))
      else None)"

lemma stream_buf_simps [simp]:
  "stream_buf stream_new = []"
  "stream_buf (stream_append d s) = stream_buf s @ d"
  by (simp_all add: stream_new_def stream_append_def Let_def)

lemma stream_read_alt:
  "stream_read s offset count =
     (if unat offset < length (stream_buf s)
      then Some (take (unat count) (drop (unat offset) (stream_buf s))) else None)"
  by (auto simp: stream_read_def subrange_def Let_def min_def)

text \<open>The watch channel always carries the length of the log, so a waiting reader that compares
  it with its offset sees every append.\<close>

definition stream_ok :: "stream \<Rightarrow> bool" where
  "stream_ok s \<longleftrightarrow> stream_len_tx s = of_nat (length (stream_buf s))"

lemma stream_ok_simps [simp]: "stream_ok stream_new" "stream_ok (stream_append d s)"
  by (simp_all add: stream_ok_def stream_new_def stream_append_def Let_def)

text \<open>The contract a stream file promises its readers, and what a reader that resumes from a
  held offset gets out of it.\<close>

locale byte_log =
  fixes contents :: "'s \<Rightarrow> bytes"
    and append_log :: "bytes \<Rightarrow> 's \<Rightarrow> 's"
    and read_log :: "'s \<Rightarrow> offset \<Rightarrow> u32 \<Rightarrow> bytes option"
  assumes contents_append: "contents (append_log d s) = contents s @ d"
    and read_some: "unat offset < length (contents s) \<Longrightarrow>
          read_log s offset count = Some (take (unat count) (drop (unat offset) (contents s)))"
    and read_park: "length (contents s) \<le> unat offset \<Longrightarrow> read_log s offset count = None"
begin

lemma read_prefix_stable:
  assumes "read_log s offset count = Some d"
  shows "\<exists>d'. read_log (append_log e s) offset count = Some (d @ d')"
proof -
  have lt: "unat offset < length (contents s)"
    using assms read_park [of s offset count] by (cases "unat offset < length (contents s)") auto
  let ?rest = "drop (unat offset) (contents s)"
  have d: "d = take (unat count) ?rest"
    using assms read_some [OF lt] by simp
  have "read_log (append_log e s) offset count = Some (take (unat count) (?rest @ e))"
    using lt by (simp add: read_some contents_append)
  moreover have "take (unat count) (?rest @ e) = d @ take (unat count - length ?rest) e"
    by (simp add: d)
  ultimately show ?thesis by auto
qed

lemma parked_reader_wakes:
  assumes "read_log s offset count = None" "unat offset < length (contents s) + length d"
  shows "\<exists>r. read_log (append_log d s) offset count = Some r"
  using assms read_some by (metis contents_append length_append)

end

interpretation stream_log: byte_log stream_buf stream_append stream_read
  by unfold_locales (auto simp: stream_read_alt)

text \<open>A tail session: repeated reads that advance a held offset until the live edge (or the
  list of requested sizes) is reached.\<close>

fun tail_reads :: "stream \<Rightarrow> nat \<Rightarrow> u32 list \<Rightarrow> bytes" where
  "tail_reads s off [] = []"
| "tail_reads s off (c # cs) =
     (case stream_read s (of_nat off) c of
        None \<Rightarrow> []
      | Some d \<Rightarrow> d @ tail_reads s (off + length d) cs)"

lemma tail_reads_contents:
  assumes "length (stream_buf s) < 2 ^ 64" "off \<le> length (stream_buf s)"
  shows "tail_reads s off cs = take (sum_list (map unat cs)) (drop off (stream_buf s))"
  using assms(2)
proof (induction cs arbitrary: off)
  case (Cons c cs)
  have off: "unat (of_nat off :: u64) = off"
    using assms(1) Cons.prems by (simp add: unat_of_nat)
  show ?case
  proof (cases "off < length (stream_buf s)")
    case True
    let ?d = "take (unat c) (drop off (stream_buf s))"
    have "stream_read s (of_nat off) c = Some ?d"
      using True off by (simp add: stream_read_alt)
    moreover have "off + length ?d \<le> length (stream_buf s)"
      using True by simp
    ultimately have "tail_reads s off (c # cs) =
        ?d @ take (sum_list (map unat cs)) (drop (off + length ?d) (stream_buf s))"
      using Cons.IH by simp
    also have "drop (off + length ?d) (stream_buf s) = drop (unat c) (drop off (stream_buf s))"
      by (simp add: min_def add.commute)
    finally show ?thesis by (simp add: take_add)
  next
    case False
    then show ?thesis using off by (simp add: stream_read_alt)
  qed
qed simp

text \<open>The same session while other tasks append: the events are the order in which the appends and
  the polls of the tailing reader take the stream's lock.\<close>

datatype tail_event = Appended bytes | Polled u32

fun tail_session :: "tail_event list \<Rightarrow> stream \<Rightarrow> nat \<Rightarrow> bytes \<times> stream" where
  "tail_session [] s off = ([], s)"
| "tail_session (Appended d # es) s off = tail_session es (stream_append d s) off"
| "tail_session (Polled c # es) s off =
     (case stream_read s (of_nat off) c of
        None \<Rightarrow> tail_session es s off
      | Some d \<Rightarrow> (let (got, s') = tail_session es s (off + length d) in (d @ got, s')))"

fun appended_bytes :: "tail_event list \<Rightarrow> bytes" where
  "appended_bytes [] = []"
| "appended_bytes (Appended d # es) = d @ appended_bytes es"
| "appended_bytes (Polled c # es) = appended_bytes es"

lemma stream_buf_append [simp]: "stream_buf (stream_append d s) = stream_buf s @ d"
  by (rule stream_log.contents_append)

lemma tail_session_buf: "stream_buf (snd (tail_session es s off)) = stream_buf s @ appended_bytes es"
  by (induction es s off rule: tail_session.induct)
    (auto simp: Let_def case_prod_beta split: option.splits)

lemma tail_session_got:
  assumes "length (stream_buf s @ appended_bytes es) < 2 ^ 64" "off \<le> length (stream_buf s)"
  shows "\<exists>n. off + n \<le> length (stream_buf s @ appended_bytes es) \<and>
    fst (tail_session es s off) = take n (drop off (stream_buf s @ appended_bytes es))"
  using assms
proof (induction es s off rule: tail_session.induct)
  case (1 s off)
  then show ?case by (intro exI [of _ 0]) simp
next
  case (2 d es s off)
  then show ?case by simp
next
  case (3 c es s off)
  let ?b = "stream_buf s @ appended_bytes es"
  have off: "unat (of_nat off :: u64) = off"
    using "3.prems" by (simp add: unat_of_nat)
  show ?case
  proof (cases "off < length (stream_buf s)")
    case True
    let ?d = "take (unat c) (drop off (stream_buf s))"
    have r: "stream_read s (of_nat off) c = Some ?d"
      using True off by (simp add: stream_read_alt)
    have le: "off + length ?d \<le> length (stream_buf s)" using True by simp
    obtain n where n: "off + length ?d + n \<le> length ?b"
      "fst (tail_session es s (off + length ?d)) = take n (drop (off + length ?d) ?b)"
      using "3.IH"(2) [OF r] "3.prems" le by auto
    have "take (length ?d) (drop off ?b) = ?d" using True by (simp add: min_def)
    then have "?d @ take n (drop (off + length ?d) ?b) = take (length ?d + n) (drop off ?b)"
      by (simp only: take_add drop_drop add.commute [of "length ?d" off])
    with n r show ?thesis
      by (intro exI [of _ "length ?d + n"]) (simp add: case_prod_beta Let_def add.assoc)
  next
    case False
    then have "stream_read s (of_nat off) c = None" using off by (simp add: stream_read_alt)
    with 3 show ?thesis by simp
  qed
qed



end
