(* ===== verification/AP_Wire.thy ===== *)
theory AP_Wire
  imports AP_Types
begin

text \<open>
  The wire messages of the aP protocol and their newline-delimited framing
  (\<open>crates/ap/src/wire.rs\<close>). The JSON codec is \<open>serde_json\<close>, which is not part of the
  repository: it is a parameter of type \<open>codec\<close>, and what the framing relies on is stated by
  the two predicates \<open>codec_roundtrip\<close> and \<open>codec_no_newline\<close>.
\<close>

section \<open>Messages\<close>

definition MAX_WIRE_FRAME_BYTES :: nat where
  "MAX_WIRE_FRAME_BYTES = 1048576"

type_synonym wire_tag = u64

datatype request =
    ReqWalk fid fid "string list"
  | ReqOpen fid open_mode
  | ReqRead fid offset u32
  | ReqWrite fid offset bytes
  | ReqStat fid
  | ReqCreate fid fid string file_kind
  | ReqRemove fid
  | ReqClunk fid

datatype response =
    RespWalk qid
  | RespOpen qid
  | RespRead bytes
  | RespWrite u32
  | RespStat stat
  | RespCreate qid
  | RespRemove
  | RespClunk

record wire_request_frame =
  wrf_tag :: wire_tag
  wrf_request :: request

datatype wire_response_frame =
    FrameOk wire_tag response
  | FrameError wire_tag error_code

definition from_result :: "wire_tag \<Rightarrow> response res \<Rightarrow> wire_response_frame" where
  "from_result tag result =
     (case result of Inr response \<Rightarrow> FrameOk tag response | Inl code \<Rightarrow> FrameError tag code)"

fun into_result :: "wire_response_frame \<Rightarrow> wire_tag \<times> response res" where
  "into_result (FrameOk tag response) = (tag, Ok response)"
| "into_result (FrameError tag code) = (tag, Err code)"

lemma into_from_result [simp]: "into_result (from_result tag r) = (tag, r)"
  by (cases r) (simp_all add: from_result_def)

section \<open>Errors of the transport\<close>

datatype wire_error =
    WireIo | WireCodec | WireClosed | WireUnsynchronized | WireFrameTooLarge nat | WireTruncatedFrame

fun to_error_code :: "wire_error \<Rightarrow> error_code" where
  "to_error_code WireCodec = BadRequest"
| "to_error_code (WireFrameTooLarge _) = BadRequest"
| "to_error_code WireTruncatedFrame = BadRequest"
| "to_error_code WireIo = Io"
| "to_error_code WireClosed = Io"
| "to_error_code WireUnsynchronized = Io"

section \<open>Encoding and decoding frames\<close>

record 'f codec =
  to_vec :: "'f \<Rightarrow> bytes option"
  from_slice :: "bytes \<Rightarrow> 'f option"

definition codec_roundtrip :: "'f codec \<Rightarrow> bool" where
  "codec_roundtrip c \<longleftrightarrow> (\<forall>v b. to_vec c v = Some b \<longrightarrow> from_slice c (b @ [newline]) = Some v)"

definition codec_no_newline :: "'f codec \<Rightarrow> bool" where
  "codec_no_newline c \<longleftrightarrow> (\<forall>v b. to_vec c v = Some b \<longrightarrow> newline \<notin> set b)"

definition encode_json_line :: "'f codec \<Rightarrow> 'f \<Rightarrow> wire_error + bytes" where
  "encode_json_line c v =
     (case to_vec c v of None \<Rightarrow> Inl WireCodec | Some b \<Rightarrow> Inr (b @ [newline]))"

definition encode_tagged_request_frame ::
  "wire_request_frame codec \<Rightarrow> wire_tag \<Rightarrow> request \<Rightarrow> wire_error + bytes" where
  "encode_tagged_request_frame c tag request =
     encode_json_line c \<lparr>wrf_tag = tag, wrf_request = request\<rparr>"

definition encode_request_frame :: "wire_request_frame codec \<Rightarrow> request \<Rightarrow> wire_error + bytes" where
  "encode_request_frame c request = encode_tagged_request_frame c 0 request"

definition decode_tagged_request_frame ::
  "wire_request_frame codec \<Rightarrow> bytes \<Rightarrow> wire_error + (wire_tag \<times> request)" where
  "decode_tagged_request_frame c frame =
     (case from_slice c frame of
        None \<Rightarrow> Inl WireCodec
      | Some f \<Rightarrow> Inr (wrf_tag f, wrf_request f))"

definition decode_request_frame :: "wire_request_frame codec \<Rightarrow> bytes \<Rightarrow> wire_error + request" where
  "decode_request_frame c frame =
     (case decode_tagged_request_frame c frame of Inl e \<Rightarrow> Inl e | Inr p \<Rightarrow> Inr (snd p))"

definition encode_tagged_response_frame ::
  "wire_response_frame codec \<Rightarrow> wire_tag \<Rightarrow> response res \<Rightarrow> wire_error + bytes" where
  "encode_tagged_response_frame c tag result = encode_json_line c (from_result tag result)"

definition encode_response_frame :: "wire_response_frame codec \<Rightarrow> response res \<Rightarrow> wire_error + bytes" where
  "encode_response_frame c result = encode_tagged_response_frame c 0 result"

definition decode_tagged_response_frame ::
  "wire_response_frame codec \<Rightarrow> bytes \<Rightarrow> wire_error + (wire_tag \<times> response res)" where
  "decode_tagged_response_frame c frame =
     (case from_slice c frame of None \<Rightarrow> Inl WireCodec | Some f \<Rightarrow> Inr (into_result f))"

definition decode_response_frame :: "wire_response_frame codec \<Rightarrow> bytes \<Rightarrow> wire_error + response res" where
  "decode_response_frame c frame =
     (case decode_tagged_response_frame c frame of Inl e \<Rightarrow> Inl e | Inr p \<Rightarrow> Inr (snd p))"

lemma request_frame_decodes:
  "codec_roundtrip c \<Longrightarrow> encode_tagged_request_frame c tag req = Inr b \<Longrightarrow>
     decode_tagged_request_frame c b = Inr (tag, req)"
  by (auto simp: encode_tagged_request_frame_def encode_json_line_def codec_roundtrip_def
      decode_tagged_request_frame_def split: option.splits)

lemma response_frame_decodes:
  "codec_roundtrip c \<Longrightarrow> encode_tagged_response_frame c tag r = Inr b \<Longrightarrow>
     decode_tagged_response_frame c b = Inr (tag, r)"
  by (auto simp: encode_tagged_response_frame_def encode_json_line_def codec_roundtrip_def
      decode_tagged_response_frame_def split: option.splits)

section \<open>The buffered reader\<close>

text \<open>
  A reader is the sequence of its future \<open>fill_buf\<close> results: \<open>Some\<close> a non-empty run of available
  bytes, \<open>None\<close> an I/O error, and the end of the list (or an empty run) the end of the input.
  \<open>consume\<close> leaves what was not taken at the front.
\<close>

type_synonym reader = "bytes option list"

fun newline_position :: "bytes \<Rightarrow> nat option" where
  "newline_position [] = None"
| "newline_position (x # xs) =
     (if x = newline then Some 0 else map_option Suc (newline_position xs))"

definition consume :: "nat \<Rightarrow> bytes \<Rightarrow> reader \<Rightarrow> reader" where
  "consume n available r = (if n < length available then Some (drop n available) # r else r)"

fun reader_size :: "reader \<Rightarrow> nat" where
  "reader_size [] = 0"
| "reader_size (None # r) = Suc (reader_size r)"
| "reader_size (Some b # r) = Suc (length b) + reader_size r"

definition line_span :: "bytes \<Rightarrow> nat" where
  "line_span available =
     (case newline_position available of Some i \<Rightarrow> i + 1 | None \<Rightarrow> length available)"

lemma newline_position_less: "newline_position b = Some i \<Longrightarrow> i < length b"
  by (induction b arbitrary: i) (auto split: if_splits)

lemma line_span_bounds: "line_span b \<le> length b" "b \<noteq> [] \<Longrightarrow> 0 < line_span b"
  using newline_position_less by (fastforce simp: line_span_def split: option.splits)+

lemma reader_size_consume:
  "0 < n \<Longrightarrow> reader_size (consume n b r) < Suc (length b + reader_size r)"
  by (auto simp: consume_def)

function read_json_line_from :: "bytes \<Rightarrow> reader \<Rightarrow> (wire_error + bytes option) \<times> reader" where
  "read_json_line_from frame [] =
     (if frame = [] then Inr None else Inl WireTruncatedFrame, [])"
| "read_json_line_from frame (None # r) = (Inl WireIo, r)"
| "read_json_line_from frame (Some available # r) =
     (if available = [] then
        (if frame = [] then Inr None else Inl WireTruncatedFrame, Some available # r)
      else let consumed = line_span available in
        if MAX_WIRE_FRAME_BYTES < length frame + consumed then
          (Inl (WireFrameTooLarge MAX_WIRE_FRAME_BYTES), Some available # r)
        else
          let frame' = frame @ take consumed available; r' = consume consumed available r in
          if last frame' = newline then (Inr (Some frame'), r')
          else read_json_line_from frame' r')"
  by pat_completeness auto
termination
  by (relation "measure (\<lambda>(_, r). reader_size r)") (auto simp: line_span_bounds reader_size_consume)

definition read_json_line :: "reader \<Rightarrow> (wire_error + bytes option) \<times> reader" where
  "read_json_line r = read_json_line_from [] r"

definition read_tagged_request_frame ::
  "wire_request_frame codec \<Rightarrow> reader \<Rightarrow> (wire_error + (wire_tag \<times> request) option) \<times> reader" where
  "read_tagged_request_frame c r =
     (case read_json_line r of
        (Inl e, r') \<Rightarrow> (Inl e, r')
      | (Inr None, r') \<Rightarrow> (Inr None, r')
      | (Inr (Some frame), r') \<Rightarrow>
          (case decode_tagged_request_frame c frame of
             Inl e \<Rightarrow> (Inl e, r')
           | Inr p \<Rightarrow> (Inr (Some p), r')))"

definition read_tagged_response_frame ::
  "wire_response_frame codec \<Rightarrow> reader \<Rightarrow> (wire_error + (wire_tag \<times> response res) option) \<times> reader" where
  "read_tagged_response_frame c r =
     (case read_json_line r of
        (Inl e, r') \<Rightarrow> (Inl e, r')
      | (Inr None, r') \<Rightarrow> (Inr None, r')
      | (Inr (Some frame), r') \<Rightarrow>
          (case decode_tagged_response_frame c frame of
             Inl e \<Rightarrow> (Inl e, r')
           | Inr p \<Rightarrow> (Inr (Some p), r')))"

definition read_request_frame ::
  "wire_request_frame codec \<Rightarrow> reader \<Rightarrow> (wire_error + request option) \<times> reader" where
  "read_request_frame c r =
     (case read_tagged_request_frame c r of
        (Inl e, r') \<Rightarrow> (Inl e, r')
      | (Inr p, r') \<Rightarrow> (Inr (map_option snd p), r'))"

definition read_response_frame ::
  "wire_response_frame codec \<Rightarrow> reader \<Rightarrow> (wire_error + response res option) \<times> reader" where
  "read_response_frame c r =
     (case read_tagged_response_frame c r of
        (Inl e, r') \<Rightarrow> (Inl e, r')
      | (Inr p, r') \<Rightarrow> (Inr (map_option snd p), r'))"

text \<open>\<open>put\<close> stands for \<open>write_all\<close> followed by \<open>flush\<close> on the transport's writer, which may fail
  or park.\<close>

type_synonym 'w put = "bytes \<Rightarrow> 'w \<Rightarrow> (wire_error + unit) option \<times> 'w"

definition write_tagged_request_frame ::
  "wire_request_frame codec \<Rightarrow> 'w put \<Rightarrow> wire_tag \<Rightarrow> request \<Rightarrow> 'w \<Rightarrow> (wire_error + unit) option \<times> 'w" where
  "write_tagged_request_frame c put tag request w =
     (case encode_tagged_request_frame c tag request of
        Inl e \<Rightarrow> (Some (Inl e), w)
      | Inr frame \<Rightarrow> put frame w)"

definition write_request_frame ::
  "wire_request_frame codec \<Rightarrow> 'w put \<Rightarrow> request \<Rightarrow> 'w \<Rightarrow> (wire_error + unit) option \<times> 'w" where
  "write_request_frame c put request w = write_tagged_request_frame c put 0 request w"

definition write_tagged_response_frame ::
  "wire_response_frame codec \<Rightarrow> 'w put \<Rightarrow> wire_tag \<Rightarrow> response res \<Rightarrow> 'w \<Rightarrow>
     (wire_error + unit) option \<times> 'w" where
  "write_tagged_response_frame c put tag result w =
     (case encode_tagged_response_frame c tag result of
        Inl e \<Rightarrow> (Some (Inl e), w)
      | Inr frame \<Rightarrow> put frame w)"

definition write_response_frame ::
  "wire_response_frame codec \<Rightarrow> 'w put \<Rightarrow> response res \<Rightarrow> 'w \<Rightarrow> (wire_error + unit) option \<times> 'w" where
  "write_response_frame c put result w = write_tagged_response_frame c put 0 result w"

section \<open>Framing does not depend on how the bytes arrive\<close>

text \<open>The reference: what a line reader does on the whole input at once.\<close>

definition read_line_spec :: "bytes \<Rightarrow> (wire_error + bytes option) \<times> bytes" where
  "read_line_spec bs =
     (if bs = [] then (Inr None, [])
      else let n = line_span bs; line = take n bs in
        if MAX_WIRE_FRAME_BYTES < n then (Inl (WireFrameTooLarge MAX_WIRE_FRAME_BYTES), bs)
        else if last line = newline then (Inr (Some line), drop n bs)
        else (Inl WireTruncatedFrame, []))"

fun reader_bytes :: "reader \<Rightarrow> bytes" where
  "reader_bytes [] = []"
| "reader_bytes (None # r) = reader_bytes r"
| "reader_bytes (Some b # r) = b @ reader_bytes r"

fun sound_reader :: "reader \<Rightarrow> bool" where
  "sound_reader [] \<longleftrightarrow> True"
| "sound_reader (None # r) \<longleftrightarrow> False"
| "sound_reader (Some b # r) \<longleftrightarrow> b \<noteq> [] \<and> sound_reader r"

lemma newline_position_None: "newline_position b = None \<longleftrightarrow> newline \<notin> set b"
  by (induction b) auto

lemma newline_position_Some:
  "newline_position b = Some i \<Longrightarrow>
     take (Suc i) b = take i b @ [newline] \<and> newline \<notin> set (take i b)"
  by (induction b arbitrary: i) (auto split: if_splits)

lemma newline_position_append:
  "newline_position (a @ b) =
     (case newline_position a of
        Some i \<Rightarrow> Some i
      | None \<Rightarrow> map_option (\<lambda>i. length a + i) (newline_position b))"
proof (induction a)
  case Nil
  then show ?case by (cases "newline_position b") auto
next
  case (Cons x a)
  then show ?case by (cases "newline_position b") (auto split: option.splits)
qed

lemma line_span_line:
  assumes "newline \<in> set b"
  shows "last (take (line_span b) b) = newline" "newline \<notin> set (butlast (take (line_span b) b))"
  using assms newline_position_Some [of b]
  by (auto simp: line_span_def newline_position_None split: option.splits)

lemma line_span_no_newline: "newline \<notin> set b \<Longrightarrow> line_span b = length b"
  by (simp add: line_span_def flip: newline_position_None)

lemma last_take_line_span:
  assumes "b \<noteq> []"
  shows "last (take (line_span b) b) = newline \<longleftrightarrow> newline \<in> set b"
proof (cases "newline \<in> set b")
  case False
  then have "last b \<noteq> newline" using assms by (metis last_in_set)
  with False show ?thesis by (simp add: line_span_no_newline)
qed (simp add: line_span_line)

lemma line_span_append:
  "line_span (a @ b) = (if newline \<in> set a then line_span a else length a + line_span b)"
proof (cases "newline_position a")
  case None
  then have "newline \<notin> set a" using newline_position_None [of a] by auto
  with None show ?thesis
    by (auto simp: line_span_def newline_position_append split: option.splits)
next
  case (Some i)
  then have "newline \<in> set a" using newline_position_None [of a] by auto
  with Some show ?thesis by (simp add: line_span_def newline_position_append)
qed

lemma reader_bytes_consume [simp]:
  "n \<le> length b \<Longrightarrow> reader_bytes (consume n b r) = drop n b @ reader_bytes r"
  by (auto simp: consume_def)

lemma sound_reader_consume: "sound_reader r \<Longrightarrow> sound_reader (consume n b r)"
  by (auto simp: consume_def)

lemma sound_reader_empty: "sound_reader r \<Longrightarrow> reader_bytes r = [] \<longleftrightarrow> r = []"
  by (cases r rule: sound_reader.cases) auto

theorem read_json_line_from_spec:
  assumes "sound_reader r" "newline \<notin> set frame" "length frame \<le> MAX_WIRE_FRAME_BYTES"
  shows "fst (read_json_line_from frame r) = fst (read_line_spec (frame @ reader_bytes r)) \<and>
    (\<forall>line. fst (read_json_line_from frame r) = Inr (Some line) \<longrightarrow>
       sound_reader (snd (read_json_line_from frame r)) \<and>
       reader_bytes (snd (read_json_line_from frame r)) =
         snd (read_line_spec (frame @ reader_bytes r)))"
  using assms
proof (induction frame r rule: read_json_line_from.induct)
  case (1 frame)
  then show ?case
    using last_take_line_span [of frame]
    by (auto simp: read_line_spec_def line_span_no_newline Let_def)
next
  case (2 frame r)
  then show ?case by simp
next
  case (3 frame b r)
  let ?n = "line_span b" and ?rest = "reader_bytes r"
  have b: "b \<noteq> []" and r: "sound_reader r" using "3.prems" by auto
  note n = line_span_bounds [of b]
  show ?case
  proof (cases "newline \<in> set b")
    case True
    have span: "line_span (frame @ b @ ?rest) = length frame + ?n"
      using "3.prems" True by (simp add: line_span_append)
    have last: "last (frame @ take ?n b) = newline"
      using True b n by (simp add: line_span_line)
    show ?thesis
      using b n span last r sound_reader_consume [OF r]
      by (auto simp: read_line_spec_def Let_def)
  next
    case False
    then have n': "?n = length b" by (simp add: line_span_no_newline)
    have last: "last (frame @ b) \<noteq> newline" using False b by (metis last_appendR last_in_set)
    have span: "line_span (frame @ b @ ?rest) = length frame + length b + line_span ?rest"
      using "3.prems" False by (simp add: line_span_append)
    show ?thesis
    proof (cases "MAX_WIRE_FRAME_BYTES < length frame + length b")
      case True
      then show ?thesis using b n' span by (simp add: read_line_spec_def Let_def)
    next
      case small: False
      have step: "read_json_line_from frame (Some b # r) = read_json_line_from (frame @ b) r"
        using b n' last small by (simp add: consume_def)
      have "newline \<notin> set (frame @ b)" using False "3.prems" by simp
      then show ?thesis
        unfolding step using "3.IH" [of ?n "frame @ b" r] b n' last r small by (simp add: consume_def)
    qed
  qed
qed

lemma read_json_line_spec:
  assumes "sound_reader r"
  shows "fst (read_json_line r) = fst (read_line_spec (reader_bytes r))"
    "fst (read_json_line r) = Inr (Some line) \<Longrightarrow> sound_reader (snd (read_json_line r)) \<and>
       reader_bytes (snd (read_json_line r)) = snd (read_line_spec (reader_bytes r))"
  using read_json_line_from_spec [OF assms, of "[]"] by (auto simp: read_json_line_def)

section \<open>Frames survive the transport\<close>

lemma read_line_spec_line:
  assumes "newline \<notin> set line" "length line < MAX_WIRE_FRAME_BYTES"
  shows "read_line_spec (line @ newline # rest) = (Inr (Some (line @ [newline])), rest)"
proof -
  have "line_span (line @ newline # rest) = Suc (length line)"
    using assms by (simp add: line_span_append) (simp add: line_span_def)
  then show ?thesis using assms by (simp add: read_line_spec_def)
qed

lemma read_json_line_line:
  assumes "sound_reader r" "reader_bytes r = line @ newline # rest"
    and "newline \<notin> set line" "length line < MAX_WIRE_FRAME_BYTES"
  obtains r' where "read_json_line r = (Inr (Some (line @ [newline])), r')"
    "sound_reader r'" "reader_bytes r' = rest"
  using read_json_line_spec [OF assms(1)] read_line_spec_line [OF assms(3,4)] assms(2)
  by (metis fst_conv prod.collapse snd_conv)

lemma encode_json_line_Inr:
  assumes "codec_no_newline c" "encode_json_line c v = Inr b"
  obtains line where "b = line @ [newline]" "newline \<notin> set line" "to_vec c v = Some line"
  using assms by (auto simp: encode_json_line_def codec_no_newline_def split: option.splits)

text \<open>
  (C2) The bytes of an encoded request frame, followed by anything, arriving in any sequence of
  non-empty \<open>fill_buf\<close> runs, are read back as exactly that tag and request, and the reader is left
  at exactly the following bytes: nothing is lost, merged or read twice, however the transport
  splits the stream.
\<close>

theorem request_frame_roundtrip:
  assumes "codec_roundtrip c" "codec_no_newline c"
    and "encode_tagged_request_frame c tag req = Inr frame" "length frame \<le> MAX_WIRE_FRAME_BYTES"
    and "sound_reader r" "reader_bytes r = frame @ rest"
  shows "\<exists>r'. read_tagged_request_frame c r = (Inr (Some (tag, req)), r') \<and>
           sound_reader r' \<and> reader_bytes r' = rest"
proof -
  obtain line where line: "frame = line @ [newline]" "newline \<notin> set line"
    using assms(2,3) encode_json_line_Inr unfolding encode_tagged_request_frame_def by metis
  then obtain r' where "read_json_line r = (Inr (Some frame), r')" "sound_reader r'"
      "reader_bytes r' = rest"
    using assms(4-6) read_json_line_line [of r line rest] by auto
  then show ?thesis
    using request_frame_decodes [OF assms(1,3)] by (simp add: read_tagged_request_frame_def)
qed

theorem request_frame_roundtrip_witness:
  "\<exists>c tag req frame r rest r'. encode_tagged_request_frame c tag req = Inr frame \<and>
     r = [Some ''{''] @ [Some (''}'' @ [newline] @ ''{'')] \<and> rest = ''{'' \<and>
     read_tagged_request_frame c r = (Inr (Some (tag, req)), r') \<and> reader_bytes r' = rest"
proof -
  let ?f = "\<lparr>wrf_tag = 7, wrf_request = ReqStat 3\<rparr>"
  let ?c = "\<lparr>to_vec = (\<lambda>f. if f = ?f then Some ''{}'' else None),
             from_slice = (\<lambda>b. if b = ''{}'' @ [newline] then Some ?f else None)\<rparr>"
  let ?r = "[Some ''{'', Some (''}'' @ [newline] @ ''{'')]"
  have "\<exists>r'. read_tagged_request_frame ?c ?r = (Inr (Some (7, ReqStat 3)), r') \<and>
      sound_reader r' \<and> reader_bytes r' = ''{''"
    by (rule request_frame_roundtrip [where frame = "''{}'' @ [newline]"])
      (simp_all add: codec_roundtrip_def codec_no_newline_def encode_tagged_request_frame_def
        encode_json_line_def MAX_WIRE_FRAME_BYTES_def)
  moreover have "encode_tagged_request_frame ?c 7 (ReqStat 3) = Inr (''{}'' @ [newline])"
    by (simp add: encode_tagged_request_frame_def encode_json_line_def)
  ultimately show ?thesis by fastforce
qed

text \<open>
  Reading a line is independent of how the transport chunks its input: for every reader that
  reports no I/O error, the outcome (a frame, a clean end, an oversized or a truncated frame) is
  that of the reference reader on the whole byte sequence.
\<close>

lemma read_json_line_chunking:
  assumes "sound_reader r"
  shows "fst (read_json_line r) = fst (read_line_spec (reader_bytes r))"
  using assms by (rule read_json_line_spec(1))

lemma read_json_line_chunking_instance:
  "sound_reader [Some ''ab'', Some ''c''] \<and>
   fst (read_json_line [Some ''ab'', Some ''c'']) = Inl WireTruncatedFrame"
proof -
  have "fst (read_json_line [Some ''ab'', Some ''c'']) = fst (read_line_spec ''abc'')"
    using read_json_line_chunking [of "[Some ''ab'', Some ''c'']"] by simp
  then show ?thesis
    by (simp add: read_line_spec_def line_span_def MAX_WIRE_FRAME_BYTES_def)
qed

end
