(* ===== verification/AP_Server.thy ===== *)
theory AP_Server
  imports AP_Wire
begin

text \<open>
  The file-server contract (\<open>crates/ap/src/server.rs\<close>): the trait as a record of operations,
  the in-process dispatch, the lock-step wire client, and the typed operations of an imported
  server including its chunked writes. An operation returns a \<open>poll\<close>: \<open>None\<close> while the future
  is parked, and the state of the server after the part that ran.
\<close>

section \<open>The trait and the in-process transport\<close>

record 's file_server =
  fs_walk :: "fid \<Rightarrow> fid \<Rightarrow> string list \<Rightarrow> 's \<Rightarrow> qid poll \<times> 's"
  fs_open :: "fid \<Rightarrow> open_mode \<Rightarrow> 's \<Rightarrow> qid poll \<times> 's"
  fs_read :: "fid \<Rightarrow> offset \<Rightarrow> u32 \<Rightarrow> 's \<Rightarrow> bytes poll \<times> 's"
  fs_write :: "fid \<Rightarrow> offset \<Rightarrow> bytes \<Rightarrow> 's \<Rightarrow> u32 poll \<times> 's"
  fs_stat :: "fid \<Rightarrow> 's \<Rightarrow> stat poll \<times> 's"
  fs_create :: "fid \<Rightarrow> fid \<Rightarrow> string \<Rightarrow> file_kind \<Rightarrow> 's \<Rightarrow> qid poll \<times> 's"
  fs_remove :: "fid \<Rightarrow> 's \<Rightarrow> unit poll \<times> 's"
  fs_clunk :: "fid \<Rightarrow> 's \<Rightarrow> unit poll \<times> 's"

definition map_ok :: "('a \<Rightarrow> 'b) \<Rightarrow> 'a poll \<times> 's \<Rightarrow> 'b poll \<times> 's" where
  "map_ok f p = (map_option (map_sum id f) (fst p), snd p)"

text \<open>Sequencing with the \<open>?\<close> operator across an await: an error or a parked call ends the operation
  there.\<close>

definition and_then :: "'a poll \<times> 's \<Rightarrow> ('a \<Rightarrow> 's \<Rightarrow> 'b poll \<times> 's) \<Rightarrow> 'b poll \<times> 's" where
  "and_then p f =
     (case fst p of
        None \<Rightarrow> (None, snd p)
      | Some (Inl e) \<Rightarrow> (Some (Err e), snd p)
      | Some (Inr x) \<Rightarrow> f x (snd p))"

lemma and_then_simps [simp]:
  "and_then (None, s) f = (None, s)" "and_then (Some (Inl e), s) f = (Some (Err e), s)"
  "and_then (Some (Inr x), s) f = f x s"
  by (simp_all add: and_then_def)

fun in_process_call :: "'s file_server \<Rightarrow> request \<Rightarrow> 's \<Rightarrow> response poll \<times> 's" where
  "in_process_call fs (ReqWalk fid newfid names) s = map_ok RespWalk (fs_walk fs fid newfid names s)"
| "in_process_call fs (ReqOpen fid mode) s = map_ok RespOpen (fs_open fs fid mode s)"
| "in_process_call fs (ReqRead fid offset count) s = map_ok RespRead (fs_read fs fid offset count s)"
| "in_process_call fs (ReqWrite fid offset data) s = map_ok RespWrite (fs_write fs fid offset data s)"
| "in_process_call fs (ReqStat fid) s = map_ok RespStat (fs_stat fs fid s)"
| "in_process_call fs (ReqCreate fid newfid name kind) s =
     map_ok RespCreate (fs_create fs fid newfid name kind s)"
| "in_process_call fs (ReqRemove fid) s = map_ok (\<lambda>_. RespRemove) (fs_remove fs fid s)"
| "in_process_call fs (ReqClunk fid) s = map_ok (\<lambda>_. RespClunk) (fs_clunk fs fid s)"

fun in_process_run :: "'s file_server \<Rightarrow> request list \<Rightarrow> 's \<Rightarrow> response poll list \<times> 's" where
  "in_process_run fs [] s = ([], s)"
| "in_process_run fs (req # reqs) s =
     (let (r, s') = in_process_call fs req s; (rs, s'') = in_process_run fs reqs s' in (r # rs, s''))"

lemma snd_in_process_run [simp]:
  "snd (in_process_run fs (req # reqs) s) = snd (in_process_run fs reqs (snd (in_process_call fs req s)))"
  by (simp add: case_prod_beta Let_def)

declare in_process_run.simps(2) [simp del]

lemma in_process_run_append:
  "snd (in_process_run fs (a @ b) s) = snd (in_process_run fs b (snd (in_process_run fs a s)))"
  by (induction a arbitrary: s) auto

section \<open>The fid discipline\<close>

text \<open>
  What the contract promises about fids, whichever server implements it: a walk or a create binds
  exactly the new fid and only when it succeeds, a bound fid and the root are never rebound, a
  clunk releases, and nothing else changes which fids are bound.
\<close>

definition is_ok :: "'a poll \<Rightarrow> bool" where
  "is_ok p \<longleftrightarrow> (case p of Some (Inr _) \<Rightarrow> True | _ \<Rightarrow> False)"

lemma is_ok_simps [simp]:
  "is_ok (Some (Inr x))" "\<not> is_ok (Some (Inl e))" "\<not> is_ok None"
  by (simp_all add: is_ok_def)

lemma is_ok_map_ok [simp]: "is_ok (fst (map_ok f p)) = is_ok (fst p)"
  by (auto simp: map_ok_def is_ok_def split: option.splits sum.splits)

lemma snd_map_ok [simp]: "snd (map_ok f p) = snd p"
  by (simp add: map_ok_def)

fun live_effect :: "request \<Rightarrow> bool \<Rightarrow> fid set \<Rightarrow> fid set" where
  "live_effect (ReqWalk fid newfid names) ok L = (if ok then insert newfid L else L)"
| "live_effect (ReqCreate fid newfid name kind) ok L = (if ok then insert newfid L else L)"
| "live_effect (ReqClunk fid) ok L = L - {fid}"
| "live_effect (ReqRemove fid) ok L = (if ok then L - {fid} else L)"
| "live_effect _ ok L = L"

fun binds_fid :: "request \<Rightarrow> fid option" where
  "binds_fid (ReqWalk fid newfid names) = Some newfid"
| "binds_fid (ReqCreate fid newfid name kind) = Some newfid"
| "binds_fid _ = None"

fun releases_fid :: "request \<Rightarrow> fid option" where
  "releases_fid (ReqClunk fid) = Some fid"
| "releases_fid (ReqRemove fid) = Some fid"
| "releases_fid _ = None"

locale fid_server =
  fixes fs :: "'s file_server" and live :: "'s \<Rightarrow> fid set"
  assumes walk_live: "live (snd (fs_walk fs f n ns s)) =
      (if is_ok (fst (fs_walk fs f n ns s)) then insert n (live s) else live s)"
    and create_live: "live (snd (fs_create fs f n nm k s)) =
      (if is_ok (fst (fs_create fs f n nm k s)) then insert n (live s) else live s)"
    and walk_fresh: "n = ROOT \<or> n \<in> live s \<Longrightarrow> \<not> is_ok (fst (fs_walk fs f n ns s))"
    and create_fresh: "n = ROOT \<or> n \<in> live s \<Longrightarrow> \<not> is_ok (fst (fs_create fs f n nm k s))"
    and open_live: "live (snd (fs_open fs f m s)) = live s"
    and read_live: "live (snd (fs_read fs f off c s)) = live s"
    and write_live: "live (snd (fs_write fs f off d s)) = live s"
    and stat_live: "live (snd (fs_stat fs f s)) = live s"
    and remove_live: "live (snd (fs_remove fs f s)) =
      (if is_ok (fst (fs_remove fs f s)) then live s - {f} else live s)"
    and clunk_live: "live (snd (fs_clunk fs f s)) = live s - {f}"
begin

lemmas fid_laws = walk_live create_live open_live read_live write_live stat_live remove_live clunk_live

lemma call_live:
  "live (snd (in_process_call fs req s)) =
     live_effect req (is_ok (fst (in_process_call fs req s))) (live s)"
  by (cases req) (simp_all add: fid_laws)

lemma call_root: "ROOT \<notin> live s \<Longrightarrow> ROOT \<notin> live (snd (in_process_call fs req s))"
  using walk_fresh create_fresh by (cases req) (auto simp: fid_laws)

lemma run_root: "ROOT \<notin> live s \<Longrightarrow> ROOT \<notin> live (snd (in_process_run fs reqs s))"
proof (induction reqs arbitrary: s)
  case (Cons req reqs)
  show ?case using Cons.IH [OF call_root [OF Cons.prems, of req]] by simp
qed simp

lemma call_bound:
  assumes "binds_fid req = Some n" "n = ROOT \<or> n \<in> live s"
  shows "\<not> is_ok (fst (in_process_call fs req s))" "live (snd (in_process_call fs req s)) = live s"
  using assms walk_fresh create_fresh by (cases req; auto simp: fid_laws)+

lemma run_bounds:
  "live (snd (in_process_run fs reqs s)) \<subseteq> live s \<union> {n. \<exists>req\<in>set reqs. binds_fid req = Some n}"
proof (induction reqs arbitrary: s)
  case (Cons req reqs)
  let ?s = "snd (in_process_call fs req s)"
  have "live ?s \<subseteq> live s \<union> {n. binds_fid req = Some n}"
    by (cases req) (auto simp: fid_laws)
  with Cons.IH [of ?s] show ?case by auto
qed simp

lemma run_keeps:
  assumes "f \<in> live s" "\<forall>req\<in>set reqs. releases_fid req \<noteq> Some f"
  shows "f \<in> live (snd (in_process_run fs reqs s))"
  using assms
proof (induction reqs arbitrary: s)
  case (Cons req reqs)
  have "f \<in> live (snd (in_process_call fs req s))"
    using Cons.prems by (cases req) (auto simp: fid_laws)
  with Cons show ?case by auto
qed simp

lemma session_live:
  assumes walk: "fst (fs_walk fs f n ns s) = Some (Ok q)"
    and body: "\<forall>req\<in>set reqs. binds_fid req = None \<and> releases_fid req = None"
  shows "n \<in> live (snd (in_process_run fs (ReqWalk f n ns # reqs) s))"
    "live (snd (in_process_run fs (ReqWalk f n ns # reqs @ [ReqClunk n]) s)) = live s"
proof -
  have fresh: "n \<notin> live s" using walk walk_fresh [of n s f ns] by auto
  have run: "live (snd (in_process_run fs reqs s')) = live s'" for s'
    using body
  proof (induction reqs arbitrary: s')
    case (Cons req reqs)
    have "live (snd (in_process_call fs req s')) = live s'"
      using Cons.prems by (cases req) (auto simp: fid_laws)
    with Cons show ?case by auto
  qed simp
  let ?s = "snd (fs_walk fs f n ns s)"
  have bound: "live ?s = insert n (live s)" using walk by (simp add: walk_live)
  show "n \<in> live (snd (in_process_run fs (ReqWalk f n ns # reqs) s))"
    using bound run [of ?s] by simp
  have "live (snd (in_process_run fs (ReqWalk f n ns # reqs @ [ReqClunk n]) s)) =
      live (snd (fs_clunk fs n (snd (in_process_run fs reqs ?s))))"
    by (simp add: in_process_run_append)
  then show "live (snd (in_process_run fs (ReqWalk f n ns # reqs @ [ReqClunk n]) s)) = live s"
    using bound run fresh by (simp add: clunk_live)
qed

end

section \<open>The lock-step wire client\<close>

text \<open>
  \<open>send\<close> writes one request frame and \<open>recv\<close> reads one response frame of the connection \<open>'w\<close>;
  each may fail or park, and a call dropped while parked leaves the client as it was there.
\<close>

record wire_client =
  wc_in_flight :: bool
  wc_next_tag :: wire_tag

definition wire_client_new :: wire_client where
  "wire_client_new = \<lparr>wc_in_flight = False, wc_next_tag = 1\<rparr>"

type_synonym 'w send_frame = "wire_tag \<Rightarrow> request \<Rightarrow> 'w \<Rightarrow> (wire_error + unit) option \<times> 'w"
type_synonym 'w recv_frame = "'w \<Rightarrow> (wire_error + (wire_tag \<times> response res) option) option \<times> 'w"

definition call_result_in_flight ::
  "'w send_frame \<Rightarrow> 'w recv_frame \<Rightarrow> request \<Rightarrow> wire_client \<times> 'w \<Rightarrow>
     (wire_error + response res) option \<times> wire_client \<times> 'w" where
  "call_result_in_flight send recv request = (\<lambda>(c, w).
     let tag = wc_next_tag c; c' = c\<lparr>wc_next_tag := max 1 (tag + 1)\<rparr> in
     case send tag request w of
       (None, w1) \<Rightarrow> (None, c', w1)
     | (Some (Inl e), w1) \<Rightarrow> (Some (Inl e), c', w1)
     | (Some (Inr _), w1) \<Rightarrow>
         (case recv w1 of
            (None, w2) \<Rightarrow> (None, c', w2)
          | (Some (Inl e), w2) \<Rightarrow> (Some (Inl e), c', w2)
          | (Some (Inr None), w2) \<Rightarrow> (Some (Inl WireClosed), c', w2)
          | (Some (Inr (Some (response_tag, result))), w2) \<Rightarrow>
              if response_tag \<noteq> tag then (Some (Inl WireUnsynchronized), c', w2)
              else (Some (Inr result), c', w2)))"

definition call_result ::
  "'w send_frame \<Rightarrow> 'w recv_frame \<Rightarrow> request \<Rightarrow> wire_client \<times> 'w \<Rightarrow>
     (wire_error + response res) option \<times> wire_client \<times> 'w" where
  "call_result send recv request = (\<lambda>(c, w).
     if wc_in_flight c then (Some (Inl WireUnsynchronized), c, w)
     else
       (case call_result_in_flight send recv request (c\<lparr>wc_in_flight := True\<rparr>, w) of
          (Some (Inr result), c', w') \<Rightarrow> (Some (Inr result), c'\<lparr>wc_in_flight := False\<rparr>, w')
        | other \<Rightarrow> other))"

definition wire_client_call ::
  "'w send_frame \<Rightarrow> 'w recv_frame \<Rightarrow> request \<Rightarrow> wire_client \<times> 'w \<Rightarrow>
     response poll \<times> wire_client \<times> 'w" where
  "wire_client_call send recv request cw =
     (case call_result send recv request cw of
        (None, cw') \<Rightarrow> (None, cw')
      | (Some (Inl e), cw') \<Rightarrow> (Some (Err (to_error_code e)), cw')
      | (Some (Inr result), cw') \<Rightarrow> (Some result, cw'))"

lemma call_result_not_ok:
  assumes "call_result send recv request (c, w) = (r, c', w')" "\<forall>result. r \<noteq> Some (Inr result)"
  shows "wc_in_flight c'"
  using assms
  by (auto simp: call_result_def call_result_in_flight_def Let_def
      split: prod.splits option.splits sum.splits if_splits)

lemma call_result_ok:
  assumes "call_result send recv request (c, w) = (Some (Inr result), c', w')"
  shows "\<not> wc_in_flight c" "\<not> wc_in_flight c'"
    "wc_next_tag c' = max 1 (wc_next_tag c + 1)"
    "\<exists>w1. send (wc_next_tag c) request w = (Some (Inr ()), w1) \<and>
       recv w1 = (Some (Inr (Some (wc_next_tag c, result))), w')"
  using assms
  by (auto simp: call_result_def call_result_in_flight_def Let_def
      split: prod.splits option.splits sum.splits if_splits)

lemma max_1_word_nonzero [simp]: "max 1 (t :: u64) \<noteq> 0"
  by (metis max.cobounded1 word_le_0_iff zero_neq_one)

section \<open>An imported server\<close>

text \<open>\<open>remote\<close> carries one request over the connection, as \<open>remote_call\<close> does.\<close>

definition MAX_WIRE_PAYLOAD_CHUNK_BYTES :: nat where
  "MAX_WIRE_PAYLOAD_CHUNK_BYTES = MAX_WIRE_FRAME_BYTES div 8"

type_synonym 's remote = "request \<Rightarrow> 's \<Rightarrow> response poll \<times> 's"

definition expect_response :: "(response \<Rightarrow> 'a option) \<Rightarrow> response poll \<times> 's \<Rightarrow> 'a poll \<times> 's" where
  "expect_response f p =
     (map_option (\<lambda>r. case r of
          Inl e \<Rightarrow> Err e
        | Inr resp \<Rightarrow> (case f resp of Some x \<Rightarrow> Ok x | None \<Rightarrow> Err BadRequest)) (fst p), snd p)"

definition imported_walk :: "'s remote \<Rightarrow> fid \<Rightarrow> fid \<Rightarrow> string list \<Rightarrow> 's \<Rightarrow> qid poll \<times> 's" where
  "imported_walk remote fid newfid names s =
     expect_response (\<lambda>r. case r of RespWalk qid \<Rightarrow> Some qid | _ \<Rightarrow> None)
       (remote (ReqWalk fid newfid names) s)"

definition imported_open :: "'s remote \<Rightarrow> fid \<Rightarrow> open_mode \<Rightarrow> 's \<Rightarrow> qid poll \<times> 's" where
  "imported_open remote fid mode s =
     expect_response (\<lambda>r. case r of RespOpen qid \<Rightarrow> Some qid | _ \<Rightarrow> None) (remote (ReqOpen fid mode) s)"

definition imported_read :: "'s remote \<Rightarrow> fid \<Rightarrow> offset \<Rightarrow> u32 \<Rightarrow> 's \<Rightarrow> bytes poll \<times> 's" where
  "imported_read remote fid offset count s =
     expect_response (\<lambda>r. case r of RespRead data \<Rightarrow> Some data | _ \<Rightarrow> None)
       (remote (ReqRead fid offset (min count (of_nat MAX_WIRE_PAYLOAD_CHUNK_BYTES))) s)"

definition accepted_count :: "nat \<Rightarrow> u32 res" where
  "accepted_count acc = (if acc < 2 ^ 32 then Ok (of_nat acc) else Err BadRequest)"

definition checked_add_u64 :: "u64 \<Rightarrow> nat \<Rightarrow> u64 option" where
  "checked_add_u64 a n = (if unat a + n < 2 ^ 64 then Some (a + of_nat n) else None)"

function chunks :: "nat \<Rightarrow> 'a list \<Rightarrow> 'a list list" where
  "chunks n xs = (if xs = [] \<or> n = 0 then [] else take n xs # chunks n (drop n xs))"
  by auto
termination by (relation "measure (\<lambda>(_, xs). length xs)") auto

declare chunks.simps [simp del]

fun imported_write_chunks ::
  "'s remote \<Rightarrow> fid \<Rightarrow> offset \<Rightarrow> nat \<Rightarrow> bytes list \<Rightarrow> 's \<Rightarrow> u32 poll \<times> 's" where
  "imported_write_chunks remote fid offset acc [] s = (Some (accepted_count acc), s)"
| "imported_write_chunks remote fid offset acc (chunk # rest) s =
     (case checked_add_u64 offset acc of
        None \<Rightarrow> (Some (Err BadRequest), s)
      | Some chunk_offset \<Rightarrow>
          (case remote (ReqWrite fid chunk_offset chunk) s of
             (None, s') \<Rightarrow> (None, s')
           | (Some (Inl e), s') \<Rightarrow>
               (Some (if 0 < acc then accepted_count acc else Err e), s')
           | (Some (Inr (RespWrite count)), s') \<Rightarrow>
               (let accepted = unat count in
                if length chunk < accepted then
                  (Some (if 0 < acc then accepted_count acc else Err BadRequest), s')
                else if 2 ^ 64 \<le> acc + accepted then (Some (Err BadRequest), s')
                else if accepted < length chunk then (Some (accepted_count (acc + accepted)), s')
                else imported_write_chunks remote fid offset (acc + accepted) rest s')
           | (Some (Inr _), s') \<Rightarrow>
               (Some (if 0 < acc then accepted_count acc else Err BadRequest), s')))"

definition imported_write :: "'s remote \<Rightarrow> fid \<Rightarrow> offset \<Rightarrow> bytes \<Rightarrow> 's \<Rightarrow> u32 poll \<times> 's" where
  "imported_write remote fid offset data s =
     (if data = [] then
        expect_response (\<lambda>r. case r of RespWrite count \<Rightarrow> Some count | _ \<Rightarrow> None)
          (remote (ReqWrite fid offset []) s)
      else imported_write_chunks remote fid offset 0 (chunks MAX_WIRE_PAYLOAD_CHUNK_BYTES data) s)"

definition imported_stat :: "'s remote \<Rightarrow> fid \<Rightarrow> 's \<Rightarrow> stat poll \<times> 's" where
  "imported_stat remote fid s =
     expect_response (\<lambda>r. case r of RespStat st \<Rightarrow> Some st | _ \<Rightarrow> None) (remote (ReqStat fid) s)"

definition imported_create ::
  "'s remote \<Rightarrow> fid \<Rightarrow> fid \<Rightarrow> string \<Rightarrow> file_kind \<Rightarrow> 's \<Rightarrow> qid poll \<times> 's" where
  "imported_create remote fid newfid name kind s =
     expect_response (\<lambda>r. case r of RespCreate qid \<Rightarrow> Some qid | _ \<Rightarrow> None)
       (remote (ReqCreate fid newfid name kind) s)"

definition imported_remove :: "'s remote \<Rightarrow> fid \<Rightarrow> 's \<Rightarrow> unit poll \<times> 's" where
  "imported_remove remote fid s =
     expect_response (\<lambda>r. case r of RespRemove \<Rightarrow> Some () | _ \<Rightarrow> None) (remote (ReqRemove fid) s)"

definition imported_clunk :: "'s remote \<Rightarrow> fid \<Rightarrow> 's \<Rightarrow> unit poll \<times> 's" where
  "imported_clunk remote fid s =
     expect_response (\<lambda>r. case r of RespClunk \<Rightarrow> Some () | _ \<Rightarrow> None) (remote (ReqClunk fid) s)"

definition imported_server :: "'s remote \<Rightarrow> 's file_server" where
  "imported_server remote =
     \<lparr>fs_walk = imported_walk remote, fs_open = imported_open remote,
      fs_read = imported_read remote, fs_write = imported_write remote,
      fs_stat = imported_stat remote, fs_create = imported_create remote,
      fs_remove = imported_remove remote, fs_clunk = imported_clunk remote\<rparr>"

lemmas imported_defs = imported_walk_def imported_open_def imported_read_def imported_stat_def
  imported_create_def imported_remove_def imported_clunk_def

lemma expect_map_ok:
  assumes "\<And>x. f (g x) = Some x"
  shows "expect_response f (map_ok g p) = p"
proof (cases p)
  case (Pair r s)
  then show ?thesis
    using assms by (cases r; cases "the r") (auto simp: expect_response_def map_ok_def)
qed

lemma concat_chunks [simp]: "0 < n \<Longrightarrow> concat (chunks n xs) = xs"
  by (induction n xs rule: chunks.induct) (subst chunks.simps, auto)

lemma chunks_bound: "c \<in> set (chunks n xs) \<Longrightarrow> 0 < length c \<and> length c \<le> n"
  by (induction n xs rule: chunks.induct) (subst (asm) (2) chunks.simps, auto split: if_splits)

lemma accepted_count_Ok: "accepted_count n = Ok k \<Longrightarrow> unat k = n"
  by (auto simp: accepted_count_def unat_of_nat split: if_splits)

lemma chunk_bytes_pos [simp]: "0 < MAX_WIRE_PAYLOAD_CHUNK_BYTES"
  by (simp add: MAX_WIRE_PAYLOAD_CHUNK_BYTES_def MAX_WIRE_FRAME_BYTES_def)

lemma imported_write_chunks_bounded:
  "imported_write_chunks remote fid offset acc cs s = (Some (Ok k), s') \<Longrightarrow>
     acc \<le> unat k \<and> unat k \<le> acc + length (concat cs)"
proof (induction cs arbitrary: acc s)
  case Nil
  then show ?case by (auto dest: accepted_count_Ok)
next
  case (Cons c cs)
  from Cons.prems show ?case
    by (auto simp: Let_def dest!: accepted_count_Ok
        dest: Cons.IH
        split: option.splits prod.splits sum.splits response.splits if_splits)
qed

lemma imported_write_chunks_whole:
  assumes step: "\<And>off d s. good s \<Longrightarrow> length d \<le> MAX_WIRE_PAYLOAD_CHUNK_BYTES \<Longrightarrow>
      fst (remote (ReqWrite fid off d) s) = Some (Ok (RespWrite (of_nat (length d)))) \<and>
      good (snd (remote (ReqWrite fid off d) s)) \<and>
      content (snd (remote (ReqWrite fid off d) s)) = write_at (unat off) d (content s)"
    and "good s" "\<forall>c\<in>set cs. length c \<le> MAX_WIRE_PAYLOAD_CHUNK_BYTES"
    and "unat offset + acc + length (concat cs) < 2 ^ 64" "acc + length (concat cs) < 2 ^ 32"
  shows "\<exists>s'. imported_write_chunks remote fid offset acc cs s =
      (Some (Ok (of_nat (acc + length (concat cs)))), s') \<and> good s' \<and>
      content s' = (if cs = [] then content s
                    else write_at (unat offset + acc) (concat cs) (content s))"
  using assms(2-)
proof (induction cs arbitrary: acc s)
  case Nil
  then show ?case by (auto simp: accepted_count_def)
next
  case (Cons c cs)
  let ?off = "offset + of_nat acc" and ?r = "remote (ReqWrite fid (offset + of_nat acc) c) s"
  have c: "length c \<le> MAX_WIRE_PAYLOAD_CHUNK_BYTES" using Cons.prems by simp
  have off: "checked_add_u64 offset acc = Some ?off" "unat ?off = unat offset + acc"
    using Cons.prems by (simp_all add: checked_add_u64_def unat_word_ariths unat_of_nat)
  have len: "unat (of_nat (length c) :: u32) = length c"
    using Cons.prems by (simp add: unat_of_nat)
  obtain s1 where r: "?r = (Some (Ok (RespWrite (of_nat (length c)))), s1)" and good: "good s1"
    and content: "content s1 = write_at (unat offset + acc) c (content s)"
    using step [OF \<open>good s\<close> c, of ?off] off by (metis prod.collapse)
  have go: "imported_write_chunks remote fid offset acc (c # cs) s =
      imported_write_chunks remote fid offset (acc + length c) cs s1"
    using r off len Cons.prems by simp
  show ?case
    unfolding go using Cons.IH [of s1 "acc + length c"] Cons.prems good content
    by (auto simp: add.assoc write_at_write_at [of "unat offset + acc" c, unfolded add.assoc])
qed

section \<open>Properties\<close>


text \<open>
  Whatever the remote side answers, a chunked write of non-empty data never reports more
  bytes than it was given.
\<close>

lemma imported_write_bounded:
  assumes "data \<noteq> []" "imported_write remote fid offset data s = (Some (Ok k), s')"
  shows "unat k \<le> length data"
  using assms imported_write_chunks_bounded [of remote fid offset 0 _ s k s']
  by (fastforce simp: imported_write_def)

lemma imported_write_bounded_instance:
  "\<exists>s'. imported_write (\<lambda>_ s. (Some (Ok (RespWrite 2)), s)) 1 0 ''abc'' () = (Some (Ok 2), s') \<and>
     unat (2 :: u32) \<le> length ''abc''"
proof -
  have ch: "chunks MAX_WIRE_PAYLOAD_CHUNK_BYTES ''abc'' = [''abc'']"
    by (simp add: chunks.simps MAX_WIRE_PAYLOAD_CHUNK_BYTES_def MAX_WIRE_FRAME_BYTES_def)
  have w: "imported_write (\<lambda>_ s. (Some (Ok (RespWrite 2)), s)) 1 0 ''abc'' () = (Some (Ok 2), ())"
    by (simp add: imported_write_def ch checked_add_u64_def accepted_count_def)
  show ?thesis using w imported_write_bounded [OF _ w] by simp
qed



text \<open>
  (C5) The lock-step client is fail-stop: after a call that did not return a response (a write or
  read error, a closed connection, a response with another tag, or a call dropped half-way), every
  later call is refused as unsynchronized and does not touch the connection.
\<close>

theorem wire_client_fail_stop:
  assumes "call_result send recv request (c, w) = (r, c', w')"
    and "\<forall>result. r \<noteq> Some (Inr result)"
  shows "call_result send2 recv2 request2 (c', w2) = (Some (Inl WireUnsynchronized), c', w2)"
  using call_result_not_ok [OF assms] by (simp add: call_result_def)

theorem wire_client_fail_stop_witness:
  "call_result (\<lambda>_ _ w. (Some (Inr ()), w)) (\<lambda>w. (Some (Inr (Some (1, Ok RespClunk))), w)) (ReqClunk 5)
     (wire_client_new\<lparr>wc_next_tag := 2, wc_in_flight := True\<rparr>, ()) =
   (Some (Inl WireUnsynchronized), wire_client_new\<lparr>wc_next_tag := 2, wc_in_flight := True\<rparr>, ())"
proof (rule wire_client_fail_stop)
  show "call_result (\<lambda>_ _ w. (Some (Inr ()), w)) (\<lambda>w. (Some (Inr None), w)) (ReqClunk 5)
      (wire_client_new, ()) =
    (Some (Inl WireClosed), wire_client_new\<lparr>wc_next_tag := 2, wc_in_flight := True\<rparr>, ())"
    by (simp add: call_result_def call_result_in_flight_def wire_client_new_def)
qed simp

text \<open>
  A call of the lock-step client returns only the response that the connection delivered with
  this call's own tag, which is never the untagged 0 as long as the client started at 1.
\<close>

lemma wire_client_own_response:
  assumes "call_result send recv request (c, w) = (Some (Inr result), c', w')" "wc_next_tag c \<noteq> 0"
  shows "wc_next_tag c' \<noteq> 0 \<and>
    (\<exists>w1. send (wc_next_tag c) request w = (Some (Inr ()), w1) \<and>
       recv w1 = (Some (Inr (Some (wc_next_tag c, result))), w'))"
  using call_result_ok [OF assms(1)] by auto

lemma wire_client_own_response_instance:
  "\<exists>send recv c c' result. call_result send recv (ReqClunk 5) (c, ()) = (Some (Inr result), c', ()) \<and>
     wc_next_tag c = 18446744073709551615 \<and> wc_next_tag c' \<noteq> 0"
proof -
  let ?c = "wire_client_new\<lparr>wc_next_tag := 18446744073709551615\<rparr>"
  have call: "call_result (\<lambda>_ _ w. (Some (Inr ()), w))
      (\<lambda>w. (Some (Inr (Some (18446744073709551615, Ok RespClunk))), w)) (ReqClunk 5) (?c, ()) =
    (Some (Inr (Ok RespClunk)), wire_client_new\<lparr>wc_next_tag := 1\<rparr>, ())"
    by (simp add: call_result_def call_result_in_flight_def wire_client_new_def)
  have "wc_next_tag (wire_client_new\<lparr>wc_next_tag := 1\<rparr>) \<noteq> 0"
    using wire_client_own_response [OF call] by simp
  with call show ?thesis by fastforce
qed

end
