(* ===== verification/AP_Connection.thy ===== *)
theory AP_Connection
  imports AP_Server "HOL-Library.Multiset"
begin

text \<open>
  The two concurrent ends of one aP connection (\<open>crates/ap/src/server.rs\<close>): the export loop that
  runs requests of a byte stream against a server, and the tag multiplexer of an imported server.
  Every lock-protected or otherwise atomic part of the code is one operation on the shared state;
  the step relations interleave them in any order, cancellation included.
\<close>

section \<open>Importing: one connection, many callers\<close>

text \<open>
  A caller of \<open>remote_call\<close> is between two of its atomic parts: it has checked that the connection
  is open, has registered its waiter, holds the writer, waits for its one-shot channel, or is done.
\<close>

datatype call_phase = Checked | Inserted | Writing | Awaiting | Returned "response res" | Cancelled

record imported_call =
  cl_tag :: wire_tag
  cl_request :: request
  cl_phase :: call_phase
  cl_slot :: "response res option"

record imported =
  im_pending :: "wire_tag \<rightharpoonup> nat"
  im_next_tag :: wire_tag
  im_closed :: bool
  im_drains :: nat
  im_writer :: "nat option"
  im_calls :: "imported_call list"
  im_received :: "(wire_tag \<times> response res) list"

definition imported_new :: imported where
  "imported_new = \<lparr>im_pending = Map.empty, im_next_tag = 1, im_closed = False, im_drains = 0,
     im_writer = None, im_calls = [], im_received = []\<rparr>"

definition set_call :: "nat \<Rightarrow> (imported_call \<Rightarrow> imported_call) \<Rightarrow> imported \<Rightarrow> imported" where
  "set_call i f s = s\<lparr>im_calls := (im_calls s)[i := f (im_calls s ! i)]\<rparr>"

text \<open>Removing a waiter from the table drops its sender, which a waiting receiver reads as an
  I/O error.\<close>

definition drop_waiter :: "wire_tag \<Rightarrow> imported \<Rightarrow> imported" where
  "drop_waiter tag s =
     (case im_pending s tag of
        None \<Rightarrow> s
      | Some j \<Rightarrow>
          (set_call j (\<lambda>c. c\<lparr>cl_slot := Some (Err Io)\<rparr>) s)\<lparr>im_pending := (im_pending s)(tag := None)\<rparr>)"

definition close_imported_connection :: "imported \<Rightarrow> imported" where
  "close_imported_connection s = s\<lparr>im_closed := True, im_drains := im_drains s + 1\<rparr>"

definition drain_pending :: "imported \<Rightarrow> imported" where
  "drain_pending s =
     s\<lparr>im_pending := Map.empty, im_drains := im_drains s - 1,
       im_calls := map (\<lambda>i. let c = im_calls s ! i in
           if im_pending s (cl_tag c) = Some i then c\<lparr>cl_slot := Some (Err Io)\<rparr> else c)
         [0..<length (im_calls s)]\<rparr>"

definition remote_call_enter :: "request \<Rightarrow> imported \<Rightarrow> imported" where
  "remote_call_enter request s =
     s\<lparr>im_calls := im_calls s @
         [\<lparr>cl_tag = 0, cl_request = request,
           cl_phase = (if im_closed s then Returned (Err Io) else Checked), cl_slot = None\<rparr>]\<rparr>"

definition remote_call_insert :: "nat \<Rightarrow> imported \<Rightarrow> imported" where
  "remote_call_insert i s =
     (let tag = im_next_tag s;
          s1 = drop_waiter tag (s\<lparr>im_next_tag := tag + 1\<rparr>);
          s2 = set_call i (\<lambda>c. c\<lparr>cl_tag := tag, cl_phase := Inserted\<rparr>) s1
      in s2\<lparr>im_pending := (im_pending s2)(tag \<mapsto> i)\<rparr>)"

definition remote_call_finish :: "nat \<Rightarrow> response res \<Rightarrow> imported \<Rightarrow> imported" where
  "remote_call_finish i r s =
     set_call i (\<lambda>c. c\<lparr>cl_phase := Returned r\<rparr>) (drop_waiter (cl_tag (im_calls s ! i)) s)"

definition remote_call_lock :: "nat \<Rightarrow> imported \<Rightarrow> imported" where
  "remote_call_lock i s =
     (if im_closed s then remote_call_finish i (Err (to_error_code WireClosed)) s
      else set_call i (\<lambda>c. c\<lparr>cl_phase := Writing\<rparr>) (s\<lparr>im_writer := Some i\<rparr>))"

definition remote_call_written :: "nat \<Rightarrow> wire_error + unit \<Rightarrow> imported \<Rightarrow> imported" where
  "remote_call_written i result s =
     (case result of
        Inr _ \<Rightarrow> set_call i (\<lambda>c. c\<lparr>cl_phase := Awaiting\<rparr>) (s\<lparr>im_writer := None\<rparr>)
      | Inl e \<Rightarrow>
          remote_call_finish i (Err (to_error_code e))
            ((close_imported_connection s)\<lparr>im_writer := None\<rparr>))"

definition remote_call_cancel :: "nat \<Rightarrow> imported \<Rightarrow> imported" where
  "remote_call_cancel i s =
     (let c = im_calls s ! i;
          s1 = (if cl_phase c = Writing then (close_imported_connection s)\<lparr>im_writer := None\<rparr> else s);
          s2 = (if cl_phase c = Checked then s1 else drop_waiter (cl_tag c) s1)
      in set_call i (\<lambda>c. c\<lparr>cl_phase := Cancelled\<rparr>) s2)"

definition route_imported_response :: "wire_tag \<Rightarrow> response res \<Rightarrow> imported \<Rightarrow> imported" where
  "route_imported_response tag result s =
     (let s1 = s\<lparr>im_received := im_received s @ [(tag, result)]\<rparr> in
      case im_pending s tag of
        None \<Rightarrow> s1
      | Some j \<Rightarrow>
          (set_call j (\<lambda>c. c\<lparr>cl_slot := Some result\<rparr>) s1)\<lparr>im_pending := (im_pending s)(tag := None)\<rparr>)"

definition in_phase :: "imported \<Rightarrow> nat \<Rightarrow> call_phase \<Rightarrow> bool" where
  "in_phase s i p \<longleftrightarrow> i < length (im_calls s) \<and> cl_phase (im_calls s ! i) = p"

definition call_running :: "call_phase \<Rightarrow> bool" where
  "call_running p \<longleftrightarrow> p = Inserted \<or> p = Writing \<or> p = Awaiting"

inductive imported_step :: "imported \<Rightarrow> imported \<Rightarrow> bool" where
  enter: "imported_step s (remote_call_enter request s)"
| insert: "in_phase s i Checked \<Longrightarrow> imported_step s (remote_call_insert i s)"
| lock: "in_phase s i Inserted \<Longrightarrow> im_writer s = None \<Longrightarrow> imported_step s (remote_call_lock i s)"
| written: "in_phase s i Writing \<Longrightarrow> imported_step s (remote_call_written i result s)"
| await: "in_phase s i Awaiting \<Longrightarrow> cl_slot (im_calls s ! i) = Some r \<Longrightarrow>
    imported_step s (remote_call_finish i r s)"
| cancel: "i < length (im_calls s) \<Longrightarrow> cl_phase (im_calls s ! i) = Checked \<or> call_running (cl_phase (im_calls s ! i)) \<Longrightarrow>
    imported_step s (remote_call_cancel i s)"
| route: "imported_step s (route_imported_response tag result s)"
| reader_end: "imported_step s (close_imported_connection s)"
| drain: "0 < im_drains s \<Longrightarrow> imported_step s (drain_pending s)"

definition imported_reachable :: "imported \<Rightarrow> bool" where
  "imported_reachable s \<longleftrightarrow> imported_step\<^sup>*\<^sup>* imported_new s"

text \<open>What holds at every moment: the table and the callers agree, nobody who could still be
  answered is missing from the table, and after a completed close only callers that have yet to
  re-check the connection are left in it.\<close>

definition answer_ok :: "imported \<Rightarrow> wire_tag \<Rightarrow> response res \<Rightarrow> bool" where
  "answer_ok s tag r \<longleftrightarrow> r = Err Io \<or> (tag, r) \<in> set (im_received s)"

definition call_ok :: "imported \<Rightarrow> nat \<Rightarrow> imported_call \<Rightarrow> bool" where
  "call_ok s i c \<longleftrightarrow>
     (call_running (cl_phase c) \<and> cl_slot c = None \<longrightarrow> im_pending s (cl_tag c) = Some i) \<and>
     (im_closed s \<and> im_drains s = 0 \<and> im_pending s (cl_tag c) = Some i \<longrightarrow> cl_phase c = Inserted) \<and>
     (\<forall>r. cl_slot c = Some r \<longrightarrow> answer_ok s (cl_tag c) r) \<and>
     (\<forall>r. cl_phase c = Returned r \<longrightarrow> r = Err BadRequest \<or> answer_ok s (cl_tag c) r) \<and>
     (cl_phase c = Checked \<longrightarrow> cl_slot c = None)"

definition waiter_ok :: "imported \<Rightarrow> wire_tag \<Rightarrow> nat \<Rightarrow> bool" where
  "waiter_ok s t i \<longleftrightarrow> i < length (im_calls s) \<and> cl_tag (im_calls s ! i) = t \<and>
     call_running (cl_phase (im_calls s ! i)) \<and> cl_slot (im_calls s ! i) = None"

definition imported_inv :: "imported \<Rightarrow> bool" where
  "imported_inv s \<longleftrightarrow>
     (\<forall>t i. im_pending s t = Some i \<longrightarrow> waiter_ok s t i) \<and>
     (\<forall>i<length (im_calls s). call_ok s i (im_calls s ! i))"

lemma set_call_simps [simp]:
  "im_pending (set_call i f s) = im_pending s" "im_next_tag (set_call i f s) = im_next_tag s"
  "im_closed (set_call i f s) = im_closed s" "im_drains (set_call i f s) = im_drains s"
  "im_writer (set_call i f s) = im_writer s" "im_received (set_call i f s) = im_received s"
  "im_calls (set_call i f s) = (im_calls s)[i := f (im_calls s ! i)]"
  by (simp_all add: set_call_def)

lemma call_running_simps [simp]:
  "call_running Inserted" "call_running Writing" "call_running Awaiting"
  "\<not> call_running Checked" "\<not> call_running (Returned r)" "\<not> call_running Cancelled"
  by (simp_all add: call_running_def)

lemma to_error_code_cases: "to_error_code e = Io \<or> to_error_code e = BadRequest"
  by (cases e) simp_all

lemma inv_waiter: "imported_inv s \<Longrightarrow> im_pending s t = Some i \<Longrightarrow> waiter_ok s t i"
  by (simp add: imported_inv_def)

lemma inv_call: "imported_inv s \<Longrightarrow> i < length (im_calls s) \<Longrightarrow> call_ok s i (im_calls s ! i)"
  by (simp add: imported_inv_def)

lemma call_ok_mono:
  assumes "call_ok s i c" "im_pending s' (cl_tag c) = Some i \<longleftrightarrow> im_pending s (cl_tag c) = Some i"
    and "im_closed s' \<and> im_drains s' = 0 \<Longrightarrow> im_closed s \<and> im_drains s = 0"
    and "set (im_received s) \<subseteq> set (im_received s')"
  shows "call_ok s' i c"
  using assms unfolding call_ok_def answer_ok_def by blast

text \<open>The one preservation argument all operations share: one caller changes, the table keeps its
  entries for the others.\<close>

lemma inv_update:
  assumes inv: "imported_inv s" and j: "im_calls s' = (im_calls s)[j := c]"
    and others: "\<And>i t. i \<noteq> j \<Longrightarrow> im_pending s' t = Some i \<longleftrightarrow> im_pending s t = Some i"
    and self: "\<And>t. im_pending s' t = Some j \<Longrightarrow>
      j < length (im_calls s) \<and> cl_tag c = t \<and> call_running (cl_phase c) \<and> cl_slot c = None"
    and c: "call_ok s' j c"
    and closed: "im_closed s' \<and> im_drains s' = 0 \<Longrightarrow> im_closed s \<and> im_drains s = 0"
    and received: "set (im_received s) \<subseteq> set (im_received s')"
  shows "imported_inv s'"
  unfolding imported_inv_def
proof (intro conjI allI impI)
  fix t i
  assume p: "im_pending s' t = Some i"
  show "waiter_ok s' t i"
  proof (cases "i = j")
    case True
    then show ?thesis using self p j by (auto simp: waiter_ok_def)
  next
    case False
    then have "waiter_ok s t i" using p others inv inv_waiter by blast
    then show ?thesis using False j by (simp add: waiter_ok_def)
  qed
next
  fix i
  assume i: "i < length (im_calls s')"
  show "call_ok s' i (im_calls s' ! i)"
  proof (cases "i = j")
    case True
    then show ?thesis using c j i by simp
  next
    case False
    then have "call_ok s i (im_calls s ! i)" using i j inv inv_call by simp
    then show ?thesis
      using call_ok_mono [of s i _ s'] False others closed received j by simp
  qed
qed

lemma drop_waiter_pending [simp]: "im_pending (drop_waiter t s) = (im_pending s)(t := None)"
  by (auto simp: drop_waiter_def split: option.splits)

lemma drop_waiter_simps [simp]:
  "im_closed (drop_waiter t s) = im_closed s" "im_drains (drop_waiter t s) = im_drains s"
  "im_received (drop_waiter t s) = im_received s" "im_writer (drop_waiter t s) = im_writer s"
  "im_next_tag (drop_waiter t s) = im_next_tag s"
  "length (im_calls (drop_waiter t s)) = length (im_calls s)"
  by (simp_all add: drop_waiter_def split: option.splits)

lemma drop_waiter_call [simp]:
  "cl_phase (im_calls (drop_waiter t s) ! i) = cl_phase (im_calls s ! i)"
  "cl_tag (im_calls (drop_waiter t s) ! i) = cl_tag (im_calls s ! i)"
proof -
  have upd: "cl_phase (xs[j := (xs ! j)\<lparr>cl_slot := v\<rparr>] ! i) = cl_phase (xs ! i) \<and>
      cl_tag (xs[j := (xs ! j)\<lparr>cl_slot := v\<rparr>] ! i) = cl_tag (xs ! i)" for xs :: "imported_call list" and j v
    by (cases "i = j"; cases "j < length xs") (simp_all add: list_update_beyond)
  show "cl_phase (im_calls (drop_waiter t s) ! i) = cl_phase (im_calls s ! i)"
    "cl_tag (im_calls (drop_waiter t s) ! i) = cl_tag (im_calls s ! i)"
    by (simp_all add: drop_waiter_def upd split: option.splits)
qed

lemma drop_waiter_slot:
  "im_pending s t \<noteq> Some i \<Longrightarrow> im_calls (drop_waiter t s) ! i = im_calls s ! i"
  by (auto simp: drop_waiter_def nth_list_update split: option.splits)

lemma inv_uniq: "imported_inv s \<Longrightarrow> im_pending s t = Some j \<Longrightarrow> im_pending s t' = Some j \<longleftrightarrow> t' = t"
  using inv_waiter [of s t j] inv_waiter [of s t' j] by (auto simp: waiter_ok_def)

lemma inv_env:
  assumes "imported_inv s" "im_calls s' = im_calls s" "im_pending s' = im_pending s"
    and "im_closed s' \<and> im_drains s' = 0 \<Longrightarrow> im_closed s \<and> im_drains s = 0"
    and "set (im_received s) \<subseteq> set (im_received s')"
  shows "imported_inv s'"
  unfolding imported_inv_def
proof (intro conjI allI impI)
  fix t i
  assume "im_pending s' t = Some i"
  with assms(3) have "waiter_ok s t i" using inv_waiter [OF assms(1)] by simp
  then show "waiter_ok s' t i" using assms(2) by (simp add: waiter_ok_def)
next
  fix i
  assume "i < length (im_calls s')"
  with assms(2) have "call_ok s i (im_calls s' ! i)" using inv_call [OF assms(1)] by simp
  then show "call_ok s' i (im_calls s' ! i)" by (rule call_ok_mono) (use assms in auto)
qed

lemma inv_answer:
  assumes inv: "imported_inv s" and t: "im_pending s t = Some j"
    and calls: "im_calls s' = (im_calls s)[j := (im_calls s ! j)\<lparr>cl_slot := Some r\<rparr>]"
    and pending: "im_pending s' = (im_pending s)(t := None)"
    and env: "im_closed s' = im_closed s" "im_drains s' = im_drains s"
      "set (im_received s) \<subseteq> set (im_received s')" "answer_ok s' t r"
  shows "imported_inv s'"
proof (rule inv_update [OF inv calls])
  have w: "waiter_ok s t j" using inv_waiter [OF inv t] .
  have "\<forall>r. cl_phase (im_calls s ! j) \<noteq> Returned r" "cl_phase (im_calls s ! j) \<noteq> Checked"
    using w by (auto simp: waiter_ok_def)
  then show "call_ok s' j ((im_calls s ! j)\<lparr>cl_slot := Some r\<rparr>)"
    using w env(4) pending by (simp add: call_ok_def waiter_ok_def)
  show "im_pending s' t' = Some i \<longleftrightarrow> im_pending s t' = Some i" if "i \<noteq> j" for i t'
    using that t pending by auto
  show "j < length (im_calls s) \<and> cl_tag ((im_calls s ! j)\<lparr>cl_slot := Some r\<rparr>) = t' \<and>
      call_running (cl_phase ((im_calls s ! j)\<lparr>cl_slot := Some r\<rparr>)) \<and>
      cl_slot ((im_calls s ! j)\<lparr>cl_slot := Some r\<rparr>) = None" if "im_pending s' t' = Some j" for t'
    using that pending inv_uniq [OF inv t] by (auto split: if_splits)
qed (use env in auto)

lemma inv_drop_waiter:
  assumes "imported_inv s"
  shows "imported_inv (drop_waiter t s)"
proof (cases "im_pending s t")
  case (Some j)
  show ?thesis
    by (rule inv_answer [OF assms Some, of _ "Err Io"]) (simp_all add: drop_waiter_def Some answer_ok_def)
qed (use assms in \<open>simp add: drop_waiter_def\<close>)

lemma inv_finished:
  assumes "imported_inv s" "i < length (im_calls s)" "\<forall>t. im_pending s t \<noteq> Some i"
    and "\<not> call_running p" "p \<noteq> Checked"
    and "\<And>r. p = Returned r \<Longrightarrow> r = Err BadRequest \<or> answer_ok s (cl_tag (im_calls s ! i)) r"
  shows "imported_inv (set_call i (\<lambda>c. c\<lparr>cl_phase := p\<rparr>) s)"
  by (rule inv_update [OF assms(1), of _ i "(im_calls s ! i)\<lparr>cl_phase := p\<rparr>"])
    (use assms(2-) inv_call [OF assms(1,2)] in \<open>auto simp: call_ok_def answer_ok_def\<close>)

lemma inv_running:
  assumes inv: "imported_inv s" and i: "i < length (im_calls s)"
    and run: "call_running (cl_phase (im_calls s ! i))" "call_running p"
    and closed: "im_closed s \<and> im_drains s = 0 \<Longrightarrow> cl_phase (im_calls s ! i) \<noteq> Inserted"
  shows "imported_inv (set_call i (\<lambda>c. c\<lparr>cl_phase := p\<rparr>) s)"
proof (rule inv_update [OF inv, of _ i "(im_calls s ! i)\<lparr>cl_phase := p\<rparr>"])
  fix t
  assume "im_pending (set_call i (\<lambda>c. c\<lparr>cl_phase := p\<rparr>) s) t = Some i"
  then have "waiter_ok s t i" using inv_waiter [OF inv] by simp
  with run show "i < length (im_calls s) \<and> cl_tag ((im_calls s ! i)\<lparr>cl_phase := p\<rparr>) = t \<and>
      call_running (cl_phase ((im_calls s ! i)\<lparr>cl_phase := p\<rparr>)) \<and>
      cl_slot ((im_calls s ! i)\<lparr>cl_phase := p\<rparr>) = None"
    by (simp add: waiter_ok_def)
next
  show "call_ok (set_call i (\<lambda>c. c\<lparr>cl_phase := p\<rparr>) s) i ((im_calls s ! i)\<lparr>cl_phase := p\<rparr>)"
    using inv_call [OF inv i] run closed by (auto simp: call_ok_def answer_ok_def)
qed simp_all

lemma inv_frame [simp]:
  "imported_inv (s\<lparr>im_writer := w\<rparr>) = imported_inv s"
  "imported_inv (s\<lparr>im_next_tag := t\<rparr>) = imported_inv s"
  by (simp_all add: imported_inv_def waiter_ok_def call_ok_def answer_ok_def)

lemma inv_close: "imported_inv s \<Longrightarrow> imported_inv (close_imported_connection s)"
  by (erule inv_env) (simp_all add: close_imported_connection_def)

lemma inv_drain:
  assumes "imported_inv s"
  shows "imported_inv (drain_pending s)"
  unfolding imported_inv_def
proof (intro conjI allI impI)
  fix i
  assume "i < length (im_calls (drain_pending s))"
  then have i: "i < length (im_calls s)" by (simp add: drain_pending_def)
  show "call_ok (drain_pending s) i (im_calls (drain_pending s) ! i)"
  proof (cases "im_pending s (cl_tag (im_calls s ! i)) = Some i")
    case True
    then have "waiter_ok s (cl_tag (im_calls s ! i)) i" using inv_waiter [OF assms] by blast
    then have "\<forall>r. cl_phase (im_calls s ! i) \<noteq> Returned r" "cl_phase (im_calls s ! i) \<noteq> Checked"
      by (auto simp: waiter_ok_def)
    with True i show ?thesis by (simp add: drain_pending_def call_ok_def answer_ok_def)
  next
    case False
    have "call_ok (drain_pending s) i (im_calls s ! i)"
      using inv_call [OF assms i] False unfolding call_ok_def answer_ok_def
      by (simp add: drain_pending_def)
    with False i show ?thesis by (simp add: drain_pending_def)
  qed
qed (simp add: drain_pending_def)

lemma inv_enter:
  assumes "imported_inv s"
  shows "imported_inv (remote_call_enter req s)"
  unfolding imported_inv_def
proof (intro conjI allI impI)
  fix t i
  assume "im_pending (remote_call_enter req s) t = Some i"
  then have "waiter_ok s t i" using inv_waiter [OF assms] by (simp add: remote_call_enter_def)
  then show "waiter_ok (remote_call_enter req s) t i"
    by (simp add: remote_call_enter_def waiter_ok_def nth_append)
next
  fix i
  assume i: "i < length (im_calls (remote_call_enter req s))"
  show "call_ok (remote_call_enter req s) i (im_calls (remote_call_enter req s) ! i)"
  proof (cases "i < length (im_calls s)")
    case True
    have "call_ok (remote_call_enter req s) i (im_calls s ! i)"
      using inv_call [OF assms True] by (rule call_ok_mono) (simp_all add: remote_call_enter_def)
    then show ?thesis using True by (simp add: remote_call_enter_def nth_append)
  next
    case False
    then have "i = length (im_calls s)" using i by (simp add: remote_call_enter_def)
    moreover have "im_pending s 0 \<noteq> Some (length (im_calls s))"
      using inv_waiter [OF assms, of 0 "length (im_calls s)"] by (auto simp: waiter_ok_def)
    ultimately show ?thesis by (simp add: remote_call_enter_def nth_append call_ok_def answer_ok_def)
  qed
qed

lemma inv_route:
  assumes "imported_inv s"
  shows "imported_inv (route_imported_response tag r s)"
proof (cases "im_pending s tag")
  case None
  show ?thesis
    by (rule inv_env [OF assms]) (auto simp: None route_imported_response_def)
next
  case (Some j)
  show ?thesis
    by (rule inv_answer [OF assms Some, of _ r])
      (auto simp: route_imported_response_def Some answer_ok_def)
qed

lemma inv_finish:
  assumes inv: "imported_inv s" and i: "i < length (im_calls s)"
    and r: "r = Err BadRequest \<or> answer_ok s (cl_tag (im_calls s ! i)) r"
  shows "imported_inv (remote_call_finish i r s)"
  unfolding remote_call_finish_def
proof (rule inv_finished)
  show "imported_inv (drop_waiter (cl_tag (im_calls s ! i)) s)" using inv by (rule inv_drop_waiter)
  have "im_pending s t = Some i \<Longrightarrow> t = cl_tag (im_calls s ! i)" for t
    using inv_waiter [OF inv] by (simp add: waiter_ok_def)
  then show "\<forall>t. im_pending (drop_waiter (cl_tag (im_calls s ! i)) s) t \<noteq> Some i" by auto
qed (use i r in \<open>simp_all add: answer_ok_def\<close>)

lemma inv_insert:
  assumes inv: "imported_inv s" and i: "in_phase s i Checked"
  shows "imported_inv (remote_call_insert i s)"
proof -
  let ?t = "im_next_tag s" and ?s = "drop_waiter (im_next_tag s) (s\<lparr>im_next_tag := im_next_tag s + 1\<rparr>)"
  have s: "imported_inv ?s" using inv by (simp add: inv_drop_waiter)
  have len: "i < length (im_calls ?s)" and phase: "cl_phase (im_calls ?s ! i) = Checked"
    using i by (simp_all add: in_phase_def)
  have free: "im_pending ?s t \<noteq> Some i" for t
  proof
    assume "im_pending ?s t = Some i"
    with s have "waiter_ok ?s t i" by (rule inv_waiter)
    with phase show False unfolding waiter_ok_def by (metis call_running_simps(4))
  qed
  have "call_ok ?s i (im_calls ?s ! i)" using s len by (rule inv_call)
  with phase have slot: "cl_slot (im_calls ?s ! i) = None" unfolding call_ok_def by blast
  define c where "c = (im_calls ?s ! i)\<lparr>cl_tag := ?t, cl_phase := Inserted\<rparr>"
  define s' where "s' = remote_call_insert i s"
  have s': "im_calls s' = (im_calls ?s)[i := c]" "im_pending s' = (im_pending ?s)(?t \<mapsto> i)"
    "im_closed s' = im_closed ?s" "im_drains s' = im_drains ?s" "im_received s' = im_received ?s"
    unfolding s'_def c_def remote_call_insert_def Let_def by simp_all
  have c: "cl_tag c = ?t" "cl_phase c = Inserted" "cl_slot c = None"
    using slot by (simp_all add: c_def)
  show ?thesis
    unfolding s'_def [symmetric]
  proof (rule inv_update [OF s s'(1)])
    show "im_pending s' t = Some j \<longleftrightarrow> im_pending ?s t = Some j" if "j \<noteq> i" for j t
      using that s'(2) by simp
    show "i < length (im_calls ?s) \<and> cl_tag c = t \<and> call_running (cl_phase c) \<and> cl_slot c = None"
      if "im_pending s' t = Some i" for t
      using that s'(2) free [of t] len c by (simp split: if_splits)
    show "call_ok s' i c" using c s'(2) by (simp add: call_ok_def)
  qed (use s' in simp_all)
qed

lemma inv_lock:
  assumes "imported_inv s" "in_phase s i Inserted"
  shows "imported_inv (remote_call_lock i s)"
proof (cases "im_closed s")
  case True
  then show ?thesis
    using assms by (auto simp: remote_call_lock_def in_phase_def answer_ok_def intro: inv_finish)
next
  case False
  then show ?thesis
    using assms inv_running [of "s\<lparr>im_writer := Some i\<rparr>" i Writing]
    by (simp add: remote_call_lock_def in_phase_def)
qed

lemma inv_written:
  assumes "imported_inv s" "in_phase s i Writing"
  shows "imported_inv (remote_call_written i result s)"
proof (cases result)
  case (Inl e)
  let ?s = "(close_imported_connection s)\<lparr>im_writer := None\<rparr>"
  have "imported_inv ?s" using assms by (simp add: inv_close)
  moreover have "im_calls ?s = im_calls s" by (simp add: close_imported_connection_def)
  ultimately show ?thesis
    using assms to_error_code_cases [of e]
    by (auto simp: Inl remote_call_written_def in_phase_def answer_ok_def intro!: inv_finish)
next
  case (Inr u)
  then show ?thesis
    using assms inv_running [of "s\<lparr>im_writer := None\<rparr>" i Awaiting]
    by (simp add: remote_call_written_def in_phase_def)
qed

lemma inv_cancel:
  assumes inv: "imported_inv s" and i: "i < length (im_calls s)"
  shows "imported_inv (remote_call_cancel i s)"
proof -
  let ?c = "im_calls s ! i"
  let ?s = "if cl_phase ?c = Writing then (close_imported_connection s)\<lparr>im_writer := None\<rparr> else s"
  have s: "imported_inv ?s" using inv by (simp add: inv_close)
  have calls: "im_calls ?s = im_calls s" "im_pending ?s = im_pending s"
    by (simp_all add: close_imported_connection_def)
  have tag: "t = cl_tag ?c \<and> cl_phase ?c \<noteq> Checked" if "im_pending s t = Some i" for t
    using inv_waiter [OF inv that] by (auto simp: waiter_ok_def)
  let ?s2 = "if cl_phase ?c = Checked then ?s else drop_waiter (cl_tag ?c) ?s"
  have "imported_inv ?s2" using s inv by (simp add: inv_drop_waiter)
  moreover have "im_pending ?s2 t \<noteq> Some i" for t using tag calls by auto
  moreover have "i < length (im_calls ?s2)" using i calls by simp
  ultimately show ?thesis
    unfolding remote_call_cancel_def Let_def by (intro inv_finished) auto
qed

lemma imported_step_inv: "imported_step s s' \<Longrightarrow> imported_inv s \<Longrightarrow> imported_inv s'"
proof (induction rule: imported_step.induct)
  case (await s i r)
  then have "call_ok s i (im_calls s ! i)" by (simp add: in_phase_def inv_call)
  with await show ?case by (intro inv_finish) (simp_all add: in_phase_def call_ok_def)
qed (simp_all add: inv_enter inv_insert inv_lock inv_written inv_cancel inv_route inv_close inv_drain)

lemma imported_reachable_inv: "imported_reachable s \<Longrightarrow> imported_inv s"
  unfolding imported_reachable_def
proof (induction rule: rtranclp_induct)
  case base
  then show ?case by (simp add: imported_inv_def imported_new_def)
qed (rule imported_step_inv)

lemma imported_reachable_step:
  "imported_reachable s \<Longrightarrow> imported_step s s' \<Longrightarrow> imported_reachable s'"
  unfolding imported_reachable_def by simp

lemma imported_reachable_new [simp]: "imported_reachable imported_new"
  by (simp add: imported_reachable_def)

lemma imported_no_leak:
  assumes "imported_reachable s"
    and "\<forall>c\<in>set (im_calls s). \<not> call_running (cl_phase c)"
  shows "im_pending s = Map.empty"
proof
  fix t
  show "im_pending s t = None"
  proof (cases "im_pending s t")
    case (Some i)
    then have "waiter_ok s t i" using assms(1) by (simp add: imported_reachable_inv inv_waiter)
    then show ?thesis using assms(2) by (auto simp: waiter_ok_def)
  qed
qed

text \<open>A caller that has sent its frame, with the connection then closed and drained.\<close>

definition awaiting_example :: imported where
  "awaiting_example =
     remote_call_written 0 (Inr ()) (remote_call_lock 0 (remote_call_insert 0
       (remote_call_enter (ReqStat 4) imported_new)))"

lemma awaiting_example_eq:
  "awaiting_example = \<lparr>im_pending = [1 \<mapsto> 0], im_next_tag = 2, im_closed = False, im_drains = 0,
     im_writer = None, im_calls = [\<lparr>cl_tag = 1, cl_request = ReqStat 4, cl_phase = Awaiting, cl_slot = None\<rparr>],
     im_received = []\<rparr>"
  by (simp add: awaiting_example_def remote_call_written_def remote_call_lock_def remote_call_insert_def
      remote_call_enter_def imported_new_def drop_waiter_def set_call_def Let_def)

lemma awaiting_example_reachable: "imported_reachable awaiting_example"
proof -
  let ?s1 = "remote_call_enter (ReqStat 4) imported_new"
  let ?s2 = "remote_call_insert 0 ?s1"
  let ?s3 = "remote_call_lock 0 ?s2"
  note defs = in_phase_def remote_call_enter_def remote_call_insert_def remote_call_lock_def
    imported_new_def drop_waiter_def set_call_def Let_def
  have "imported_reachable ?s1" by (rule imported_reachable_step [OF _ enter]) simp
  then have "imported_reachable ?s2"
    by (rule imported_reachable_step) (rule insert, simp add: defs)
  then have "imported_reachable ?s3"
    by (rule imported_reachable_step) (rule lock; simp add: defs)
  then show ?thesis
    unfolding awaiting_example_def
    by (rule imported_reachable_step) (rule written, simp add: defs)
qed

text \<open>
  (C6) Under every interleaving of callers, cancellations, incoming frames and closes, a caller of
  an imported server returns either a transport error or a response that arrived with the caller's
  own tag: responses are never handed to another caller.
\<close>

theorem imported_answers_own_tag:
  assumes "imported_reachable s" "in_phase s i (Returned r)"
  shows "r = Err Io \<or> r = Err BadRequest \<or> (cl_tag (im_calls s ! i), r) \<in> set (im_received s)"
proof -
  have "call_ok s i (im_calls s ! i)"
    using assms by (simp add: imported_reachable_inv inv_call in_phase_def)
  then have "r = Err BadRequest \<or> answer_ok s (cl_tag (im_calls s ! i)) r"
    using assms(2) unfolding call_ok_def in_phase_def by blast
  then show ?thesis by (auto simp: answer_ok_def)
qed

theorem imported_answers_own_tag_witness:
  "\<exists>s r. imported_reachable s \<and> in_phase s 0 (Returned r) \<and> r = Ok RespClunk \<and>
     (cl_tag (im_calls s ! 0), r) \<in> set (im_received s)"
proof -
  let ?s1 = "route_imported_response 1 (Ok RespClunk) awaiting_example"
  let ?s2 = "remote_call_finish 0 (Ok RespClunk) ?s1"
  note defs = awaiting_example_eq in_phase_def route_imported_response_def remote_call_finish_def
    drop_waiter_def set_call_def Let_def
  have r1: "imported_reachable ?s1"
    by (rule imported_reachable_step [OF awaiting_example_reachable route])
  have r2: "imported_reachable ?s2"
    by (rule imported_reachable_step [OF r1]) (rule await; simp add: defs)
  have "in_phase ?s2 0 (Returned (Ok RespClunk))" by (simp add: defs)
  with r2 imported_answers_own_tag [OF r2 this] show ?thesis by blast
qed

text \<open>
  (C7) No caller is stranded by a close: once the connection is closed and the close has drained the
  table, every caller still waiting for a response has one in its channel and can return. This
  covers the races between registering a waiter, the second check under the writer lock, a write
  dropped half-way, and the two halves of the close itself.
\<close>

theorem imported_close_wakes_all:
  assumes "imported_reachable s" "im_closed s" "im_drains s = 0" "in_phase s i Awaiting"
  shows "\<exists>r. cl_slot (im_calls s ! i) = Some r \<and> imported_step s (remote_call_finish i r s)"
proof -
  have ok: "call_ok s i (im_calls s ! i)"
    using assms by (simp add: imported_reachable_inv inv_call in_phase_def)
  have phase: "cl_phase (im_calls s ! i) = Awaiting" using assms by (simp add: in_phase_def)
  have "im_pending s (cl_tag (im_calls s ! i)) \<noteq> Some i"
    using ok phase assms unfolding call_ok_def by auto
  then have "cl_slot (im_calls s ! i) \<noteq> None"
    using ok phase unfolding call_ok_def by auto
  then show ?thesis using await [OF assms(4)] by auto
qed

theorem imported_close_wakes_all_witness:
  "\<exists>s r. imported_reachable s \<and> im_closed s \<and> in_phase s 0 Awaiting \<and>
     cl_slot (im_calls s ! 0) = Some r \<and> imported_step s (remote_call_finish 0 r s)"
proof -
  let ?s1 = "close_imported_connection awaiting_example"
  let ?s2 = "drain_pending ?s1"
  note defs = awaiting_example_eq close_imported_connection_def drain_pending_def in_phase_def Let_def
  have "imported_reachable ?s1"
    by (rule imported_reachable_step [OF awaiting_example_reachable reader_end])
  then have r: "imported_reachable ?s2"
    by (rule imported_reachable_step) (rule drain, simp add: defs)
  have s: "im_closed ?s2" "im_drains ?s2 = 0" "in_phase ?s2 0 Awaiting" by (simp_all add: defs)
  show ?thesis using imported_close_wakes_all [OF r s] r s by blast
qed

section \<open>Exporting: one server, many requests in flight\<close>

text \<open>
  The future of one dispatched request is abstract: \<open>start\<close> builds it, \<open>poll\<close> runs it to its next
  suspension point against the server state. The loop alternates between the request channel (of
  capacity 32, filled by the reader task) and the finished calls.
\<close>

datatype 'k polled = Pending 'k | Ready "response res" | Panicked

record ('k, 's) export_state =
  ex_input :: "(wire_error + (wire_tag \<times> request) option) list"
  ex_reader_done :: bool
  ex_channel :: "(wire_error + wire_tag \<times> request) list"
  ex_server :: 's
  ex_calls :: "((wire_tag \<times> request) \<times> 'k polled) list"
  ex_written :: "((wire_tag \<times> request) \<times> response res) list"
  ex_result :: "(wire_error + unit) option"
  ex_read :: "(wire_tag \<times> request) list"
  ex_dispatched :: "(wire_tag \<times> request) list"

definition export_new :: "(wire_error + (wire_tag \<times> request) option) list \<Rightarrow> 's \<Rightarrow> ('k, 's) export_state" where
  "export_new input server = \<lparr>ex_input = input, ex_reader_done = False, ex_channel = [],
     ex_server = server, ex_calls = [], ex_written = [], ex_result = None, ex_read = [],
     ex_dispatched = []\<rparr>"

definition read_export_request :: "('k, 's) export_state \<Rightarrow> ('k, 's) export_state" where
  "read_export_request s =
     (case ex_input s of
        [] \<Rightarrow> s\<lparr>ex_reader_done := True\<rparr>
      | Inr None # rest \<Rightarrow> s\<lparr>ex_input := rest, ex_reader_done := True\<rparr>
      | Inl e # rest \<Rightarrow>
          s\<lparr>ex_input := rest, ex_reader_done := True, ex_channel := ex_channel s @ [Inl e]\<rparr>
      | Inr (Some p) # rest \<Rightarrow>
          s\<lparr>ex_input := rest, ex_channel := ex_channel s @ [Inr p], ex_read := ex_read s @ [p]\<rparr>)"

type_synonym ('k, 's) poll_call = "'k \<Rightarrow> 's \<Rightarrow> 'k polled \<times> 's"

definition export_receive ::
  "(request \<Rightarrow> 'k) \<Rightarrow> ('k, 's) poll_call \<Rightarrow> ('k, 's) export_state \<Rightarrow> ('k, 's) export_state" where
  "export_receive start poll s =
     (case ex_channel s of
        [] \<Rightarrow> if ex_reader_done s then s\<lparr>ex_result := Some (Inr ())\<rparr> else s
      | Inl e # rest \<Rightarrow> s\<lparr>ex_channel := rest, ex_result := Some (Inl e)\<rparr>
      | Inr (tag, request) # rest \<Rightarrow>
          (case poll (start request) (ex_server s) of
             (Panicked, server) \<Rightarrow>
               s\<lparr>ex_channel := rest, ex_server := server, ex_result := Some (Inl WireIo),
                 ex_dispatched := ex_dispatched s @ [(tag, request)]\<rparr>
           | (call, server) \<Rightarrow>
               s\<lparr>ex_channel := rest, ex_server := server,
                 ex_calls := ex_calls s @ [((tag, request), call)],
                 ex_dispatched := ex_dispatched s @ [(tag, request)]\<rparr>))"

definition export_resume :: "('k, 's) poll_call \<Rightarrow> nat \<Rightarrow> ('k, 's) export_state \<Rightarrow> ('k, 's) export_state" where
  "export_resume poll i s =
     (case snd (ex_calls s ! i) of
        Pending k \<Rightarrow>
          (let (call, server) = poll k (ex_server s) in
           s\<lparr>ex_server := server, ex_calls := (ex_calls s)[i := (fst (ex_calls s ! i), call)]\<rparr>)
      | _ \<Rightarrow> s)"

definition export_join :: "wire_error option \<Rightarrow> nat \<Rightarrow> ('k, 's) export_state \<Rightarrow> ('k, 's) export_state" where
  "export_join write_error i s =
     (let s' = s\<lparr>ex_calls := take i (ex_calls s) @ drop (Suc i) (ex_calls s)\<rparr> in
      case snd (ex_calls s ! i) of
        Ready result \<Rightarrow>
          (case write_error of
             None \<Rightarrow> s'\<lparr>ex_written := ex_written s @ [(fst (ex_calls s ! i), result)]\<rparr>
           | Some e \<Rightarrow> s'\<lparr>ex_result := Some (Inl e)\<rparr>)
      | Panicked \<Rightarrow> s'\<lparr>ex_result := Some (Inl WireIo)\<rparr>
      | Pending _ \<Rightarrow> s)"

inductive export_step ::
  "(request \<Rightarrow> 'k) \<Rightarrow> ('k, 's) poll_call \<Rightarrow> ('k, 's) export_state \<Rightarrow> ('k, 's) export_state \<Rightarrow> bool"
  for start :: "request \<Rightarrow> 'k" and poll :: "('k, 's) poll_call" where
  reader: "ex_result s = None \<Longrightarrow> \<not> ex_reader_done s \<Longrightarrow> length (ex_channel s) < 32 \<Longrightarrow>
    export_step start poll s (read_export_request s)"
| receive: "ex_result s = None \<Longrightarrow> export_step start poll s (export_receive start poll s)"
| resume: "ex_result s = None \<Longrightarrow> i < length (ex_calls s) \<Longrightarrow>
    export_step start poll s (export_resume poll i s)"
| join: "ex_result s = None \<Longrightarrow> i < length (ex_calls s) \<Longrightarrow>
    export_step start poll s (export_join write_error i s)"

fun channel_requests :: "(wire_error + 'a) list \<Rightarrow> 'a list" where
  "channel_requests [] = []"
| "channel_requests (Inr p # rest) = p # channel_requests rest"
| "channel_requests (Inl e # rest) = channel_requests rest"

lemma channel_requests_append [simp]:
  "channel_requests (a @ b) = channel_requests a @ channel_requests b"
  by (induction a rule: channel_requests.induct) auto

definition export_inv :: "('k, 's) export_state \<Rightarrow> bool" where
  "export_inv s \<longleftrightarrow>
     ex_dispatched s @ channel_requests (ex_channel s) = ex_read s \<and>
     length (ex_channel s) \<le> 32 \<and>
     (ex_result s = None \<longrightarrow>
        mset (map fst (ex_calls s)) + mset (map fst (ex_written s)) = mset (ex_dispatched s)) \<and>
     mset (map fst (ex_calls s)) + mset (map fst (ex_written s)) \<subseteq># mset (ex_dispatched s)"

lemma mset_remove_nth:
  "i < length xs \<Longrightarrow> mset xs = add_mset (xs ! i) (mset (take i xs @ drop (Suc i) xs))"
  by (metis add_mset_add_single append_take_drop_id Cons_nth_drop_Suc mset.simps(2) mset_append
      union_mset_add_mset_right)

lemma mset_fst_update [simp]:
  "image_mset fst (mset (xs[i := (fst (xs ! i), c)])) = image_mset fst (mset xs)"
  by (metis fst_conv list_update_id map_update mset_map)

lemma export_receive_inv:
  assumes "export_inv s" "ex_result s = None"
  shows "export_inv (export_receive start poll s)"
proof (cases "ex_channel s")
  case Nil
  then show ?thesis using assms by (auto simp: export_inv_def export_receive_def)
next
  case (Cons m rest)
  then show ?thesis
  proof (cases m)
    case (Inl e)
    then show ?thesis using assms Cons by (simp add: export_inv_def export_receive_def)
  next
    case (Inr p)
    obtain call server where poll: "poll (start (snd p)) (ex_server s) = (call, server)" by fastforce
    then show ?thesis
      using assms Cons Inr
      by (cases p; cases call) (simp_all add: export_inv_def export_receive_def)
  qed
qed

lemma export_step_inv:
  assumes "export_step start poll s s'" "export_inv s"
  shows "export_inv s'"
  using assms
proof (induction rule: export_step.induct)
  case (reader s)
  then show ?case
    by (simp add: export_inv_def read_export_request_def split: list.splits sum.splits option.splits)
next
  case (receive s)
  then show ?case by (simp add: export_receive_inv)
next
  case (resume s i)
  then show ?case
    by (simp add: export_inv_def export_resume_def Let_def split: polled.splits prod.splits)
next
  case (join s i e)
  let ?R = "mset (map fst (take i (ex_calls s) @ drop (Suc i) (ex_calls s)))"
  let ?W = "mset (map fst (ex_written s))"
  have "mset (map fst (ex_calls s)) = add_mset (fst (ex_calls s ! i)) ?R"
    using mset_remove_nth [OF join(2)] by (metis image_mset_add_mset mset_map)
  then have D: "mset (ex_dispatched s) = add_mset (fst (ex_calls s ! i)) (?R + ?W)"
    using join by (simp add: export_inv_def)
  have sub: "?R + ?W \<subseteq># mset (ex_dispatched s)" unfolding D by simp
  have chan: "ex_dispatched s @ channel_requests (ex_channel s) = ex_read s" "length (ex_channel s) \<le> 32"
    using join by (simp_all add: export_inv_def)
  show ?case
  proof (cases "snd (ex_calls s ! i)")
    case (Pending k)
    then show ?thesis using join by (simp add: export_join_def)
  next
    case (Ready r)
    then show ?thesis
      using chan sub D join(1) by (cases e) (simp_all add: export_inv_def export_join_def)
  next
    case Panicked
    then show ?thesis using chan sub by (simp add: export_inv_def export_join_def)
  qed
qed

definition export_reachable ::
  "(request \<Rightarrow> 'k) \<Rightarrow> ('k, 's) poll_call \<Rightarrow> ('k, 's) export_state \<Rightarrow> ('k, 's) export_state \<Rightarrow> bool" where
  "export_reachable start poll s0 s \<longleftrightarrow> (export_step start poll)\<^sup>*\<^sup>* s0 s"

lemma export_reachable_inv:
  "export_reachable start poll (export_new input server) s \<Longrightarrow> export_inv s"
  unfolding export_reachable_def
proof (induction rule: rtranclp_induct)
  case base
  then show ?case by (simp add: export_inv_def export_new_def)
qed (rule export_step_inv)



end
