(* ===== verification/Kernel_Namespace.thy ===== *)
theory Kernel_Namespace
  imports AP_Server
begin

text \<open>
  The per-process mount table (\<open>crates/kernel/src/namespace.rs\<close>): mounting, binding and
  longest-prefix resolution, the access filter every resolved operation passes, and the two ways a
  child namespace is built (restriction to requested mounts, projection of declared mounts). The
  type \<open>'t\<close> of a mounted tree is abstract: it is the transport a mount holds, and \<open>tree_call\<close> is
  what carries a request to it.
\<close>

section \<open>Access\<close>

datatype access = ReadOnly | ReadWrite

fun access_allows :: "access \<Rightarrow> open_mode \<Rightarrow> bool" where
  "access_allows ReadWrite _ = True"
| "access_allows ReadOnly OpenRead = True"
| "access_allows ReadOnly _ = False"

fun satisfies_access :: "access \<Rightarrow> access \<Rightarrow> bool" where
  "satisfies_access ReadWrite _ = True"
| "satisfies_access ReadOnly ReadOnly = True"
| "satisfies_access ReadOnly ReadWrite = False"

fun restrict_access :: "access \<Rightarrow> access \<Rightarrow> access" where
  "restrict_access ReadWrite ReadWrite = ReadWrite"
| "restrict_access _ _ = ReadOnly"

fun is_stricter_access :: "access \<Rightarrow> access \<Rightarrow> bool" where
  "is_stricter_access ReadOnly ReadWrite = True"
| "is_stricter_access _ _ = False"

text \<open>Access values are ordered by what they permit.\<close>

instantiation access :: linorder
begin

definition less_eq_access :: "access \<Rightarrow> access \<Rightarrow> bool" where
  "a \<le> b \<longleftrightarrow> satisfies_access b a"

definition less_access :: "access \<Rightarrow> access \<Rightarrow> bool" where
  "a < b \<longleftrightarrow> satisfies_access b a \<and> \<not> satisfies_access a b"

instance
proof
  fix x y z :: access
  show "x < y \<longleftrightarrow> x \<le> y \<and> \<not> y \<le> x" by (simp add: less_eq_access_def less_access_def)
  show "x \<le> x" by (cases x) (simp_all add: less_eq_access_def)
  show "x \<le> z" if "x \<le> y" "y \<le> z"
    using that by (cases x; cases y; cases z) (simp_all add: less_eq_access_def)
  show "x = y" if "x \<le> y" "y \<le> x"
    using that by (cases x; cases y) (simp_all add: less_eq_access_def)
  show "x \<le> y \<or> y \<le> x" by (cases x; cases y) (simp_all add: less_eq_access_def)
qed

end

lemma restrict_access_le [simp]: "restrict_access a b \<le> a" "restrict_access a b \<le> b"
  by (cases a; cases b; simp add: less_eq_access_def)+

lemma satisfies_access_le: "satisfies_access granted requested \<longleftrightarrow> requested \<le> granted"
  by (simp add: less_eq_access_def)

lemma access_allows_mono: "a \<le> b \<Longrightarrow> access_allows a m \<Longrightarrow> access_allows b m"
  by (cases a; cases b; cases m) (simp_all add: less_eq_access_def)

section \<open>Resolved trees\<close>

datatype 't resolved = Resolved (res_tree: 't) (res_rel: "string list") (res_access: access)

fun is_mutating :: "request \<Rightarrow> bool" where
  "is_mutating (ReqWrite _ _ _) = True"
| "is_mutating (ReqCreate _ _ _ _) = True"
| "is_mutating (ReqRemove _) = True"
| "is_mutating (ReqOpen _ OpenWrite) = True"
| "is_mutating (ReqOpen _ OpenReadWrite) = True"
| "is_mutating _ = False"

type_synonym ('t, 'w) tree_call = "'t \<Rightarrow> request \<Rightarrow> 'w \<Rightarrow> response poll \<times> 'w"

definition mask_writable :: "response \<Rightarrow> response" where
  "mask_writable response =
     (case response of RespStat st \<Rightarrow> RespStat (st\<lparr>stat_writable := False\<rparr>) | _ \<Rightarrow> response)"

definition resolved_call ::
  "('t, 'w) tree_call \<Rightarrow> 't resolved \<Rightarrow> request \<Rightarrow> 'w \<Rightarrow> response poll \<times> 'w" where
  "resolved_call tree_call r request w =
     (if res_access r = ReadOnly \<and> is_mutating request then (Some (Err NoAccess), w)
      else
        (case tree_call (res_tree r) request w of
           (Some (Inr response), w') \<Rightarrow>
             (Some (Ok (if res_access r = ReadOnly then mask_writable response else response)), w')
         | other \<Rightarrow> other))"

section \<open>The mount table\<close>

datatype 't mount = Mount (mount_prefix: "string list") (mount_tree: 't) (mount_access: access)

datatype 't namespace = Namespace (ns_mounts: "'t mount list")

definition namespace_new :: "'t namespace" where
  "namespace_new = Namespace []"

definition split_path :: "string \<Rightarrow> string list" where
  "split_path path = filter (\<lambda>s. s \<noteq> []) (split_on (CHR ''/'') path)"

definition mount_path :: "string list \<Rightarrow> string" where
  "mount_path prefix = (if prefix = [] then ''/'' else ''/'' @ join_with ''/'' prefix)"

definition is_prefix :: "string list \<Rightarrow> string list \<Rightarrow> bool" where
  "is_prefix prefix components \<longleftrightarrow>
     length prefix \<le> length components \<and> list_all (\<lambda>(a, b). a = b) (zip prefix components)"

definition namespace_mount :: "string \<Rightarrow> 't \<Rightarrow> access \<Rightarrow> 't namespace \<Rightarrow> 't namespace" where
  "namespace_mount at tree access ns =
     Namespace (ns_mounts ns @ [Mount (split_path at) tree access])"

definition namespace_bind :: "string \<Rightarrow> string \<Rightarrow> 't namespace \<Rightarrow> 't namespace" where
  "namespace_bind new existing ns =
     Namespace (ns_mounts ns @
       map (\<lambda>m. Mount (split_path new) (mount_tree m) (mount_access m))
         (filter (\<lambda>m. mount_prefix m = split_path existing) (ns_mounts ns)))"

definition namespace_unmount :: "string \<Rightarrow> 't namespace \<Rightarrow> 't namespace" where
  "namespace_unmount at ns = Namespace (filter (\<lambda>m. mount_prefix m \<noteq> split_path at) (ns_mounts ns))"

definition union_at :: "'t namespace \<Rightarrow> string \<Rightarrow> 't resolved list" where
  "union_at ns path =
     map (\<lambda>m. Resolved (mount_tree m) [] (mount_access m))
       (filter (\<lambda>m. mount_prefix m = split_path path) (ns_mounts ns))"

definition namespace_child :: "'t namespace \<Rightarrow> 't namespace" where
  "namespace_child ns =
     Namespace (map (\<lambda>m. Mount (mount_prefix m) (mount_tree m) (mount_access m)) (ns_mounts ns))"

definition child_with_path_substitution :: "string \<Rightarrow> string \<Rightarrow> 't namespace \<Rightarrow> 't namespace" where
  "child_with_path_substitution token replacement ns =
     Namespace (map (\<lambda>m. Mount (map (str_replace token replacement) (mount_prefix m))
       (mount_tree m) (mount_access m)) (ns_mounts ns))"

definition describe :: "'t namespace \<Rightarrow> (string \<times> access) list" where
  "describe ns = map (\<lambda>m. (mount_path (mount_prefix m), mount_access m)) (ns_mounts ns)"

definition resolved_at :: "string list \<Rightarrow> 't mount \<Rightarrow> 't resolved" where
  "resolved_at components m =
     Resolved (mount_tree m) (drop (length (mount_prefix m)) components) (mount_access m)"

fun best_mount :: "string list \<Rightarrow> 't mount option \<Rightarrow> 't mount list \<Rightarrow> 't mount option" where
  "best_mount components best [] = best"
| "best_mount components best (m # ms) =
     best_mount components
       (if is_prefix (mount_prefix m) components \<and>
           (case best of Some b \<Rightarrow> length (mount_prefix b) \<le> length (mount_prefix m) | None \<Rightarrow> True)
        then Some m else best) ms"

definition resolve_components :: "'t namespace \<Rightarrow> string list \<Rightarrow> 't resolved option" where
  "resolve_components ns components =
     map_option (resolved_at components) (best_mount components None (ns_mounts ns))"

definition resolve :: "'t namespace \<Rightarrow> string \<Rightarrow> 't resolved option" where
  "resolve ns path = resolve_components ns (split_path path)"

definition matching :: "string list \<Rightarrow> 't mount list \<Rightarrow> 't mount list" where
  "matching components ms = filter (\<lambda>m. is_prefix (mount_prefix m) components) ms"

definition max_len :: "string list \<Rightarrow> 't mount list \<Rightarrow> nat" where
  "max_len components ms = Max (set (map (\<lambda>m. length (mount_prefix m)) (matching components ms)))"

definition longest :: "string list \<Rightarrow> 't mount list \<Rightarrow> 't mount list" where
  "longest components ms =
     filter (\<lambda>m. is_prefix (mount_prefix m) components \<and>
       length (mount_prefix m) = max_len components ms) ms"

definition candidates :: "'t namespace \<Rightarrow> string list \<Rightarrow> 't resolved list" where
  "candidates ns components =
     (if matching components (ns_mounts ns) = [] then []
      else map (resolved_at components) (rev (longest components (ns_mounts ns))))"

definition resolve_candidates :: "'t namespace \<Rightarrow> string \<Rightarrow> 't resolved list" where
  "resolve_candidates ns path = candidates ns (split_path path)"

section \<open>Child namespaces\<close>

definition project_access :: "access \<Rightarrow> access \<Rightarrow> access" where
  "project_access requested held = (case requested of ReadOnly \<Rightarrow> ReadOnly | ReadWrite \<Rightarrow> held)"

definition project_mount :: "string list \<Rightarrow> string list \<Rightarrow> access \<Rightarrow> 't mount \<Rightarrow> 't mount" where
  "project_mount source target requested m =
     Mount (target @ drop (length source) (mount_prefix m)) (mount_tree m)
       (project_access requested (mount_access m))"

fun project_declarations ::
  "'t mount list \<Rightarrow> (string \<times> string \<times> access) list \<Rightarrow> 't mount list option" where
  "project_declarations ms [] = Some []"
| "project_declarations ms ((target, source, requested) # rest) =
     (case find (\<lambda>m. mount_prefix m = split_path source) (rev ms) of
        None \<Rightarrow> None
      | Some m \<Rightarrow>
          if \<not> satisfies_access (mount_access m) requested then None
          else
            (case project_declarations ms rest of
               None \<Rightarrow> None
             | Some projected \<Rightarrow>
                 Some (map (project_mount (split_path source) (split_path target) requested)
                   (filter (\<lambda>m. is_prefix (split_path source) (mount_prefix m)) ms) @ projected)))"

definition project_mounts ::
  "'t namespace \<Rightarrow> (string \<times> string \<times> access) list \<Rightarrow> 't namespace option" where
  "project_mounts ns declarations =
     map_option Namespace (project_declarations (ns_mounts ns) declarations)"

type_synonym explicit_access = "access option list"

definition claim_request ::
  "'t mount list \<Rightarrow> string \<times> access \<Rightarrow> explicit_access \<Rightarrow> explicit_access option" where
  "claim_request ms req explicit =
     map_option (\<lambda>i. explicit[i := Some (snd req)])
       (find (\<lambda>i. explicit ! i = None \<and> mount_prefix (ms ! i) = split_path (fst req) \<and>
          satisfies_access (mount_access (ms ! i)) (snd req)) [0..<length ms])"

fun claim_requests ::
  "'t mount list \<Rightarrow> (string \<times> access) list \<Rightarrow> explicit_access \<Rightarrow> explicit_access option" where
  "claim_requests ms [] explicit = Some explicit"
| "claim_requests ms (req # reqs) explicit =
     (case claim_request ms req explicit of
        None \<Rightarrow> None
      | Some explicit' \<Rightarrow> claim_requests ms reqs explicit')"

fun nearest_ancestor ::
  "string list \<Rightarrow> (nat \<times> access) option \<Rightarrow> ('t mount \<times> access option) list \<Rightarrow> (nat \<times> access) option" where
  "nearest_ancestor descendant best [] = best"
| "nearest_ancestor descendant best ((m, None) # rest) = nearest_ancestor descendant best rest"
| "nearest_ancestor descendant best ((m, Some access) # rest) =
     nearest_ancestor descendant
       (if length (mount_prefix m) < length descendant \<and> is_prefix (mount_prefix m) descendant \<and>
           \<not> (case best of Some (best_len, _) \<Rightarrow> length (mount_prefix m) \<le> best_len | None \<Rightarrow> False)
        then Some (length (mount_prefix m), access) else best) rest"

definition nearest_explicit_ancestor_access ::
  "'t mount list \<Rightarrow> explicit_access \<Rightarrow> nat \<Rightarrow> access option" where
  "nearest_explicit_ancestor_access ms explicit index =
     map_option snd (nearest_ancestor (mount_prefix (ms ! index)) None (zip ms explicit))"

definition omitted_descendant_is_restrictive :: "'t mount list \<Rightarrow> nat \<Rightarrow> access \<Rightarrow> bool" where
  "omitted_descendant_is_restrictive ms index ceiling =
     is_stricter_access (restrict_access (mount_access (ms ! index)) ceiling) ceiling"

definition preserved_overmount_access ::
  "'t mount list \<Rightarrow> explicit_access \<Rightarrow> nat \<Rightarrow> access option" where
  "preserved_overmount_access ms explicit index =
     (case nearest_explicit_ancestor_access ms explicit index of
        None \<Rightarrow> None
      | Some ceiling \<Rightarrow>
          if omitted_descendant_is_restrictive ms index ceiling
          then Some (restrict_access (mount_access (ms ! index)) ceiling) else None)"

definition has_unsafe_omitted_descendant :: "'t mount list \<Rightarrow> explicit_access \<Rightarrow> bool" where
  "has_unsafe_omitted_descendant ms explicit =
     list_ex (\<lambda>index. explicit ! index = None \<and>
       (case nearest_explicit_ancestor_access ms explicit index of
          None \<Rightarrow> False
        | Some ceiling \<Rightarrow> \<not> omitted_descendant_is_restrictive ms index ceiling)) [0..<length ms]"

definition restricted_access :: "'t mount list \<Rightarrow> explicit_access \<Rightarrow> nat \<Rightarrow> access option" where
  "restricted_access ms explicit index =
     (case explicit ! index of
        Some access \<Rightarrow> Some access
      | None \<Rightarrow> preserved_overmount_access ms explicit index)"

definition restrict_to_mounts ::
  "'t namespace \<Rightarrow> (string \<times> access) list \<Rightarrow> 't namespace option" where
  "restrict_to_mounts ns requested =
     (let ms = ns_mounts ns in
      case claim_requests ms requested (replicate (length ms) None) of
        None \<Rightarrow> None
      | Some explicit \<Rightarrow>
          if has_unsafe_omitted_descendant ms explicit then None
          else Some (Namespace (concat (map (\<lambda>i.
            case restricted_access ms explicit i of
              None \<Rightarrow> []
            | Some access \<Rightarrow> [Mount (mount_prefix (ms ! i)) (mount_tree (ms ! i)) access])
            [0..<length ms]))))"

section \<open>Paths and prefixes\<close>

lemma is_prefix_iff: "is_prefix p c \<longleftrightarrow> (\<exists>r. c = p @ r)"
proof (induction p arbitrary: c)
  case (Cons x p)
  then show ?case by (cases c) (auto simp: is_prefix_def)
qed (simp add: is_prefix_def)

lemma is_prefix_append [simp]: "is_prefix (p @ q) (p @ r) \<longleftrightarrow> is_prefix q r"
  by (simp add: is_prefix_iff)

lemma is_prefix_refl [simp]: "is_prefix p p" "is_prefix p (p @ q)"
  by (simp_all add: is_prefix_iff)

lemma is_prefix_trans: "is_prefix p q \<Longrightarrow> is_prefix q r \<Longrightarrow> is_prefix p r"
  by (auto simp: is_prefix_iff)

lemma is_prefix_chain: "is_prefix p c \<Longrightarrow> is_prefix q c \<Longrightarrow> length p \<le> length q \<Longrightarrow> is_prefix p q"
  unfolding is_prefix_iff by (metis append_eq_append_conv_if append_take_drop_id)

lemma is_prefix_length: "is_prefix p c \<Longrightarrow> length p \<le> length c"
  by (simp add: is_prefix_def)

lemma is_prefix_same_length: "is_prefix p c \<Longrightarrow> is_prefix q c \<Longrightarrow> length p = length q \<Longrightarrow> p = q"
  by (auto simp: is_prefix_iff)

section \<open>Resolution\<close>

lemma matching_simps [simp]:
  "matching c [] = []" "matching c (xs @ ys) = matching c xs @ matching c ys"
  "matching c (m # ms) = (if is_prefix (mount_prefix m) c then m # matching c ms else matching c ms)"
  by (simp_all add: matching_def)

lemma in_matching [simp]: "m \<in> set (matching c ms) \<longleftrightarrow> m \<in> set ms \<and> is_prefix (mount_prefix m) c"
  by (auto simp: matching_def)

lemma max_len_ge: "m \<in> set (matching c ms) \<Longrightarrow> length (mount_prefix m) \<le> max_len c ms"
  unfolding max_len_def by (intro Max_ge) auto

lemma max_len_attained:
  assumes "matching c ms \<noteq> []"
  obtains m where "m \<in> set (matching c ms)" "length (mount_prefix m) = max_len c ms"
proof -
  have "max_len c ms \<in> set (map (\<lambda>m. length (mount_prefix m)) (matching c ms))"
    unfolding max_len_def using assms by (intro Max_in) auto
  then show ?thesis using that by (metis (no_types, lifting) imageE list.set_map)
qed

lemma max_lenI:
  assumes "m \<in> set (matching c ms)" "length (mount_prefix m) = n"
    and "\<And>m. m \<in> set (matching c ms) \<Longrightarrow> length (mount_prefix m) \<le> n"
  shows "max_len c ms = n"
  using assms max_len_attained [of c ms] max_len_ge [OF assms(1)] by (metis empty_iff empty_set le_antisym)

lemma max_len_snoc:
  "max_len c (ms @ [m]) =
     (if is_prefix (mount_prefix m) c
      then (if matching c ms = [] then length (mount_prefix m)
            else max (max_len c ms) (length (mount_prefix m)))
      else max_len c ms)"
  by (auto simp: max_len_def Max_insert max.commute)

lemma longest_nonempty: "matching c ms \<noteq> [] \<Longrightarrow> longest c ms \<noteq> []"
  by (elim max_len_attained) (auto simp: longest_def filter_empty_conv)

lemma longest_snoc:
  "longest c (ms @ [m]) =
     (if \<not> is_prefix (mount_prefix m) c then longest c ms
      else if matching c ms = [] \<or> max_len c ms < length (mount_prefix m) then [m]
      else if length (mount_prefix m) = max_len c ms then longest c ms @ [m]
      else longest c ms)"
proof -
  have "length (mount_prefix x) \<le> max_len c ms" if "x \<in> set ms" "is_prefix (mount_prefix x) c" for x
    using that by (intro max_len_ge) simp
  moreover have "\<not> is_prefix (mount_prefix x) c" if "x \<in> set ms" "matching c ms = []" for x
    using that in_matching [of x c ms] by simp
  ultimately show ?thesis
    unfolding longest_def max_len_snoc
    by (auto simp: filter_empty_conv max_def intro!: filter_cong dest: leD)
      (metis le_antisym)
qed

lemma best_mount_append: "best_mount c b (xs @ ys) = best_mount c (best_mount c b xs) ys"
  by (induction xs arbitrary: b) auto

lemma in_longest: "m \<in> set (longest c ms) \<longleftrightarrow>
    m \<in> set ms \<and> is_prefix (mount_prefix m) c \<and> length (mount_prefix m) = max_len c ms"
  by (auto simp: longest_def)

lemma best_mount_last:
  "best_mount c None ms = (if matching c ms = [] then None else Some (last (longest c ms)))"
proof (induction ms rule: rev_induct)
  case (snoc m ms)
  have "length (mount_prefix (last (longest c ms))) = max_len c ms" if "matching c ms \<noteq> []"
    using longest_nonempty [OF that] in_longest last_in_set by blast
  with snoc show ?case
    using longest_nonempty [of c ms] by (simp add: best_mount_append longest_snoc)
qed simp

lemma candidates_eq_Nil [simp]: "candidates ns c = [] \<longleftrightarrow> matching c (ns_mounts ns) = []"
  using longest_nonempty by (auto simp: candidates_def)

lemma candidates_longest:
  "candidates ns c = map (resolved_at c) (rev (longest c (ns_mounts ns)))"
proof (cases "matching c (ns_mounts ns) = []")
  case True
  then have "longest c (ns_mounts ns) = []"
    by (auto simp: longest_def matching_def filter_empty_conv)
  with True show ?thesis by (simp add: candidates_def)
qed (simp add: candidates_def)

lemma resolve_components_head:
  "resolve_components ns c = (case candidates ns c of [] \<Rightarrow> None | r # _ \<Rightarrow> Some r)"
proof (cases "matching c (ns_mounts ns) = []")
  case True
  then show ?thesis by (simp add: resolve_components_def best_mount_last candidates_def)
next
  case False
  then obtain xs x where "longest c (ns_mounts ns) = xs @ [x]"
    using longest_nonempty by (metis rev_exhaust)
  with False show ?thesis
    by (simp add: resolve_components_def best_mount_last candidates_def)
qed

section \<open>Restriction\<close>

definition strict_ancestor :: "string list \<Rightarrow> string list \<Rightarrow> bool" where
  "strict_ancestor p q \<longleftrightarrow> length p < length q \<and> is_prefix p q"

lemma nearest_ancestor_None:
  "nearest_ancestor d best xs = None \<longleftrightarrow>
     best = None \<and> (\<forall>(m, a)\<in>set xs. a \<noteq> None \<longrightarrow> \<not> strict_ancestor (mount_prefix m) d)"
  by (induction d best xs rule: nearest_ancestor.induct) (auto simp: strict_ancestor_def split: option.splits)

lemma nearest_explicit_None:
  assumes "length explicit = length ms"
  shows "nearest_explicit_ancestor_access ms explicit i = None \<longleftrightarrow>
    (\<forall>j<length ms. explicit ! j \<noteq> None \<longrightarrow>
       \<not> strict_ancestor (mount_prefix (ms ! j)) (mount_prefix (ms ! i)))"
  using assms
  by (auto simp: nearest_explicit_ancestor_access_def nearest_ancestor_None set_zip)

lemma claim_request_Some:
  assumes "claim_request ms req explicit = Some explicit'"
  obtains i where "i < length ms" "explicit ! i = None" "mount_prefix (ms ! i) = split_path (fst req)"
    "satisfies_access (mount_access (ms ! i)) (snd req)" "explicit' = explicit[i := Some (snd req)]"
  using assms by (auto simp: claim_request_def find_Some_iff)

definition explicit_ok :: "'t mount list \<Rightarrow> explicit_access \<Rightarrow> bool" where
  "explicit_ok ms explicit \<longleftrightarrow> length explicit = length ms \<and>
     (\<forall>i<length ms. \<forall>a. explicit ! i = Some a \<longrightarrow> a \<le> mount_access (ms ! i))"

lemma claim_requests_ok:
  "claim_requests ms reqs explicit = Some explicit' \<Longrightarrow> explicit_ok ms explicit \<Longrightarrow>
     explicit_ok ms explicit'"
proof (induction reqs arbitrary: explicit)
  case (Cons req reqs)
  then obtain explicit1 where c: "claim_request ms req explicit = Some explicit1"
    "claim_requests ms reqs explicit1 = Some explicit'"
    by (auto split: option.splits)
  then have "explicit_ok ms explicit1"
    using Cons.prems(2)
    by (elim claim_request_Some) (auto simp: explicit_ok_def nth_list_update satisfies_access_le)
  then show ?case using Cons.IH c by blast
qed simp

lemma restricted_access_le:
  assumes "explicit_ok ms explicit" "i < length ms" "restricted_access ms explicit i = Some a"
  shows "a \<le> mount_access (ms ! i)"
  using assms
  by (auto simp: restricted_access_def explicit_ok_def preserved_overmount_access_def
      split: option.splits if_splits)

text \<open>A mount that the restriction kept has an explicitly requested mount at or above it.\<close>

lemma restricted_has_explicit:
  assumes "explicit_ok ms explicit" "i < length ms" "restricted_access ms explicit i = Some a"
  obtains j where "j < length ms" "explicit ! j \<noteq> None"
    "j = i \<or> strict_ancestor (mount_prefix (ms ! j)) (mount_prefix (ms ! i))"
proof (cases "explicit ! i")
  case None
  then have "nearest_explicit_ancestor_access ms explicit i \<noteq> None"
    using assms by (auto simp: restricted_access_def preserved_overmount_access_def split: option.splits)
  then have "\<not> (\<forall>j<length ms. explicit ! j \<noteq> None \<longrightarrow>
       \<not> strict_ancestor (mount_prefix (ms ! j)) (mount_prefix (ms ! i)))"
    using assms(1) by (subst (asm) nearest_explicit_None) (simp_all add: explicit_ok_def)
  then obtain j where "j < length ms" "explicit ! j \<noteq> None"
      "strict_ancestor (mount_prefix (ms ! j)) (mount_prefix (ms ! i))"
    by blast
  then show ?thesis using that by blast
qed (use assms that in auto)

lemma strict_ancestor_trans:
  "strict_ancestor p q \<Longrightarrow> strict_ancestor q r \<Longrightarrow> strict_ancestor p r"
  using is_prefix_trans by (fastforce simp: strict_ancestor_def)

text \<open>A dropped mount is never below a kept one: it would be an omitted descendant of an explicit
  mount, which is either preserved or makes the whole request fail.\<close>

lemma dropped_not_below_kept:
  assumes ok: "explicit_ok ms explicit" and safe: "\<not> has_unsafe_omitted_descendant ms explicit"
    and i: "i < length ms" "restricted_access ms explicit i = Some a"
    and j: "j < length ms" "strict_ancestor (mount_prefix (ms ! i)) (mount_prefix (ms ! j))"
  shows "restricted_access ms explicit j \<noteq> None"
proof -
  obtain k where k: "k < length ms" "explicit ! k \<noteq> None"
    "k = i \<or> strict_ancestor (mount_prefix (ms ! k)) (mount_prefix (ms ! i))"
    using restricted_has_explicit [OF ok i] .
  then have "strict_ancestor (mount_prefix (ms ! k)) (mount_prefix (ms ! j))"
    using j strict_ancestor_trans by blast
  then have "nearest_explicit_ancestor_access ms explicit j \<noteq> None"
    using k ok nearest_explicit_None [of explicit ms j] unfolding explicit_ok_def by blast
  then show ?thesis
    using safe j(1)
    by (auto simp: restricted_access_def preserved_overmount_access_def
        has_unsafe_omitted_descendant_def list_ex_iff split: option.splits if_splits)
qed

lemma restrict_mounts:
  assumes "restrict_to_mounts ns requested = Some ns'"
  obtains explicit where "explicit_ok (ns_mounts ns) explicit"
    "\<not> has_unsafe_omitted_descendant (ns_mounts ns) explicit"
    "\<And>m'. m' \<in> set (ns_mounts ns') \<longleftrightarrow> (\<exists>i a. i < length (ns_mounts ns) \<and>
       restricted_access (ns_mounts ns) explicit i = Some a \<and>
       m' = Mount (mount_prefix (ns_mounts ns ! i)) (mount_tree (ns_mounts ns ! i)) a)"
proof -
  let ?ms = "ns_mounts ns"
  from assms obtain explicit where e: "claim_requests ?ms requested (replicate (length ?ms) None) = Some explicit"
    "\<not> has_unsafe_omitted_descendant ?ms explicit"
    and ns': "ns' = Namespace (concat (map (\<lambda>i. case restricted_access ?ms explicit i of
        None \<Rightarrow> [] | Some access \<Rightarrow> [Mount (mount_prefix (?ms ! i)) (mount_tree (?ms ! i)) access])
        [0..<length ?ms]))"
    by (auto simp: restrict_to_mounts_def Let_def split: option.splits if_splits)
  have "explicit_ok ?ms (replicate (length ?ms) None)" by (simp add: explicit_ok_def)
  then have "explicit_ok ?ms explicit" using e claim_requests_ok by blast
  moreover have "m' \<in> set (ns_mounts ns') \<longleftrightarrow> (\<exists>i a. i < length ?ms \<and>
      restricted_access ?ms explicit i = Some a \<and> m' = Mount (mount_prefix (?ms ! i)) (mount_tree (?ms ! i)) a)" for m'
    unfolding ns' by (auto split: option.splits) force+
  ultimately show ?thesis using that e by blast
qed

lemma restrict_candidates:
  assumes "restrict_to_mounts ns requested = Some ns'" "r' \<in> set (candidates ns' c)"
  shows "\<exists>r\<in>set (candidates ns c). res_tree r' = res_tree r \<and> res_rel r' = res_rel r \<and>
           res_access r' \<le> res_access r"
proof -
  let ?ms = "ns_mounts ns"
  obtain explicit where e: "explicit_ok ?ms explicit" "\<not> has_unsafe_omitted_descendant ?ms explicit"
    and mem: "\<And>m'. m' \<in> set (ns_mounts ns') \<longleftrightarrow> (\<exists>i a. i < length ?ms \<and>
       restricted_access ?ms explicit i = Some a \<and> m' = Mount (mount_prefix (?ms ! i)) (mount_tree (?ms ! i)) a)"
    using restrict_mounts [OF assms(1)] by blast
  from assms(2) obtain m' where m': "m' \<in> set (ns_mounts ns')" "is_prefix (mount_prefix m') c"
    "length (mount_prefix m') = max_len c (ns_mounts ns')" "r' = resolved_at c m'"
    by (auto simp: candidates_longest in_longest)
  then obtain i a where i: "i < length ?ms" "restricted_access ?ms explicit i = Some a"
    "m' = Mount (mount_prefix (?ms ! i)) (mount_tree (?ms ! i)) a"
    using mem by blast
  have pref: "is_prefix (mount_prefix (?ms ! i)) c" using m' i by simp
  have shorter: "length (mount_prefix m) \<le> length (mount_prefix (?ms ! i))"
    if "m \<in> set (matching c ?ms)" for m
  proof (rule ccontr)
    assume longer: "\<not> length (mount_prefix m) \<le> length (mount_prefix (?ms ! i))"
    have "m \<in> set ?ms" "is_prefix (mount_prefix m) c" using that by simp_all
    then obtain j where j: "j < length ?ms" "m = ?ms ! j" "is_prefix (mount_prefix m) c"
      by (auto simp: in_set_conv_nth)
    then have "strict_ancestor (mount_prefix (?ms ! i)) (mount_prefix (?ms ! j))"
      using longer is_prefix_chain [OF pref] by (auto simp: strict_ancestor_def)
    then obtain b where "restricted_access ?ms explicit j = Some b"
      using dropped_not_below_kept [OF e i(1,2) j(1)] by blast
    then have "Mount (mount_prefix m) (mount_tree m) b \<in> set (matching c (ns_mounts ns'))"
      using mem j by auto
    then have "length (mount_prefix m) \<le> max_len c (ns_mounts ns')" using max_len_ge by fastforce
    then show False using m' i longer by simp
  qed
  have "max_len c ?ms = length (mount_prefix (?ms ! i))"
    by (rule max_lenI [of "?ms ! i"]) (use i pref shorter in simp_all)
  then have "?ms ! i \<in> set (longest c ?ms)" using i pref by (simp add: in_longest)
  then have "resolved_at c (?ms ! i) \<in> set (candidates ns c)" by (simp add: candidates_longest)
  moreover have "a \<le> mount_access (?ms ! i)" using restricted_access_le [OF e(1) i(1,2)] .
  ultimately show ?thesis using i m' by (intro bexI [of _ "resolved_at c (?ms ! i)"]) (simp_all add: resolved_at_def)
qed

section \<open>Projection\<close>

definition narrow :: "access \<Rightarrow> 't resolved \<Rightarrow> 't resolved" where
  "narrow requested r = Resolved (res_tree r) (res_rel r) (project_access requested (res_access r))"

lemma project_access_le [simp]: "project_access requested held \<le> held"
  by (cases requested; cases held) (simp_all add: project_access_def less_eq_access_def)

lemma longest_under:
  assumes "m0 \<in> set ms" "mount_prefix m0 = S"
  shows "longest (S @ rest) ms = longest (S @ rest) (filter (\<lambda>m. is_prefix S (mount_prefix m)) ms)"
    "length S \<le> max_len (S @ rest) ms"
    "max_len (S @ rest) (filter (\<lambda>m. is_prefix S (mount_prefix m)) ms) = max_len (S @ rest) ms"
proof -
  let ?c = "S @ rest" and ?us = "filter (\<lambda>m. is_prefix S (mount_prefix m)) ms"
  have m0: "m0 \<in> set (matching ?c ms)" using assms by simp
  then show ge: "length S \<le> max_len ?c ms" using max_len_ge [OF m0] assms by simp
  have under: "is_prefix S (mount_prefix m)"
    if "is_prefix (mount_prefix m) ?c" "length (mount_prefix m) = max_len ?c ms" for m
    using that ge is_prefix_chain [of S ?c "mount_prefix m"] by simp
  obtain m where m: "m \<in> set (matching ?c ms)" "length (mount_prefix m) = max_len ?c ms"
    using m0 max_len_attained by (metis empty_iff empty_set)
  show max: "max_len ?c ?us = max_len ?c ms"
  proof (rule max_lenI)
    show "m \<in> set (matching ?c ?us)" using m under [of m] by simp
    show "length (mount_prefix x) \<le> max_len ?c ms" if "x \<in> set (matching ?c ?us)" for x
      using that by (intro max_len_ge) simp
  qed (rule m)
  show "longest ?c ms = longest ?c ?us"
    unfolding longest_def max using under by (auto simp: conj_commute intro!: filter_cong)
qed

lemma longest_project:
  assumes "\<And>m. m \<in> set us \<Longrightarrow> is_prefix S (mount_prefix m)" "matching (S @ rest) us \<noteq> []"
  shows "longest (T @ rest) (map (project_mount S T acc) us) =
    map (project_mount S T acc) (longest (S @ rest) us)"
proof -
  let ?f = "project_mount S T acc"
  have pre: "is_prefix (mount_prefix (?f m)) (T @ rest) \<longleftrightarrow> is_prefix (mount_prefix m) (S @ rest)"
    and len: "length (mount_prefix (?f m)) + length S = length (mount_prefix m) + length T"
    if "m \<in> set us" for m
    using assms(1) [OF that] by (auto simp: project_mount_def is_prefix_iff)
  obtain m where m: "m \<in> set us" "is_prefix (mount_prefix m) (S @ rest)"
      "length (mount_prefix m) = max_len (S @ rest) us"
    using max_len_attained [OF assms(2)] by auto
  have max: "max_len (T @ rest) (map ?f us) = length (mount_prefix (?f m))"
  proof (rule max_lenI)
    show "?f m \<in> set (matching (T @ rest) (map ?f us))" using m pre by simp
    fix x
    assume "x \<in> set (matching (T @ rest) (map ?f us))"
    then obtain y where y: "y \<in> set us" "x = ?f y" "is_prefix (mount_prefix y) (S @ rest)"
      using pre by auto
    then have "length (mount_prefix y) \<le> max_len (S @ rest) us" by (intro max_len_ge) simp
    then show "length (mount_prefix x) \<le> length (mount_prefix (?f m))"
      using len [OF m(1)] len [OF y(1)] m y by simp
  qed simp
  have "length (mount_prefix (?f x)) = length (mount_prefix (?f m)) \<longleftrightarrow>
      length (mount_prefix x) = max_len (S @ rest) us" if "x \<in> set us" for x
    using len [OF that] len [OF m(1)] m(3) by linarith
  then show ?thesis
    unfolding longest_def max filter_map o_def using pre by (auto intro!: arg_cong [of _ _ "map ?f"] filter_cong)
qed

lemma project_single:
  assumes "project_mounts ns [(target, source, requested)] = Some ns'"
  shows "candidates ns' (split_path target @ rest) =
    map (narrow requested) (candidates ns (split_path source @ rest))"
proof -
  let ?S = "split_path source" and ?T = "split_path target" and ?ms = "ns_mounts ns"
  let ?us = "filter (\<lambda>m. is_prefix ?S (mount_prefix m)) ?ms"
  from assms obtain m0 where m0: "find (\<lambda>m. mount_prefix m = ?S) (rev ?ms) = Some m0"
    and ns': "ns_mounts ns' = map (project_mount ?S ?T requested) ?us"
    by (auto simp: project_mounts_def split: option.splits if_splits)
  then have mem: "m0 \<in> set ?ms" "mount_prefix m0 = ?S"
    by (auto simp: find_Some_iff) (metis length_rev nth_mem set_rev)
  have "m0 \<in> set (matching (?S @ rest) ?us)" using mem by simp
  then have "matching (?S @ rest) ?us \<noteq> []" by (metis empty_iff empty_set)
  then have long: "longest (?T @ rest) (ns_mounts ns') =
      map (project_mount ?S ?T requested) (longest (?S @ rest) ?ms)"
    unfolding ns' longest_under(1) [OF mem] by (intro longest_project) auto
  have "resolved_at (?T @ rest) (project_mount ?S ?T requested m) = narrow requested (resolved_at (?S @ rest) m)"
    if "m \<in> set (longest (?S @ rest) ?ms)" for m
  proof -
    have "m \<in> set ?us" using that longest_under(1) [OF mem] by (auto simp: in_longest)
    then show ?thesis
      by (auto simp: is_prefix_iff project_mount_def resolved_at_def narrow_def)
  qed
  then show ?thesis by (simp add: candidates_longest long rev_map)
qed

section \<open>Properties\<close>

text \<open>
  Resolution picks the most recent mount among those with the longest matching prefix: it is
  the first of the union candidates, which are exactly the longest-prefix mounts, most recent
  first, and it fails exactly when no mount covers the path.
\<close>

lemma resolve_is_first_candidate:
  "resolve ns path = (case resolve_candidates ns path of [] \<Rightarrow> None | r # _ \<Rightarrow> Some r) \<and>
   resolve_candidates ns path =
     map (resolved_at (split_path path)) (rev (longest (split_path path) (ns_mounts ns))) \<and>
   (resolve ns path = None \<longleftrightarrow>
      (\<forall>m\<in>set (ns_mounts ns). \<not> is_prefix (mount_prefix m) (split_path path)))"
proof -
  have "resolve_candidates ns path = [] \<longleftrightarrow>
      (\<forall>m\<in>set (ns_mounts ns). \<not> is_prefix (mount_prefix m) (split_path path))"
    by (simp add: resolve_candidates_def matching_def filter_empty_conv)
  then show ?thesis
    by (auto simp: resolve_def resolve_candidates_def resolve_components_head candidates_longest
        split: list.splits)
qed

lemma resolve_is_first_candidate_instance:
  "let ns = namespace_mount ''/a/b'' (2 :: nat) ReadOnly (namespace_mount ''/'' 1 ReadWrite namespace_new) in
   resolve ns ''/a/b/c'' = Some (Resolved 2 [''c''] ReadOnly) \<and>
   resolve ns ''/a/b/c'' = (case resolve_candidates ns ''/a/b/c'' of [] \<Rightarrow> None | r # _ \<Rightarrow> Some r)"
proof -
  let ?ns = "namespace_mount ''/a/b'' (2 :: nat) ReadOnly (namespace_mount ''/'' 1 ReadWrite namespace_new)"
  have "resolve ?ns ''/a/b/c'' = Some (Resolved 2 [''c''] ReadOnly)" by code_simp
  then show ?thesis using resolve_is_first_candidate [of ?ns "''/a/b/c''"] by (simp add: Let_def)
qed



text \<open>
  (C9) A restricted child namespace never widens: for every path, each tree the child can reach
  there is one its parent reaches at the same path with the same remaining components, with at most
  the parent's access. In particular omitting a mount never exposes what that mount was covering.
\<close>

theorem restrict_never_widens:
  assumes "restrict_to_mounts ns requested = Some ns'" "r' \<in> set (resolve_candidates ns' path)"
  shows "\<exists>r\<in>set (resolve_candidates ns path). res_tree r' = res_tree r \<and> res_rel r' = res_rel r \<and>
           res_access r' \<le> res_access r"
  using restrict_candidates [of ns requested ns' r' "split_path path"] assms
  by (simp add: resolve_candidates_def)

theorem restrict_never_widens_witness:
  "\<exists>ns'. restrict_to_mounts (Namespace [Mount [] (7 :: nat) ReadWrite, Mount [''etc''] 2 ReadOnly])
       [(''/'', ReadWrite)] = Some ns' \<and>
     resolve_candidates ns' ''/etc/x'' = [Resolved 2 [''x''] ReadOnly] \<and>
     (\<exists>r\<in>set (resolve_candidates (Namespace [Mount [] (7 :: nat) ReadWrite, Mount [''etc''] 2 ReadOnly]) ''/etc/x'').
        res_tree r = 2 \<and> ReadOnly \<le> res_access r)"
proof -
  let ?ns = "Namespace [Mount [] (7 :: nat) ReadWrite, Mount [''etc''] 2 ReadOnly]"
  have r: "restrict_to_mounts ?ns [(''/'', ReadWrite)] = Some ?ns" by code_simp
  have c: "resolve_candidates ?ns ''/etc/x'' = [Resolved 2 [''x''] ReadOnly]" by code_simp
  have "\<exists>r\<in>set (resolve_candidates ?ns ''/etc/x''). res_tree (Resolved (2 :: nat) [''x''] ReadOnly) = res_tree r \<and>
      res_rel (Resolved (2 :: nat) [''x''] ReadOnly) = res_rel r \<and>
      res_access (Resolved (2 :: nat) [''x''] ReadOnly) \<le> res_access r"
    by (rule restrict_never_widens [OF r]) (simp add: c)
  with r c show ?thesis by auto
qed



text \<open>
  Where a union has several mounts at one prefix, a restriction that requests the prefix once
  keeps the oldest of them, not the one that wins resolution: the child then resolves a path to a
  tree that the parent's own resolution of that path shadows.
\<close>

lemma restrict_may_unshadow:
  "\<exists>ns requested ns' path. restrict_to_mounts (ns :: nat namespace) requested = Some ns' \<and>
     resolve ns path = Some (Resolved 2 [''sh''] ReadOnly) \<and>
     resolve ns' path = Some (Resolved 1 [''sh''] ReadOnly)"
proof -
  let ?ns = "Namespace [Mount [''bin''] (1 :: nat) ReadOnly, Mount [''bin''] 2 ReadOnly]"
  have "restrict_to_mounts ?ns [(''/bin'', ReadOnly)] = Some (Namespace [Mount [''bin''] 1 ReadOnly])"
    by code_simp
  moreover have "resolve ?ns ''/bin/sh'' = Some (Resolved 2 [''sh''] ReadOnly)" by code_simp
  moreover have "resolve (Namespace [Mount [''bin''] (1 :: nat) ReadOnly]) ''/bin/sh'' =
      Some (Resolved 1 [''sh''] ReadOnly)" by code_simp
  ultimately show ?thesis by blast
qed

end
