(* ===== verification/Process_Table.thy ===== *)
theory Process_Table
  imports Kernel_Namespace
begin

text \<open>
  The process table and the staged spawn (\<open>crates/kernel/src/process.rs\<close>): pids, credentials, exec
  specs with their namespace manifests, pending slots, commit, discard and exit, and the qid
  generations a \<open>/proc\<close> view reads.
\<close>

section \<open>Processes and exec specs\<close>

type_synonym pid = u64

record credentials =
  cred_uname :: string

definition credentials_system :: credentials where
  "credentials_system = \<lparr>cred_uname = ''system''\<rparr>"

definition credentials_user :: "string \<Rightarrow> credentials" where
  "credentials_user name = \<lparr>cred_uname = name\<rparr>"

datatype exec_namespace_access = ExecReadOnly | ExecReadWrite

fun exec_access_of :: "access \<Rightarrow> exec_namespace_access" where
  "exec_access_of ReadOnly = ExecReadOnly"
| "exec_access_of ReadWrite = ExecReadWrite"

fun access_of_exec :: "exec_namespace_access \<Rightarrow> access" where
  "access_of_exec ExecReadOnly = ReadOnly"
| "access_of_exec ExecReadWrite = ReadWrite"

lemma access_of_exec_of [simp]: "access_of_exec (exec_access_of a) = a"
  by (cases a) simp_all

record exec_namespace_mount =
  enm_path :: string
  enm_access :: exec_namespace_access

definition exec_namespace_mount_new :: "string \<Rightarrow> exec_namespace_access \<Rightarrow> exec_namespace_mount" where
  "exec_namespace_mount_new path access = \<lparr>enm_path = path, enm_access = access\<rparr>"

record exec_namespace_manifest =
  enm_generation :: u32
  enm_mounts :: "exec_namespace_mount list"

definition manifest_normalized :: "exec_namespace_manifest \<Rightarrow> exec_namespace_manifest" where
  "manifest_normalized m = m\<lparr>enm_mounts := sort_key enm_path (enm_mounts m)\<rparr>"

definition manifest_from_snapshot :: "'t namespace \<Rightarrow> u32 \<Rightarrow> exec_namespace_manifest" where
  "manifest_from_snapshot ns generation =
     manifest_normalized \<lparr>enm_generation = generation,
       enm_mounts = map (\<lambda>(path, access). exec_namespace_mount_new path (exec_access_of access)) (describe ns)\<rparr>"

definition manifest_from_namespace :: "'t namespace \<Rightarrow> exec_namespace_manifest" where
  "manifest_from_namespace ns = manifest_from_snapshot ns 0"

definition normalized_access_mounts :: "exec_namespace_manifest \<Rightarrow> (string \<times> access) list" where
  "normalized_access_mounts m =
     map (\<lambda>e. (enm_path e, access_of_exec (enm_access e))) (enm_mounts (manifest_normalized m))"

definition namespace_subset_from :: "exec_namespace_manifest \<Rightarrow> 't namespace \<Rightarrow> 't namespace option" where
  "namespace_subset_from m ns = restrict_to_mounts ns (normalized_access_mounts m)"

record exec_spec =
  exec_executable :: string
  exec_args :: "string list"
  exec_namespace :: exec_namespace_manifest
  exec_descriptors :: "(u32, string) btree"

datatype status = Running | Exited

record 't process =
  proc_pid :: pid
  proc_parent :: "pid option"
  proc_credentials :: credentials
  proc_namespace :: "'t namespace"
  proc_exec :: exec_spec
  proc_status :: status
  proc_exit_code :: "int option"

record 't pending_process =
  pend_parent :: "pid option"
  pend_credentials :: credentials
  pend_namespace :: "'t namespace"
  pend_generation :: u32

section \<open>The table\<close>

record 't process_table =
  pt_next :: u64
  pt_pending :: "(pid, 't pending_process) btree"
  pt_processes :: "(pid, 't process) btree"
  pt_versions :: version_table

definition LISTING_KEY :: u64 where
  "LISTING_KEY = 0"

definition process_table_new :: "'t process_table" where
  "process_table_new = \<lparr>pt_next = 1, pt_pending = [], pt_processes = [], pt_versions = vt_new\<rparr>"

definition listing_generation :: "'t process_table \<Rightarrow> u32" where
  "listing_generation t = vt_get (pt_versions t) LISTING_KEY"

definition process_generation :: "'t process_table \<Rightarrow> pid \<Rightarrow> u32" where
  "process_generation t pid = vt_get (pt_versions t) pid"

definition bump_generation :: "pid \<Rightarrow> 't process_table \<Rightarrow> 't process_table" where
  "bump_generation pid t =
     (if bt_has (pt_processes t) pid then t\<lparr>pt_versions := vt_bump pid (pt_versions t)\<rparr> else t)"

definition alloc_pid :: "'t process_table \<Rightarrow> pid \<times> 't process_table" where
  "alloc_pid t = (pt_next t, t\<lparr>pt_next := pt_next t + 1\<rparr>)"

definition clone_begin_with_namespace_generation ::
  "pid option \<Rightarrow> credentials \<Rightarrow> (pid \<Rightarrow> 't namespace \<times> u32) \<Rightarrow> 't process_table \<Rightarrow>
     pid option \<times> 't process_table" where
  "clone_begin_with_namespace_generation parent credentials build_namespace t =
     (let (pid, t1) = alloc_pid t; (ns, generation) = build_namespace pid in
      (Some pid, t1\<lparr>pt_pending := bt_insert pid \<lparr>pend_parent = parent, pend_credentials = credentials,
         pend_namespace = ns, pend_generation = generation\<rparr> (pt_pending t1)\<rparr>))"

definition clone_begin_with_namespace ::
  "pid option \<Rightarrow> credentials \<Rightarrow> (pid \<Rightarrow> 't namespace) \<Rightarrow> 't process_table \<Rightarrow>
     pid option \<times> 't process_table" where
  "clone_begin_with_namespace parent credentials build_namespace t =
     clone_begin_with_namespace_generation parent credentials (\<lambda>pid. (build_namespace pid, 0)) t"

definition clone_begin ::
  "pid option \<Rightarrow> 't namespace \<Rightarrow> credentials \<Rightarrow> 't process_table \<Rightarrow> pid option \<times> 't process_table" where
  "clone_begin parent ns credentials t =
     clone_begin_with_namespace_generation parent credentials (\<lambda>_. (ns, 0)) t"

definition pt_commit :: "pid \<Rightarrow> exec_spec \<Rightarrow> 't process_table \<Rightarrow> pid option \<times> 't process_table" where
  "pt_commit slot exec t =
     (case bt_get (pt_pending t) slot of
        None \<Rightarrow> (None, t)
      | Some pending \<Rightarrow>
          (Some slot,
           t\<lparr>pt_pending := bt_remove slot (pt_pending t),
             pt_processes := bt_insert slot \<lparr>proc_pid = slot, proc_parent = pend_parent pending,
               proc_credentials = pend_credentials pending, proc_namespace = pend_namespace pending,
               proc_exec = exec, proc_status = Running, proc_exit_code = None\<rparr> (pt_processes t),
             pt_versions := vt_bump LISTING_KEY (pt_versions t)\<rparr>))"

definition pt_discard :: "pid \<Rightarrow> 't process_table \<Rightarrow> 't process_table" where
  "pt_discard slot t = t\<lparr>pt_pending := bt_remove slot (pt_pending t)\<rparr>"

definition pending_namespace :: "'t process_table \<Rightarrow> pid \<Rightarrow> 't namespace option" where
  "pending_namespace t slot = map_option pend_namespace (bt_get (pt_pending t) slot)"

definition pending_namespace_generation :: "'t process_table \<Rightarrow> pid \<Rightarrow> u32 option" where
  "pending_namespace_generation t slot = map_option pend_generation (bt_get (pt_pending t) slot)"

definition replace_pending_namespace ::
  "pid \<Rightarrow> 't namespace \<Rightarrow> 't process_table \<Rightarrow> unit option \<times> 't process_table" where
  "replace_pending_namespace slot ns t =
     (case bt_get (pt_pending t) slot of
        None \<Rightarrow> (None, t)
      | Some pending \<Rightarrow>
          (Some (), t\<lparr>pt_pending := bt_insert slot (pending\<lparr>pend_namespace := ns\<rparr>) (pt_pending t)\<rparr>))"

definition pt_exit :: "pid \<Rightarrow> int \<Rightarrow> 't process_table \<Rightarrow> 't process_table" where
  "pt_exit pid code t =
     (case bt_get (pt_processes t) pid of
        Some p \<Rightarrow>
          if proc_status p \<noteq> Exited then
            t\<lparr>pt_processes := bt_insert pid (p\<lparr>proc_status := Exited, proc_exit_code := Some code\<rparr>) (pt_processes t),
              pt_versions := vt_bump pid (pt_versions t)\<rparr>
          else t
      | None \<Rightarrow> t)"

definition pt_list :: "'t process_table \<Rightarrow> pid list" where
  "pt_list t = bt_keys (pt_processes t)"

definition pt_get :: "'t process_table \<Rightarrow> pid \<Rightarrow> 't process option" where
  "pt_get t pid = bt_get (pt_processes t) pid"

section \<open>The invariant\<close>

definition process_ok :: "pid \<Rightarrow> 't process \<Rightarrow> bool" where
  "process_ok pid p \<longleftrightarrow> proc_pid p = pid \<and> (proc_status p = Exited \<longleftrightarrow> proc_exit_code p \<noteq> None)"

definition pt_inv :: "'t process_table \<Rightarrow> bool" where
  "pt_inv t \<longleftrightarrow> bt_inv (pt_pending t) \<and> bt_inv (pt_processes t) \<and> 0 < pt_next t \<and>
     (\<forall>pid. bt_get (pt_pending t) pid \<noteq> None \<longrightarrow>
        bt_get (pt_processes t) pid = None \<and> 0 < pid \<and> pid < pt_next t) \<and>
     (\<forall>pid p. bt_get (pt_processes t) pid = Some p \<longrightarrow>
        process_ok pid p \<and> 0 < pid \<and> pid < pt_next t)"

lemmas pt_op_defs = bump_generation_def alloc_pid_def clone_begin_with_namespace_generation_def
  pt_commit_def pt_discard_def replace_pending_namespace_def pt_exit_def

lemma pt_inv_new [simp]: "pt_inv process_table_new"
  by (simp add: pt_inv_def process_table_new_def)

lemma word_less_Suc:
  fixes a b :: u64
  assumes "b \<noteq> - 1"
  shows "b < b + 1" "a < b \<Longrightarrow> a < b + 1" "0 < b + 1"
proof -
  have "1 + b \<noteq> 0" using assms by (metis add.commute add_eq_0_iff)
  then have "unat (b + 1) = Suc (unat b)" using unatSuc by (metis add.commute)
  then show "b < b + 1" "a < b \<Longrightarrow> a < b + 1" "0 < b + 1"
    by (simp_all add: word_less_nat_alt)
qed

lemma pt_inv_clone_begin:
  assumes "pt_inv t" "pt_next t \<noteq> - 1"
  shows "pt_inv (snd (clone_begin_with_namespace_generation parent cred build t))"
proof -
  note w = word_less_Suc [OF assms(2)]
  have "bt_get (pt_processes t) (pt_next t) = None"
    using assms(1) unfolding pt_inv_def by (metis not_Some_eq order.irrefl)
  then show ?thesis
    using assms(1) w unfolding pt_inv_def pt_op_defs by (auto simp: case_prod_beta Let_def)
qed

lemma pt_inv_commit: "pt_inv t \<Longrightarrow> pt_inv (snd (pt_commit slot exec t))"
  unfolding pt_inv_def pt_commit_def by (auto simp: process_ok_def split: option.splits)

lemma pt_inv_discard: "pt_inv t \<Longrightarrow> pt_inv (pt_discard slot t)"
  unfolding pt_inv_def pt_discard_def by auto

lemma pt_inv_replace: "pt_inv t \<Longrightarrow> pt_inv (snd (replace_pending_namespace slot ns t))"
  unfolding pt_inv_def replace_pending_namespace_def by (auto split: option.splits)

lemma pt_inv_exit: "pt_inv t \<Longrightarrow> pt_inv (pt_exit pid code t)"
  unfolding pt_inv_def pt_exit_def by (auto simp: process_ok_def split: option.splits)

lemma pt_inv_bump: "pt_inv t \<Longrightarrow> pt_inv (bump_generation pid t)"
  unfolding pt_inv_def bump_generation_def by simp

section \<open>Histories of table operations\<close>

datatype 't pt_op =
    OpClone "pid option" credentials "pid \<Rightarrow> 't namespace \<times> u32"
  | OpCommit pid exec_spec
  | OpDiscard pid
  | OpReplace pid "'t namespace"
  | OpExit pid int
  | OpBump pid

fun pt_apply :: "'t pt_op \<Rightarrow> 't process_table \<Rightarrow> pid list \<times> 't process_table" where
  "pt_apply (OpClone parent cred build) t =
     (case clone_begin_with_namespace_generation parent cred build t of
        (Some pid, t') \<Rightarrow> ([pid], t') | (None, t') \<Rightarrow> ([], t'))"
| "pt_apply (OpCommit slot exec) t = ([], snd (pt_commit slot exec t))"
| "pt_apply (OpDiscard slot) t = ([], pt_discard slot t)"
| "pt_apply (OpReplace slot ns) t = ([], snd (replace_pending_namespace slot ns t))"
| "pt_apply (OpExit pid code) t = ([], pt_exit pid code t)"
| "pt_apply (OpBump pid) t = ([], bump_generation pid t)"

fun pt_run :: "'t pt_op list \<Rightarrow> 't process_table \<Rightarrow> pid list \<times> 't process_table" where
  "pt_run [] t = ([], t)"
| "pt_run (op # ops) t =
     (let (pids, t1) = pt_apply op t; (rest, t2) = pt_run ops t1 in (pids @ rest, t2))"

lemma clone_next [simp]:
  "pt_next (snd (clone_begin_with_namespace_generation parent cred build t)) = pt_next t + 1"
  "fst (clone_begin_with_namespace_generation parent cred build t) = Some (pt_next t)"
  by (simp_all add: clone_begin_with_namespace_generation_def alloc_pid_def case_prod_beta Let_def)

lemma other_next [simp]:
  "pt_next (snd (pt_commit slot exec t)) = pt_next t" "pt_next (pt_discard slot t) = pt_next t"
  "pt_next (snd (replace_pending_namespace slot ns t)) = pt_next t"
  "pt_next (pt_exit pid code t) = pt_next t" "pt_next (bump_generation pid t) = pt_next t"
  by (simp_all add: pt_op_defs split: option.splits)

lemma pt_apply_cases:
  "pt_apply op t = ([], t') \<Longrightarrow> pt_next t' = pt_next t"
  "pt_apply op t = (pids, t') \<Longrightarrow> pids = [] \<or> (pids = [pt_next t] \<and> pt_next t' = pt_next t + 1)"
  by (cases op; auto split: prod.splits option.splits simp: clone_begin_with_namespace_generation_def
      alloc_pid_def)+

lemma pt_apply_inv:
  assumes "pt_inv t" "pt_next t \<noteq> - 1"
  shows "pt_inv (snd (pt_apply op t))"
  using assms
  by (cases op) (simp_all add: case_prod_beta pt_inv_clone_begin pt_inv_commit pt_inv_discard
      pt_inv_replace pt_inv_exit pt_inv_bump split: option.splits)

lemma word_next:
  fixes b :: u64
  assumes "unat b + 1 < 2 ^ 64"
  shows "unat (b + 1) = unat b + 1" "b \<noteq> - 1"
proof -
  show u: "unat (b + 1) = unat b + 1" using assms by (simp add: unat_word_ariths)
  show "b \<noteq> - 1" using u by auto
qed

lemma pt_run_inv:
  assumes "pt_inv t" "unat (pt_next t) + length ops < 2 ^ 64" "pt_run ops t = (pids, t')"
  shows "pt_inv t' \<and> distinct pids \<and> pt_next t \<le> pt_next t' \<and>
    unat (pt_next t') \<le> unat (pt_next t) + length ops \<and>
    (\<forall>pid\<in>set pids. pt_next t \<le> pid \<and> pid < pt_next t')"
  using assms
proof (induction ops arbitrary: t pids)
  case (Cons op ops)
  obtain p1 t1 where a: "pt_apply op t = (p1, t1)" by fastforce
  obtain p2 where r: "pt_run ops t1 = (p2, t')" and pids: "pids = p1 @ p2"
    using Cons.prems(3) a by (auto split: prod.splits)
  have nx: "unat (pt_next t + 1) = unat (pt_next t) + 1" "pt_next t \<noteq> - 1"
    using Cons.prems(2) by (intro word_next; simp)+
  have inv: "pt_inv t1" using pt_apply_inv [OF Cons.prems(1) nx(2), of op] a by simp
  consider "p1 = []" "pt_next t1 = pt_next t" | "p1 = [pt_next t]" "pt_next t1 = pt_next t + 1"
    using pt_apply_cases a by blast
  then show ?case
  proof cases
    case 1
    then show ?thesis using Cons.IH [OF inv _ r] Cons.prems(2) pids by simp
  next
    case 2
    then have "unat (pt_next t1) + length ops < 2 ^ 64" using Cons.prems(2) nx by simp
    note IH = Cons.IH [OF inv this r]
    have "pt_next t < pt_next t1" using 2 word_less_Suc [OF nx(2)] by simp
    with IH 2 nx pids show ?thesis by (fastforce simp: word_le_nat_alt word_less_nat_alt)
  qed
qed simp

section \<open>Manifests\<close>

definition component_ok :: "string \<Rightarrow> bool" where
  "component_ok c \<longleftrightarrow> c \<noteq> [] \<and> CHR ''/'' \<notin> set c"

lemma split_path_ok: "c \<in> set (split_path path) \<Longrightarrow> component_ok c"
  by (auto simp: split_path_def component_ok_def dest: split_on_pieces)

lemma split_mount_path:
  assumes "\<forall>c\<in>set prefix. component_ok c"
  shows "split_path (mount_path prefix) = prefix"
proof (cases "prefix = []")
  case True
  then show ?thesis by (simp add: split_path_def mount_path_def)
next
  case False
  have "split_on (CHR ''/'') (join_with ''/'' prefix) = prefix"
    using False assms by (intro split_on_join) (auto simp: component_ok_def)
  then have "split_on (CHR ''/'') (mount_path prefix) = [] # prefix"
    using False by (simp add: mount_path_def)
  moreover have "filter (\<lambda>s. s \<noteq> []) prefix = prefix"
    using assms by (auto simp: component_ok_def filter_id_conv)
  ultimately show ?thesis by (simp add: split_path_def)
qed

definition mount_request :: "'t mount \<Rightarrow> string \<times> access" where
  "mount_request m = (mount_path (mount_prefix m), mount_access m)"

lemma manifest_requests:
  "normalized_access_mounts (manifest_from_snapshot ns g) = sort_key fst (map mount_request (ns_mounts ns))"
  by (simp add: normalized_access_mounts_def manifest_from_snapshot_def manifest_normalized_def
      describe_def exec_namespace_mount_new_def sort_key_map mount_request_def o_def)

text \<open>Claiming the requests of a namespace's own manifest, in sorted order, gives each mount its own
  access back: equal paths come in mount order, so the first free mount is always the right one.\<close>

definition claimed :: "'t mount list \<Rightarrow> nat set \<Rightarrow> explicit_access" where
  "claimed ms done = map (\<lambda>i. if i \<in> done then Some (mount_access (ms ! i)) else None) [0..<length ms]"

lemma find_upt_first: "i < n \<Longrightarrow> P i \<Longrightarrow> (\<And>j. j < i \<Longrightarrow> \<not> P j) \<Longrightarrow> find P [0..<n] = Some i"
  by (auto simp: find_Some_iff intro!: exI [of _ i])

lemma claim_own_request:
  assumes i: "i < length ms" "i \<notin> done" and ok: "split_path (mount_path (mount_prefix (ms ! i))) = mount_prefix (ms ! i)"
    and before: "\<And>j. j < i \<Longrightarrow> mount_prefix (ms ! j) = mount_prefix (ms ! i) \<Longrightarrow> j \<in> done"
  shows "claim_request ms (mount_request (ms ! i)) (claimed ms done) = Some (claimed ms (insert i done))"
proof -
  let ?P = "\<lambda>j. claimed ms done ! j = None \<and> mount_prefix (ms ! j) = split_path (fst (mount_request (ms ! i))) \<and>
    satisfies_access (mount_access (ms ! j)) (snd (mount_request (ms ! i)))"
  have "?P i" using i ok by (simp add: claimed_def mount_request_def satisfies_access_le)
  moreover have "\<not> ?P j" if "j < i" for j
    using that before [OF that] i ok by (auto simp: claimed_def mount_request_def)
  ultimately have "find ?P [0..<length ms] = Some i"
    using i(1) by (intro find_upt_first)
  moreover have "(claimed ms done)[i := Some (mount_access (ms ! i))] = claimed ms (insert i done)"
    using i by (auto simp: claimed_def nth_list_update intro!: nth_equalityI)
  ultimately show ?thesis by (simp add: claim_request_def mount_request_def)
qed

lemma claim_own_requests:
  assumes "\<forall>m\<in>set ms. \<forall>c\<in>set (mount_prefix m). component_ok c"
    and "sort_key (\<lambda>i. mount_path (mount_prefix (ms ! i))) [0..<length ms] = pre @ post"
  shows "claim_requests ms (map (\<lambda>i. mount_request (ms ! i)) post) (claimed ms (set pre)) =
    Some (claimed ms (set (pre @ post)))"
  using assms(2)
proof (induction post arbitrary: pre)
  case (Cons i post)
  let ?key = "\<lambda>i. mount_path (mount_prefix (ms ! i))"
  have "distinct (pre @ i # post)" "set (pre @ i # post) = {0..<length ms}"
    using Cons.prems by (metis distinct_sort distinct_upt) (use Cons.prems in \<open>metis set_sort set_upt\<close>)
  then have i: "i < length ms" "i \<notin> set pre" by auto
  have "claim_request ms (mount_request (ms ! i)) (claimed ms (set pre)) =
      Some (claimed ms (insert i (set pre)))"
  proof (rule claim_own_request)
    show "split_path (mount_path (mount_prefix (ms ! i))) = mount_prefix (ms ! i)"
      using assms(1) i by (intro split_mount_path) auto
    show "j \<in> set pre" if "j < i" "mount_prefix (ms ! j) = mount_prefix (ms ! i)" for j
      using sort_key_upt_stable [OF Cons.prems that(1)] that(2) by simp
  qed (use i in auto)
  then show ?case using Cons.IH [of "pre @ [i]"] Cons.prems by simp
qed simp

lemma manifest_roundtrip:
  assumes "\<forall>m\<in>set (ns_mounts ns). \<forall>c\<in>set (mount_prefix m). component_ok c"
  shows "namespace_subset_from (manifest_from_snapshot ns g) ns = Some ns"
proof -
  let ?ms = "ns_mounts ns" and ?idx = "sort_key (\<lambda>i. mount_path (mount_prefix (ns_mounts ns ! i))) [0..<length (ns_mounts ns)]"
  have "map mount_request ?ms = map (\<lambda>i. mount_request (?ms ! i)) [0..<length ?ms]"
    by (rule nth_equalityI) simp_all
  then have req: "normalized_access_mounts (manifest_from_snapshot ns g) = map (\<lambda>i. mount_request (?ms ! i)) ?idx"
    unfolding manifest_requests by (simp add: sort_key_map mount_request_def)
  have "set ?idx = {0..<length ?ms}" by simp
  then have "claim_requests ?ms (map (\<lambda>i. mount_request (?ms ! i)) ?idx) (claimed ?ms {}) =
      Some (claimed ?ms {0..<length ?ms})"
    using claim_own_requests [OF assms, of "[]" ?idx] by simp
  moreover have "claimed ?ms {} = replicate (length ?ms) None"
    by (rule nth_equalityI) (simp_all add: claimed_def)
  ultimately have c: "claim_requests ?ms (normalized_access_mounts (manifest_from_snapshot ns g))
      (replicate (length ?ms) None) = Some (claimed ?ms {0..<length ?ms})"
    using req by simp
  let ?e = "claimed ?ms {0..<length ?ms}"
  have e: "?e ! i = Some (mount_access (?ms ! i))" if "i < length ?ms" for i
    using that by (simp add: claimed_def)
  have "\<not> has_unsafe_omitted_descendant ?ms ?e"
    using e by (auto simp: has_unsafe_omitted_descendant_def list_ex_iff)
  moreover have "concat (map (\<lambda>i. case restricted_access ?ms ?e i of None \<Rightarrow> []
      | Some access \<Rightarrow> [Mount (mount_prefix (?ms ! i)) (mount_tree (?ms ! i)) access]) [0..<length ?ms]) =
      map ((!) ?ms) [0..<length ?ms]"
    by (subst concat_map_singleton [symmetric], rule arg_cong [of _ _ concat], rule map_cong)
      (use e in \<open>auto simp: restricted_access_def\<close>)
  ultimately show ?thesis
    using c by (simp add: namespace_subset_from_def restrict_to_mounts_def map_nth)
qed

section \<open>Properties\<close>

text \<open>
  (C12) Pids are never reused: over every history of table operations from boot that is shorter than
  the pid space, the allocated pids are distinct and non-zero, the table stays well-formed (pending
  and public pids disjoint, entries filed under their own pid, an exit code exactly when exited),
  and every pid in the table has been allocated.
\<close>

theorem pids_never_reused:
  assumes "length ops < 2 ^ 64 - 1" "pt_run ops process_table_new = (pids, t)"
  shows "pt_inv t \<and> distinct pids \<and> 0 \<notin> set pids \<and> (\<forall>pid\<in>set pids. pid < pt_next t)"
  using pt_run_inv [OF pt_inv_new _ assms(2)] assms(1)
  by (fastforce simp: process_table_new_def)

theorem pids_never_reused_witness:
  "\<exists>pids t. pt_run [OpClone None credentials_system (\<lambda>_. (namespace_new :: nat namespace, 0)), OpDiscard 1,
       OpClone None credentials_system (\<lambda>_. (namespace_new, 0))] process_table_new = (pids, t) \<and>
     pids = [1, 2] \<and> pt_inv t \<and> distinct pids"
proof -
  let ?ops = "[OpClone None credentials_system (\<lambda>_. (namespace_new :: nat namespace, 0)), OpDiscard 1,
    OpClone None credentials_system (\<lambda>_. (namespace_new, 0))]"
  obtain pids t where run: "pt_run ?ops process_table_new = (pids, t)" by fastforce
  then have "pids = [1, 2]"
    by (auto simp: clone_begin_with_namespace_generation_def alloc_pid_def process_table_new_def
        pt_discard_def split: prod.splits)
  with run pids_never_reused [OF _ run] show ?thesis by simp
qed

text \<open>
  (C13) Spawning is staged: beginning, discarding or re-scoping a slot leaves the public listing and
  its generation alone, a discarded slot cannot be committed, and a commit publishes exactly its own
  slot, running in the namespace the slot held, and moves the listing generation.
\<close>

theorem spawn_is_staged:
  "pt_list (snd (clone_begin_with_namespace_generation parent cred build t)) = pt_list t \<and>
   listing_generation (snd (clone_begin_with_namespace_generation parent cred build t)) = listing_generation t \<and>
   pt_list (pt_discard slot t) = pt_list t \<and> listing_generation (pt_discard slot t) = listing_generation t \<and>
   pt_list (snd (replace_pending_namespace slot ns t)) = pt_list t \<and>
   pt_commit slot exec (pt_discard slot t) = (None, pt_discard slot t) \<and>
   (\<forall>t'. pt_commit slot exec t = (Some slot, t') \<longrightarrow>
      set (pt_list t') = insert slot (set (pt_list t)) \<and>
      listing_generation t' = listing_generation t + 1 \<and>
      map_option proc_namespace (pt_get t' slot) = pending_namespace t slot \<and>
      map_option proc_status (pt_get t' slot) = Some Running \<and> pending_namespace t' slot = None)"
  unfolding pt_list_def listing_generation_def clone_begin_with_namespace_generation_def alloc_pid_def
    pt_discard_def replace_pending_namespace_def pt_commit_def pending_namespace_def pt_get_def
  by (auto simp: case_prod_beta Let_def split: option.splits simp flip: set_map)

theorem spawn_is_staged_witness:
  "\<exists>slot t' (t :: nat process_table). pt_commit slot \<lparr>exec_executable = ''/bin/sh'', exec_args = [],
       exec_namespace = manifest_from_namespace (namespace_new :: nat namespace), exec_descriptors = []\<rparr> t = (Some slot, t') \<and>
     pt_list t = [] \<and> set (pt_list t') = {slot}"
proof -
  let ?t = "snd (clone_begin None (namespace_new :: nat namespace) credentials_system process_table_new)"
  let ?exec = "\<lparr>exec_executable = ''/bin/sh'', exec_args = [],
       exec_namespace = manifest_from_namespace (namespace_new :: nat namespace), exec_descriptors = []\<rparr>"
  let ?t' = "snd (pt_commit 1 ?exec ?t)"
  have c: "pt_commit 1 ?exec ?t = (Some 1, ?t')" and l: "pt_list ?t = []"
    by (simp_all add: clone_begin_def clone_begin_with_namespace_generation_def alloc_pid_def
        process_table_new_def pt_commit_def pt_list_def)
  have "set (pt_list ?t') = insert 1 (set (pt_list ?t))"
    using spawn_is_staged [of None credentials_system "\<lambda>_. (namespace_new, 0)" ?t 1 namespace_new ?exec] c
    by blast
  with c l show ?thesis by (metis empty_set)
qed

text \<open>
  Termination is recorded once: whatever exit codes are reported later for the same pid, the
  table keeps the first.
\<close>

lemma exit_recorded_once:
  "pt_exit pid code' (pt_exit pid code t) = pt_exit pid code t"
  by (auto simp: pt_exit_def split: option.splits)

text \<open>
  (C14) A manifest taken from a namespace is accepted by that namespace and restricts it to exactly
  itself, for every generation and even when several trees are mounted at one path, provided the
  mount prefixes are made of path components (non-empty, without a slash) as mounting makes them.
\<close>

theorem manifest_of_namespace_is_identity:
  assumes "\<forall>m\<in>set (ns_mounts ns). \<forall>c\<in>set (mount_prefix m). component_ok c"
  shows "namespace_subset_from (manifest_from_snapshot ns generation) ns = Some ns"
  using assms by (rule manifest_roundtrip)

theorem manifest_of_namespace_is_identity_witness:
  "let ns = Namespace [Mount [''b''] (1 :: nat) ReadOnly, Mount [''a''] 2 ReadWrite, Mount [''b''] 3 ReadWrite] in
   namespace_subset_from (manifest_from_snapshot ns 5) ns = Some ns"
  unfolding Let_def
  by (rule manifest_of_namespace_is_identity) (simp add: component_ok_def)

end
