(* ===== verification/Srv_Fs.thy ===== *)
theory Srv_Fs
  imports Kernel_Namespace
begin

text \<open>
  The \<open>/srv\<close> rendezvous device (\<open>crates/kernel/src/srvfs.rs\<close>): a live registry of posted handles
  and the views of it, each with its own deny set and fids. The registry is shared, so operations
  take it beside the view. The standard library's default hasher, which the code feeds with names
  and qid paths, is the parameter \<open>hasher\<close>.
\<close>

section \<open>The registry\<close>

record 't handle =
  h_name :: string
  h_tree :: 't
  h_access :: access
  h_qid_path :: u64

record 't registry =
  reg_handles :: "'t handle list"
  reg_next_qid :: u64

definition registry_new :: "'t registry" where
  "registry_new = \<lparr>reg_handles = [], reg_next_qid = 1\<rparr>"

definition srv_post :: "string \<Rightarrow> 't \<Rightarrow> access \<Rightarrow> 't registry \<Rightarrow> 't registry" where
  "srv_post name tree access reg =
     \<lparr>reg_handles = filter (\<lambda>h. h_name h \<noteq> name) (reg_handles reg) @
        [\<lparr>h_name = name, h_tree = tree, h_access = access, h_qid_path = reg_next_qid reg\<rparr>],
      reg_next_qid = reg_next_qid reg + 1\<rparr>"

definition srv_unpost :: "string \<Rightarrow> 't registry \<Rightarrow> bool \<times> 't registry" where
  "srv_unpost name reg =
     (let handles = filter (\<lambda>h. h_name h \<noteq> name) (reg_handles reg) in
      (length handles \<noteq> length (reg_handles reg), reg\<lparr>reg_handles := handles\<rparr>))"

section \<open>Views\<close>

datatype srv_node = SrvRoot | SrvHandle string

record srv_view =
  sv_denied :: "string set"
  sv_fids :: "fid \<rightharpoonup> srv_node"

definition srv_new :: srv_view where
  "srv_new = \<lparr>sv_denied = {}, sv_fids = Map.empty\<rparr>"

definition srv_visible :: "srv_view \<Rightarrow> string \<Rightarrow> bool" where
  "srv_visible v name \<longleftrightarrow> name \<notin> sv_denied v"

definition visible_handles :: "'t registry \<Rightarrow> srv_view \<Rightarrow> 't handle list" where
  "visible_handles reg v = filter (\<lambda>h. srv_visible v (h_name h)) (reg_handles reg)"

definition srv_list :: "'t registry \<Rightarrow> srv_view \<Rightarrow> string list" where
  "srv_list reg v = map h_name (visible_handles reg v)"

definition srv_find :: "'t registry \<Rightarrow> string \<Rightarrow> 't handle option" where
  "srv_find reg name = find (\<lambda>h. h_name h = name) (reg_handles reg)"

definition srv_lookup :: "'t registry \<Rightarrow> srv_view \<Rightarrow> string \<Rightarrow> ('t \<times> access) option" where
  "srv_lookup reg v name =
     (if \<not> srv_visible v name then None
      else map_option (\<lambda>h. (h_tree h, h_access h)) (srv_find reg name))"

definition srv_sub_view :: "srv_view \<Rightarrow> string set \<Rightarrow> srv_view" where
  "srv_sub_view v denied = \<lparr>sv_denied = sv_denied v \<union> denied, sv_fids = Map.empty\<rparr>"

type_synonym srv_hasher = "(string \<times> u64) list \<Rightarrow> u64"

definition srv_qid_of :: "srv_hasher \<Rightarrow> 't registry \<Rightarrow> srv_view \<Rightarrow> srv_node \<Rightarrow> qid" where
  "srv_qid_of hasher reg v node =
     (case node of
        SrvRoot \<Rightarrow>
          \<lparr>qid_kind = KDir,
           qid_version = ucast (hasher (map (\<lambda>h. (h_name h, h_qid_path h)) (visible_handles reg v))),
           qid_path = 0\<rparr>
      | SrvHandle name \<Rightarrow>
          \<lparr>qid_kind = KFile, qid_version = 0,
           qid_path = (case srv_find reg name of Some h \<Rightarrow> h_qid_path h | None \<Rightarrow> 0)\<rparr>)"

definition srv_node_of :: "srv_view \<Rightarrow> fid \<Rightarrow> srv_node res" where
  "srv_node_of v fid = (if fid = ROOT then Ok SrvRoot else ok_or (sv_fids v fid) NotFound)"

section \<open>The file server\<close>

type_synonym 't srv_state = "'t registry \<times> srv_view"

definition srv_target :: "'t registry \<Rightarrow> srv_view \<Rightarrow> srv_node \<Rightarrow> string list \<Rightarrow> srv_node res" where
  "srv_target reg v start names =
     (case names of
        [] \<Rightarrow> Ok start
      | [name] \<Rightarrow>
          (case start of
             SrvRoot \<Rightarrow>
               if srv_visible v name \<and> srv_find reg name \<noteq> None then Ok (SrvHandle name) else Err NotFound
           | SrvHandle _ \<Rightarrow> Err NotDirectory)
      | _ \<Rightarrow> Err NotDirectory)"

definition srv_walk ::
  "srv_hasher \<Rightarrow> fid \<Rightarrow> fid \<Rightarrow> string list \<Rightarrow> 't srv_state \<Rightarrow> qid res \<times> 't srv_state" where
  "srv_walk hasher fid newfid names = (\<lambda>(reg, v).
     if newfid = ROOT \<or> sv_fids v newfid \<noteq> None then (Err BadRequest, (reg, v))
     else
       (case srv_node_of v fid of
          Inl e \<Rightarrow> (Err e, (reg, v))
        | Inr start \<Rightarrow>
            (case srv_target reg v start names of
               Inl e \<Rightarrow> (Err e, (reg, v))
             | Inr node \<Rightarrow>
                 (Ok (srv_qid_of hasher reg v node), (reg, v\<lparr>sv_fids := (sv_fids v)(newfid \<mapsto> node)\<rparr>)))))"

definition srv_open :: "srv_hasher \<Rightarrow> fid \<Rightarrow> open_mode \<Rightarrow> 't srv_state \<Rightarrow> qid res \<times> 't srv_state" where
  "srv_open hasher fid mode = (\<lambda>(reg, v).
     (map_sum id (srv_qid_of hasher reg v) (srv_node_of v fid), (reg, v)))"

definition srv_bytes :: "'t registry \<Rightarrow> srv_view \<Rightarrow> srv_node \<Rightarrow> bytes" where
  "srv_bytes reg v node =
     (case node of SrvRoot \<Rightarrow> join_with [newline] (srv_list reg v) | SrvHandle name \<Rightarrow> name)"

definition srv_read :: "fid \<Rightarrow> offset \<Rightarrow> u32 \<Rightarrow> 't srv_state \<Rightarrow> bytes res \<times> 't srv_state" where
  "srv_read fid offset count = (\<lambda>(reg, v).
     (map_sum id (\<lambda>node. slice (srv_bytes reg v node) offset count) (srv_node_of v fid), (reg, v)))"

definition srv_write :: "fid \<Rightarrow> offset \<Rightarrow> bytes \<Rightarrow> 't srv_state \<Rightarrow> u32 res \<times> 't srv_state" where
  "srv_write fid offset data s = (Err Unsupported, s)"

definition srv_stat :: "srv_hasher \<Rightarrow> fid \<Rightarrow> 't srv_state \<Rightarrow> stat res \<times> 't srv_state" where
  "srv_stat hasher fid = (\<lambda>(reg, v).
     (map_sum id (\<lambda>node. \<lparr>stat_name = [], stat_qid = srv_qid_of hasher reg v node,
        stat_length = of_nat (length (srv_bytes reg v node)), stat_executable = False,
        stat_writable = False\<rparr>) (srv_node_of v fid), (reg, v)))"

definition srv_create ::
  "fid \<Rightarrow> fid \<Rightarrow> string \<Rightarrow> file_kind \<Rightarrow> 't srv_state \<Rightarrow> qid res \<times> 't srv_state" where
  "srv_create fid newfid name kind s = (Err Unsupported, s)"

definition srv_remove :: "fid \<Rightarrow> 't srv_state \<Rightarrow> unit res \<times> 't srv_state" where
  "srv_remove fid s = (Err Unsupported, s)"

definition srv_clunk :: "fid \<Rightarrow> 't srv_state \<Rightarrow> unit res \<times> 't srv_state" where
  "srv_clunk fid = (\<lambda>(reg, v). (Ok (), (reg, v\<lparr>sv_fids := (sv_fids v)(fid := None)\<rparr>)))"

definition srv_server :: "srv_hasher \<Rightarrow> 't srv_state file_server" where
  "srv_server hasher =
     \<lparr>fs_walk = (\<lambda>f n ns s. ready (srv_walk hasher f n ns s)), fs_open = (\<lambda>f m s. ready (srv_open hasher f m s)),
      fs_read = (\<lambda>f off c s. ready (srv_read f off c s)), fs_write = (\<lambda>f off d s. ready (srv_write f off d s)),
      fs_stat = (\<lambda>f s. ready (srv_stat hasher f s)), fs_create = (\<lambda>f n nm k s. ready (srv_create f n nm k s)),
      fs_remove = (\<lambda>f s. ready (srv_remove f s)), fs_clunk = (\<lambda>f s. ready (srv_clunk f s))\<rparr>"

lemmas srv_op_defs = srv_walk_def srv_open_def srv_read_def srv_write_def srv_stat_def srv_create_def
  srv_remove_def srv_clunk_def

definition srv_live :: "'t srv_state \<Rightarrow> fid set" where
  "srv_live s = dom (sv_fids (snd s))"

interpretation srv: fid_server "srv_server hasher" srv_live
  by unfold_locales
    (auto simp: srv_server_def srv_live_def srv_op_defs case_prod_beta split: sum.splits if_splits)

section \<open>The registry names each service once\<close>

definition reg_inv :: "'t registry \<Rightarrow> bool" where
  "reg_inv reg \<longleftrightarrow> distinct (map h_name (reg_handles reg))"

lemma reg_inv_new [simp]: "reg_inv registry_new"
  by (simp add: reg_inv_def registry_new_def)

lemma distinct_map_filter_name: "distinct (map f xs) \<Longrightarrow> distinct (map f (filter P xs))"
  by (induction xs) auto

lemma reg_inv_post: "reg_inv reg \<Longrightarrow> reg_inv (srv_post name tree access reg)"
  by (auto simp: reg_inv_def srv_post_def distinct_map_filter_name)

lemma reg_inv_unpost: "reg_inv reg \<Longrightarrow> reg_inv (snd (srv_unpost name reg))"
  by (simp add: reg_inv_def srv_unpost_def Let_def distinct_map_filter_name)

lemma find_filter_other: "\<forall>x. Q x \<longrightarrow> P x \<Longrightarrow> find Q (filter P xs) = find Q xs"
  by (induction xs) auto

lemma find_append: "find P (xs @ ys) = (case find P xs of None \<Rightarrow> find P ys | r \<Rightarrow> r)"
  by (induction xs) auto

lemma find_filter_none: "\<forall>x. Q x \<longrightarrow> \<not> P x \<Longrightarrow> find Q (filter P xs) = None"
  by (induction xs) auto

lemma srv_find_post:
  "srv_find (srv_post name tree access reg) name' =
     (if name' = name
      then Some \<lparr>h_name = name, h_tree = tree, h_access = access, h_qid_path = reg_next_qid reg\<rparr>
      else srv_find reg name')"
  by (auto simp: srv_find_def srv_post_def find_append find_filter_none find_filter_other split: option.splits)

lemma srv_find_unpost:
  "srv_find (snd (srv_unpost name reg)) name' = (if name' = name then None else srv_find reg name')"
  by (auto simp: srv_find_def srv_unpost_def Let_def find_filter_none find_filter_other)

section \<open>Denied services are absent\<close>

definition view_ok :: "srv_view \<Rightarrow> bool" where
  "view_ok v \<longleftrightarrow> (\<forall>f name. sv_fids v f = Some (SrvHandle name) \<longrightarrow> srv_visible v name)"

text \<open>Two registries look the same through a view when they agree on every visible service.\<close>

definition same_view :: "srv_view \<Rightarrow> 't registry \<Rightarrow> 't registry \<Rightarrow> bool" where
  "same_view v reg reg' \<longleftrightarrow> visible_handles reg v = visible_handles reg' v \<and>
     (\<forall>name. srv_visible v name \<longrightarrow> srv_find reg name = srv_find reg' name)"

lemma visible_handles_hidden:
  assumes "name \<in> sv_denied v"
  shows "visible_handles (srv_post name tree access reg) v = visible_handles reg v"
    "visible_handles (snd (srv_unpost name reg)) v = visible_handles reg v"
  using assms
  by (auto simp: visible_handles_def srv_post_def srv_unpost_def srv_visible_def Let_def intro!: filter_cong)

lemma same_view_hidden:
  assumes "name \<in> sv_denied v"
  shows "same_view v reg (srv_post name tree access reg)"
    "same_view v reg (snd (srv_unpost name reg))"
  using assms
  by (auto simp: same_view_def visible_handles_hidden srv_find_post srv_find_unpost srv_visible_def)

lemma same_view_node:
  assumes "same_view v reg reg'" "view_ok v" "srv_node_of v fid = Ok node"
  shows "srv_qid_of hasher reg v node = srv_qid_of hasher reg' v node"
    "srv_bytes reg v node = srv_bytes reg' v node"
    "srv_target reg v node names = srv_target reg' v node names"
proof -
  have vis: "srv_visible v name" if "node = SrvHandle name" for name
    using assms(2,3) that by (auto simp: view_ok_def srv_node_of_def ok_or_def split: if_splits option.splits)
  show "srv_qid_of hasher reg v node = srv_qid_of hasher reg' v node"
    "srv_bytes reg v node = srv_bytes reg' v node"
    using assms(1) vis by (auto simp: same_view_def srv_qid_of_def srv_bytes_def srv_list_def split: srv_node.splits)
  show "srv_target reg v node names = srv_target reg' v node names"
    using assms(1) by (auto simp: same_view_def srv_target_def split: list.splits srv_node.splits)
qed

lemma same_view_target_qid:
  assumes "same_view v reg reg'" "view_ok v" "srv_node_of v fid = Ok start" "srv_target reg v start names = Ok node"
  shows "srv_qid_of hasher reg v node = srv_qid_of hasher reg' v node"
proof -
  have "node = start \<or> (\<exists>name. node = SrvHandle name \<and> srv_visible v name)"
    using assms(4) by (auto simp: srv_target_def split: list.splits srv_node.splits if_splits)
  then show ?thesis
  proof
    assume "node = start"
    then show ?thesis using same_view_node(1) [OF assms(1-3)] by simp
  qed (use assms(1) in \<open>auto simp: same_view_def srv_qid_of_def\<close>)
qed

lemma srv_call_same_view:
  assumes "same_view v reg reg'" "view_ok v"
    and call: "in_process_call (srv_server hasher) req (reg, v) = (r, (reg1, v1))"
  shows "in_process_call (srv_server hasher) req (reg', v) = (r, (reg', v1)) \<and> reg1 = reg \<and>
    view_ok v1 \<and> same_view v1 reg reg'"
proof -
  have node: "srv_qid_of hasher reg v n = srv_qid_of hasher reg' v n" "srv_bytes reg v n = srv_bytes reg' v n"
      "srv_target reg v n ns = srv_target reg' v n ns" if "srv_node_of v f = Ok n" for f n ns
    using same_view_node [OF assms(1,2) that] by auto
  have tgt: "srv_qid_of hasher reg v n = srv_qid_of hasher reg' v n"
    if "srv_node_of v f = Ok st" "srv_target reg v st ns = Ok n" for f st ns n
    using same_view_target_qid [OF assms(1,2) that] by auto
  have vis: "srv_visible v name" if "srv_node_of v f = Ok st" "srv_target reg v st ns = Ok (SrvHandle name)" for f st ns name
    using that assms(2)
    by (auto simp: srv_target_def view_ok_def srv_node_of_def ok_or_def
        split: list.splits srv_node.splits if_splits option.splits)
  show ?thesis
  proof (cases req)
    case (ReqWalk f n ns)
    show ?thesis
    proof (cases "n = ROOT \<or> sv_fids v n \<noteq> None")
      case True
      then show ?thesis using call assms(1,2) by (auto simp: ReqWalk srv_server_def srv_walk_def map_ok_def)
    next
      case free: False
      show ?thesis
      proof (cases "srv_node_of v f")
        case (Inl e)
        then show ?thesis using call free assms(1,2) by (auto simp: ReqWalk srv_server_def srv_walk_def map_ok_def)
      next
        case st: (Inr st)
        show ?thesis
        proof (cases "srv_target reg v st ns")
          case (Inl e)
          then show ?thesis using call free st node(3) [OF st] assms(1,2)
            by (auto simp: ReqWalk srv_server_def srv_walk_def map_ok_def)
        next
          case (Inr nd)
          let ?v1 = "v\<lparr>sv_fids := (sv_fids v)(n \<mapsto> nd)\<rparr>"
          have "view_ok ?v1" using assms(2) vis [OF st] Inr by (auto simp: view_ok_def srv_visible_def)
          moreover have "same_view ?v1 reg reg'"
            using assms(1) by (simp add: same_view_def visible_handles_def srv_visible_def)
          ultimately show ?thesis using call free st Inr node(3) [OF st, of ns] tgt [OF st Inr]
            by (auto simp: ReqWalk srv_server_def srv_walk_def map_ok_def)
        qed
      qed
    qed
  next
    case (ReqOpen f m)
    then show ?thesis using call assms(1,2) node(1)
      by (cases "srv_node_of v f") (auto simp: srv_server_def srv_open_def map_ok_def)
  next
    case (ReqRead f off c)
    then show ?thesis using call assms(1,2) node(2)
      by (cases "srv_node_of v f") (auto simp: srv_server_def srv_read_def map_ok_def)
  next
    case (ReqStat f)
    then show ?thesis using call assms(1,2) node(1,2)
      by (cases "srv_node_of v f") (auto simp: srv_server_def srv_stat_def map_ok_def)
  next
    case (ReqClunk f)
    then show ?thesis using call assms(1,2)
      by (auto simp: srv_server_def srv_clunk_def map_ok_def view_ok_def same_view_def visible_handles_def
          srv_visible_def split: if_splits)
  qed (use call assms(1,2) in \<open>auto simp: srv_server_def srv_write_def srv_create_def srv_remove_def map_ok_def\<close>)
qed

lemma srv_run_same_view:
  assumes "same_view v reg reg'" "view_ok v"
  shows "fst (in_process_run (srv_server hasher) reqs (reg, v)) =
    fst (in_process_run (srv_server hasher) reqs (reg', v))"
  using assms
proof (induction reqs arbitrary: v)
  case (Cons req reqs)
  obtain r reg1 v1 where c: "in_process_call (srv_server hasher) req (reg, v) = (r, (reg1, v1))"
    by (metis prod.exhaust)
  note same = srv_call_same_view [OF Cons.prems c]
  then have "fst (in_process_run (srv_server hasher) reqs (reg, v1)) =
      fst (in_process_run (srv_server hasher) reqs (reg', v1))"
    by (intro Cons.IH) auto
  with c same show ?case by (simp add: in_process_run.simps Let_def case_prod_beta)
qed simp

section \<open>Properties\<close>

text \<open>
  (C15) A service withheld from a view does not exist there: it is not listed, cannot be looked up
  and cannot be walked to, through the view or any further restriction of it.
\<close>

theorem denied_service_is_absent:
  assumes "name \<in> sv_denied v"
  shows "name \<notin> set (srv_list reg v) \<and> srv_lookup reg v name = None \<and>
    srv_lookup reg (srv_sub_view v extra) name = None \<and>
    (\<forall>newfid q s'. srv_walk hasher ROOT newfid [name] (reg, v) \<noteq> (Ok q, s'))"
  using assms
  by (auto simp: srv_list_def visible_handles_def srv_visible_def srv_lookup_def srv_sub_view_def
      srv_walk_def srv_target_def srv_node_of_def split: if_splits)

theorem denied_service_is_absent_witness:
  "''secret'' \<in> sv_denied (srv_sub_view srv_new {''secret''}) \<and>
   srv_lookup (srv_post ''secret'' (5 :: nat) ReadWrite registry_new) (srv_sub_view srv_new {''secret''}) ''secret'' = None"
  using denied_service_is_absent [of "''secret''" "srv_sub_view srv_new {''secret''}"
      "srv_post ''secret'' (5 :: nat) ReadWrite registry_new" "{}" "\<lambda>_. 0"]
  by (simp add: srv_sub_view_def)



text \<open>
  The qid counter is shared with withheld services, so the isolation above holds only until the
  next visible post: a hidden post shifts the qid path that every later visible service gets, which
  the restricted view reads by walking to it.
\<close>

lemma hidden_post_shifts_later_qids:
  assumes "name \<in> sv_denied v" "srv_visible v other" "sv_fids v newfid = None" "newfid \<noteq> ROOT"
  shows "\<exists>q q'. fst (srv_walk hasher ROOT newfid [other] (srv_post other t a reg, v)) = Ok q \<and>
    fst (srv_walk hasher ROOT newfid [other] (srv_post other t a (srv_post name t' a' reg), v)) = Ok q' \<and>
    qid_path q' = qid_path q + 1"
  using assms
  by (simp add: srv_walk_def srv_node_of_def srv_target_def srv_find_post srv_qid_of_def) (simp add: srv_post_def)

lemma hidden_post_shifts_later_qids_instance:
  "\<exists>q q'. fst (srv_walk (\<lambda>_. 0) ROOT 9 [''log''] (srv_post ''log'' (1 :: nat) ReadOnly registry_new, srv_sub_view srv_new {''secret''})) = Ok q \<and>
    fst (srv_walk (\<lambda>_. 0) ROOT 9 [''log''] (srv_post ''log'' 1 ReadOnly (srv_post ''secret'' (2 :: nat) ReadOnly registry_new),
      srv_sub_view srv_new {''secret''})) = Ok q' \<and>
    qid_path q' = qid_path q + 1"
  by (rule hidden_post_shifts_later_qids) (simp_all add: srv_sub_view_def srv_visible_def srv_new_def)

end
