(* ===== verification/Mount_Fs.thy ===== *)
theory Mount_Fs
  imports Kernel_Namespace
begin

text \<open>
  A namespace presented as one file server (\<open>crates/kernel/src/mountfs.rs\<close> and its
  \<open>walk_owner.rs\<close>). A fid is a synthetic directory above the mounts or a node of a mounted tree;
  operations on the latter are forwarded through \<open>resolved_call\<close>. Operations that await a backing
  tree are split into the parts between awaits (reserve, next candidate, publish, finish), so that
  other operations can run in between; the sequential operations compose those parts. The world
  \<open>'w\<close> of the mounted trees and \<open>tree_call\<close> are parameters, as is the default hasher.
\<close>

section \<open>The live mount table\<close>

record 't live_namespace =
  ln_ns :: "'t namespace"
  ln_generation :: u32

definition live_new :: "'t namespace \<Rightarrow> 't live_namespace" where
  "live_new ns = \<lparr>ln_ns = ns, ln_generation = 0\<rparr>"

definition live_bump_generation :: "'t live_namespace \<Rightarrow> 't live_namespace" where
  "live_bump_generation l = l\<lparr>ln_generation := ln_generation l + 1\<rparr>"

definition live_mount :: "string \<Rightarrow> 't \<Rightarrow> access \<Rightarrow> 't live_namespace \<Rightarrow> 't live_namespace" where
  "live_mount at tree access l =
     live_bump_generation (l\<lparr>ln_ns := namespace_mount at tree access (ln_ns l)\<rparr>)"

definition live_replace_mount :: "string \<Rightarrow> 't \<Rightarrow> access \<Rightarrow> 't live_namespace \<Rightarrow> 't live_namespace" where
  "live_replace_mount at tree access l =
     live_bump_generation (l\<lparr>ln_ns := namespace_mount at tree access (namespace_unmount at (ln_ns l))\<rparr>)"

definition live_unmount :: "string \<Rightarrow> 't live_namespace \<Rightarrow> 't live_namespace" where
  "live_unmount at l = live_bump_generation (l\<lparr>ln_ns := namespace_unmount at (ln_ns l)\<rparr>)"

definition live_describe :: "'t live_namespace \<Rightarrow> (string \<times> access) list" where
  "live_describe l = describe (ln_ns l)"

definition live_snapshot :: "'t live_namespace \<Rightarrow> 't namespace" where
  "live_snapshot l = ln_ns l"

definition snapshot_with_generation :: "'t live_namespace \<Rightarrow> 't namespace \<times> u32" where
  "snapshot_with_generation l = (ln_ns l, ln_generation l)"

definition mark_authority_bound :: "'t live_namespace \<Rightarrow> 't live_namespace" where
  "mark_authority_bound l = live_bump_generation l"

section \<open>Fids\<close>

record 't backing =
  bk_resolved :: "'t resolved"
  bk_fid :: fid
  bk_is_dir :: bool

datatype 't mount_target_node =
    TBacking "'t resolved" fid bool "string list"
  | TSynthetic "string list"

record 't mount_entry =
  me_path :: "string list"
  me_backing :: "'t backing option"
  me_reserved :: bool
  me_walk_cancel :: bool

record 't mount_fs =
  mf_live :: "'t live_namespace"
  mf_fids :: "fid \<rightharpoonup> 't mount_entry"
  mf_next_backing :: u64

definition synthetic_entry :: "string list \<Rightarrow> 't mount_entry" where
  "synthetic_entry path = \<lparr>me_path = path, me_backing = None, me_reserved = False, me_walk_cancel = False\<rparr>"

definition mount_fs_new :: "'t live_namespace \<Rightarrow> u64 \<Rightarrow> 't mount_fs" where
  "mount_fs_new live next_backing =
     \<lparr>mf_live = live, mf_fids = [ROOT \<mapsto> synthetic_entry []], mf_next_backing = next_backing\<rparr>"

definition set_fid :: "fid \<Rightarrow> 't mount_entry \<Rightarrow> 't mount_fs \<Rightarrow> 't mount_fs" where
  "set_fid fid e m = m\<lparr>mf_fids := (mf_fids m)(fid \<mapsto> e)\<rparr>"

definition drop_fid :: "fid \<Rightarrow> 't mount_fs \<Rightarrow> 't mount_fs" where
  "drop_fid fid m = m\<lparr>mf_fids := (mf_fids m)(fid := None)\<rparr>"

definition take_backing_fid :: "'t mount_fs \<Rightarrow> fid \<times> 't mount_fs" where
  "take_backing_fid m = (mf_next_backing m, m\<lparr>mf_next_backing := mf_next_backing m + 1\<rparr>)"

definition join_path :: "string list \<Rightarrow> string" where
  "join_path components = (if components = [] then ''/'' else ''/'' @ join_with ''/'' components)"

definition mount_prefixes :: "'t mount_fs \<Rightarrow> string list list" where
  "mount_prefixes m = map (\<lambda>(path, _). split_path path) (live_describe (mf_live m))"

definition above_mount :: "string list \<Rightarrow> string list \<Rightarrow> bool" where
  "above_mount path prefix \<longleftrightarrow> length path < length prefix \<and> take (length path) prefix = path"

fun push_name :: "string \<Rightarrow> string list \<Rightarrow> string list" where
  "push_name name names = (if name \<in> set names then names else names @ [name])"

definition synthetic_children :: "'t mount_fs \<Rightarrow> string list \<Rightarrow> string list" where
  "synthetic_children m path =
     fold push_name (map (\<lambda>prefix. prefix ! length path) (filter (above_mount path) (mount_prefixes m))) []"

definition is_synthetic_dir :: "'t mount_fs \<Rightarrow> string list \<Rightarrow> bool" where
  "is_synthetic_dir m path = list_ex (above_mount path) (mount_prefixes m)"

type_synonym path_hasher = "string list \<Rightarrow> u64"

definition synthetic_qid :: "path_hasher \<Rightarrow> string list \<Rightarrow> u32 \<Rightarrow> qid" where
  "synthetic_qid hasher path version = \<lparr>qid_kind = KDir, qid_version = version, qid_path = hasher path\<rparr>"

definition mount_candidates :: "'t mount_fs \<Rightarrow> string list \<Rightarrow> 't resolved list" where
  "mount_candidates m path = resolve_candidates (ln_ns (mf_live m)) (join_path path)"

definition mount_target :: "'t mount_fs \<Rightarrow> fid \<Rightarrow> 't mount_target_node res" where
  "mount_target m fid =
     (case mf_fids m fid of
        None \<Rightarrow> Err NotFound
      | Some entry \<Rightarrow>
          if me_reserved entry then Err BadRequest
          else
            (case me_backing entry of
               Some b \<Rightarrow> Ok (TBacking (bk_resolved b) (bk_fid b) (bk_is_dir b) (me_path entry))
             | None \<Rightarrow> Ok (TSynthetic (me_path entry))))"

section \<open>Walking\<close>

record 't walk_task =
  wt_newfid :: fid
  wt_path :: "string list"
  wt_resolved :: "'t resolved"
  wt_rest :: "'t resolved list"
  wt_backing :: fid

definition reserved_entry :: "string list \<Rightarrow> 't resolved \<Rightarrow> fid \<Rightarrow> 't mount_entry" where
  "reserved_entry path resolved backing_fid =
     \<lparr>me_path = path,
      me_backing = Some \<lparr>bk_resolved = resolved, bk_fid = backing_fid, bk_is_dir = False\<rparr>,
      me_reserved = True, me_walk_cancel = True\<rparr>"

definition walk_reserve ::
  "path_hasher \<Rightarrow> fid \<Rightarrow> fid \<Rightarrow> string list \<Rightarrow> 't mount_fs \<Rightarrow> (qid res + 't walk_task) \<times> 't mount_fs" where
  "walk_reserve hasher fid newfid names m =
     (if newfid = ROOT \<or> mf_fids m newfid \<noteq> None then (Inl (Err BadRequest), m)
      else
        (case mf_fids m fid of
           None \<Rightarrow> (Inl (Err NotFound), m)
         | Some base \<Rightarrow>
             if me_reserved base then (Inl (Err BadRequest), m)
             else if names \<noteq> [] \<and> (case me_backing base of Some b \<Rightarrow> \<not> bk_is_dir b | None \<Rightarrow> False)
             then (Inl (Err NotDirectory), m)
             else
               (let path = me_path base @ names in
                case mount_candidates m path of
                  [] \<Rightarrow>
                    if path \<noteq> [] \<and> \<not> is_synthetic_dir m path then (Inl (Err NotFound), m)
                    else (Inl (Ok (synthetic_qid hasher path (ln_generation (mf_live m)))),
                          set_fid newfid (synthetic_entry path) m)
                | first # rest \<Rightarrow>
                    (let (backing_fid, m1) = take_backing_fid m in
                     (Inr \<lparr>wt_newfid = newfid, wt_path = path, wt_resolved = first, wt_rest = rest,
                           wt_backing = backing_fid\<rparr>,
                      set_fid newfid (reserved_entry path first backing_fid) m1)))))"

text \<open>A walk still owns its reservation while the entry is reserved under the walk's backing fid.\<close>

definition owns_reservation :: "'t mount_fs \<Rightarrow> fid \<Rightarrow> fid \<Rightarrow> bool" where
  "owns_reservation m outer_fid backing_fid \<longleftrightarrow>
     (case mf_fids m outer_fid of
        None \<Rightarrow> False
      | Some entry \<Rightarrow> me_reserved entry \<and>
          (case me_backing entry of Some b \<Rightarrow> bk_fid b = backing_fid | None \<Rightarrow> False))"

definition walk_next :: "'t walk_task \<Rightarrow> 't mount_fs \<Rightarrow> 't walk_task option \<times> 't mount_fs" where
  "walk_next t m =
     (case wt_rest t of
        [] \<Rightarrow> (None, m)
      | resolved # rest \<Rightarrow>
          (let (backing_fid, m1) = take_backing_fid m in
           if owns_reservation m1 (wt_newfid t) (wt_backing t) then
             (Some (t\<lparr>wt_resolved := resolved, wt_rest := rest, wt_backing := backing_fid\<rparr>),
              set_fid (wt_newfid t)
                ((the (mf_fids m1 (wt_newfid t)))\<lparr>me_backing :=
                   Some \<lparr>bk_resolved = resolved, bk_fid = backing_fid, bk_is_dir = False\<rparr>\<rparr>) m1)
           else (None, m1)))"

definition walk_publish :: "'t walk_task \<Rightarrow> qid \<Rightarrow> 't mount_fs \<Rightarrow> qid res \<times> 't mount_fs" where
  "walk_publish t qid m =
     (if \<not> owns_reservation m (wt_newfid t) (wt_backing t) then (Err BadRequest, m)
      else
        (Ok qid,
         set_fid (wt_newfid t)
           \<lparr>me_path = wt_path t,
            me_backing = Some \<lparr>bk_resolved = wt_resolved t, bk_fid = wt_backing t,
                               bk_is_dir = (qid_kind qid = KDir)\<rparr>,
            me_reserved = False, me_walk_cancel = False\<rparr> m))"

definition walk_synthetic :: "path_hasher \<Rightarrow> 't walk_task \<Rightarrow> 't mount_fs \<Rightarrow> qid res \<times> 't mount_fs" where
  "walk_synthetic hasher t m =
     (if \<not> owns_reservation m (wt_newfid t) (wt_backing t) then (Err BadRequest, m)
      else (Ok (synthetic_qid hasher (wt_path t) (ln_generation (mf_live m))),
            set_fid (wt_newfid t) (synthetic_entry (wt_path t)) m))"

text \<open>The owner's cleanup: give up the reservation if it is still held, then clunk the backing fid.\<close>

definition walk_release :: "'t walk_task \<Rightarrow> 't mount_fs \<Rightarrow> bool \<times> 't mount_fs" where
  "walk_release t m =
     (if owns_reservation m (wt_newfid t) (wt_backing t) then (True, drop_fid (wt_newfid t) m)
      else (False, m))"

definition walk_close ::
  "('t, 'w) tree_call \<Rightarrow> 't walk_task \<Rightarrow> 't mount_fs \<times> 'w \<Rightarrow> bool \<times> 't mount_fs \<times> 'w" where
  "walk_close tree_call t = (\<lambda>(m, w).
     let (owned, m1) = walk_release t m in
     (owned, m1, snd (resolved_call tree_call (wt_resolved t) (ReqClunk (wt_backing t)) w)))"

definition walk_finish ::
  "('t, 'w) tree_call \<Rightarrow> path_hasher \<Rightarrow> 't walk_task \<Rightarrow> 't mount_fs \<times> 'w \<Rightarrow> qid poll \<times> 't mount_fs \<times> 'w" where
  "walk_finish tree_call hasher t = (\<lambda>(m, w).
     if wt_path t = [] \<or> is_synthetic_dir m (wt_path t) then
       (case walk_synthetic hasher t m of
          (Inr qid, m1) \<Rightarrow> (Some (Ok qid), m1, w)
        | (Inl e, m1) \<Rightarrow> (Some (Err e), snd (walk_close tree_call t (m1, w))))
     else
       (let (owned, mw) = walk_close tree_call t (m, w) in
        (Some (Err (if owned then NotFound else BadRequest)), mw)))"

text \<open>Structural recursion over the remaining contributors; \<open>close_backing\<close> clunks after a failed
  contributor and ignores the outcome.\<close>

fun walk_candidates ::
  "('t, 'w) tree_call \<Rightarrow> path_hasher \<Rightarrow> nat \<Rightarrow> 't walk_task \<Rightarrow> 't mount_fs \<times> 'w \<Rightarrow> qid poll \<times> 't mount_fs \<times> 'w" where
  "walk_candidates tree_call hasher n t (m, w) =
     (case resolved_call tree_call (wt_resolved t) (ReqWalk ROOT (wt_backing t) (res_rel (wt_resolved t))) w of
        (None, w1) \<Rightarrow> (None, m, w1)
      | (Some (Inr (RespWalk qid)), w1) \<Rightarrow>
          (case walk_publish t qid m of
             (Inr q, m1) \<Rightarrow> (Some (Ok q), m1, w1)
           | (Inl e, m1) \<Rightarrow> (Some (Err e), snd (walk_close tree_call t (m1, w1))))
      | (Some _, w1) \<Rightarrow>
          (let w2 = snd (resolved_call tree_call (wt_resolved t) (ReqClunk (wt_backing t)) w1) in
           case n of
             0 \<Rightarrow> walk_finish tree_call hasher t (m, w2)
           | Suc n' \<Rightarrow>
               (case walk_next t m of
                  (None, m1) \<Rightarrow> (Some (Err BadRequest), snd (walk_close tree_call t (m1, w2)))
                | (Some t', m1) \<Rightarrow> walk_candidates tree_call hasher n' t' (m1, w2))))"

definition mount_walk ::
  "('t, 'w) tree_call \<Rightarrow> path_hasher \<Rightarrow> fid \<Rightarrow> fid \<Rightarrow> string list \<Rightarrow> 't mount_fs \<times> 'w \<Rightarrow>
     qid poll \<times> 't mount_fs \<times> 'w" where
  "mount_walk tree_call hasher fid newfid names = (\<lambda>(m, w).
     case walk_reserve hasher fid newfid names m of
       (Inl r, m1) \<Rightarrow> (Some r, m1, w)
     | (Inr t, m1) \<Rightarrow> walk_candidates tree_call hasher (length (wt_rest t)) t (m1, w))"

section \<open>Listings\<close>

text \<open>\<open>read_all\<close> loops until a read comes back empty, which a backing tree may never answer: the fuel
  bounds the number of reads, and running out is the value of a call that has not returned.\<close>

fun read_all ::
  "('t, 'w) tree_call \<Rightarrow> 't resolved \<Rightarrow> fid \<Rightarrow> nat \<Rightarrow> bytes \<Rightarrow> 'w \<Rightarrow> bytes poll \<times> 'w" where
  "read_all tree_call resolved fid 0 out w = (None, w)"
| "read_all tree_call resolved fid (Suc fuel) out w =
     and_then (resolved_call tree_call resolved (ReqRead fid (of_nat (length out)) 4096) w)
       (\<lambda>response w1.
          case response of
            RespRead chunk \<Rightarrow>
              if chunk = [] then (Some (Ok out), w1)
              else read_all tree_call resolved fid fuel (out @ chunk) w1
          | _ \<Rightarrow> (Some (Err Io), w1))"

definition read_contributor_listing ::
  "('t, 'w) tree_call \<Rightarrow> nat \<Rightarrow> 't resolved \<Rightarrow> fid \<Rightarrow> 'w \<Rightarrow> bytes poll \<times> 'w" where
  "read_contributor_listing tree_call fuel resolved fid w =
     and_then (resolved_call tree_call resolved (ReqOpen fid OpenRead) w)
       (\<lambda>response w1.
          case response of
            RespOpen _ \<Rightarrow> read_all tree_call resolved fid fuel [] w1
          | _ \<Rightarrow> (Some (Err Io), w1))"

definition push_listed :: "string \<Rightarrow> string list \<Rightarrow> string list" where
  "push_listed name names = (if name \<noteq> [] \<and> name \<notin> set names then names @ [name] else names)"

fun merge_contributors ::
  "('t, 'w) tree_call \<Rightarrow> nat \<Rightarrow> 't resolved list \<Rightarrow> string list \<Rightarrow> 't mount_fs \<times> 'w \<Rightarrow>
     string list poll \<times> 't mount_fs \<times> 'w" where
  "merge_contributors tree_call fuel [] names mw = (Some (Ok names), mw)"
| "merge_contributors tree_call fuel (cand # cands) names (m, w) =
     (let (backing_fid, m1) = take_backing_fid m in
      case resolved_call tree_call cand (ReqWalk ROOT backing_fid (res_rel cand)) w of
        (None, w1) \<Rightarrow> (None, m1, w1)
      | (Some (Inl e), w1) \<Rightarrow>
          if e = NotFound then merge_contributors tree_call fuel cands names (m1, w1)
          else (Some (Err e), m1, w1)
      | (Some (Inr (RespWalk _)), w1) \<Rightarrow>
          (case read_contributor_listing tree_call fuel cand backing_fid w1 of
             (None, w2) \<Rightarrow> (None, m1, w2)
           | (Some listing, w2) \<Rightarrow>
               (let w3 = snd (resolved_call tree_call cand (ReqClunk backing_fid) w2) in
                case listing of
                  Inl e \<Rightarrow>
                    if e = NotFound then merge_contributors tree_call fuel cands names (m1, w3)
                    else (Some (Err e), m1, w3)
                | Inr bytes \<Rightarrow>
                    merge_contributors tree_call fuel cands
                      (fold push_listed (str_lines (from_utf8_lossy bytes)) names) (m1, w3)))
      | (Some (Inr _), w1) \<Rightarrow> (Some (Err Io), m1, w1))"

definition merged_dir_listing ::
  "('t, 'w) tree_call \<Rightarrow> nat \<Rightarrow> string list \<Rightarrow> 't mount_fs \<times> 'w \<Rightarrow> bytes poll \<times> 't mount_fs \<times> 'w" where
  "merged_dir_listing tree_call fuel path mw =
     and_then (merge_contributors tree_call fuel (mount_candidates (fst mw) path) [] mw)
       (\<lambda>names mw1.
          (Some (Ok (join_with [newline] (fold push_listed (synthetic_children (fst mw1) path) names))), mw1))"

section \<open>The other operations\<close>

definition forward ::
  "('t, 'w) tree_call \<Rightarrow> 't resolved \<Rightarrow> request \<Rightarrow> (response \<Rightarrow> 'a option) \<Rightarrow> 't mount_fs \<times> 'w \<Rightarrow>
     'a poll \<times> 't mount_fs \<times> 'w" where
  "forward tree_call resolved request expected = (\<lambda>(m, w).
     case resolved_call tree_call resolved request w of
       (None, w1) \<Rightarrow> (None, m, w1)
     | (Some (Inl e), w1) \<Rightarrow> (Some (Err e), m, w1)
     | (Some (Inr response), w1) \<Rightarrow> (Some (ok_or (expected response) Io), m, w1))"

definition mount_open ::
  "('t, 'w) tree_call \<Rightarrow> path_hasher \<Rightarrow> fid \<Rightarrow> open_mode \<Rightarrow> 't mount_fs \<times> 'w \<Rightarrow> qid poll \<times> 't mount_fs \<times> 'w" where
  "mount_open tree_call hasher fid mode = (\<lambda>(m, w).
     case mount_target m fid of
       Inl e \<Rightarrow> (Some (Err e), m, w)
     | Inr (TBacking resolved backing_fid _ _) \<Rightarrow>
         forward tree_call resolved (ReqOpen backing_fid mode)
           (\<lambda>r. case r of RespOpen qid \<Rightarrow> Some qid | _ \<Rightarrow> None) (m, w)
     | Inr (TSynthetic path) \<Rightarrow>
         if mode = OpenWrite \<or> mode = OpenReadWrite then (Some (Err NoAccess), m, w)
         else (Some (Ok (synthetic_qid hasher path (ln_generation (mf_live m)))), m, w))"

definition mount_read ::
  "('t, 'w) tree_call \<Rightarrow> nat \<Rightarrow> fid \<Rightarrow> offset \<Rightarrow> u32 \<Rightarrow> 't mount_fs \<times> 'w \<Rightarrow> bytes poll \<times> 't mount_fs \<times> 'w" where
  "mount_read tree_call fuel fid offset count = (\<lambda>(m, w).
     case mount_target m fid of
       Inl e \<Rightarrow> (Some (Err e), m, w)
     | Inr (TBacking resolved backing_fid is_dir path) \<Rightarrow>
         if is_dir \<and> (1 < length (mount_candidates m path) \<or> synthetic_children m path \<noteq> []) then
           and_then (merged_dir_listing tree_call fuel path (m, w))
             (\<lambda>bytes mw. (Some (Ok (slice bytes offset count)), mw))
         else
           forward tree_call resolved (ReqRead backing_fid offset count)
             (\<lambda>r. case r of RespRead data \<Rightarrow> Some data | _ \<Rightarrow> None) (m, w)
     | Inr (TSynthetic path) \<Rightarrow>
         (Some (Ok (slice (join_with [newline] (synthetic_children m path)) offset count)), m, w))"

definition mount_write ::
  "('t, 'w) tree_call \<Rightarrow> fid \<Rightarrow> offset \<Rightarrow> bytes \<Rightarrow> 't mount_fs \<times> 'w \<Rightarrow> u32 poll \<times> 't mount_fs \<times> 'w" where
  "mount_write tree_call fid offset data = (\<lambda>(m, w).
     case mount_target m fid of
       Inl e \<Rightarrow> (Some (Err e), m, w)
     | Inr (TBacking resolved backing_fid _ _) \<Rightarrow>
         forward tree_call resolved (ReqWrite backing_fid offset data)
           (\<lambda>r. case r of RespWrite count \<Rightarrow> Some count | _ \<Rightarrow> None) (m, w)
     | Inr (TSynthetic _) \<Rightarrow> (Some (Err IsDirectory), m, w))"

definition mount_stat ::
  "('t, 'w) tree_call \<Rightarrow> path_hasher \<Rightarrow> fid \<Rightarrow> 't mount_fs \<times> 'w \<Rightarrow> stat poll \<times> 't mount_fs \<times> 'w" where
  "mount_stat tree_call hasher fid = (\<lambda>(m, w).
     case mount_target m fid of
       Inl e \<Rightarrow> (Some (Err e), m, w)
     | Inr (TBacking resolved backing_fid _ _) \<Rightarrow>
         forward tree_call resolved (ReqStat backing_fid)
           (\<lambda>r. case r of RespStat st \<Rightarrow> Some st | _ \<Rightarrow> None) (m, w)
     | Inr (TSynthetic path) \<Rightarrow>
         (Some (Ok \<lparr>stat_name = [], stat_qid = synthetic_qid hasher path (ln_generation (mf_live m)),
            stat_length = of_nat (length (join_with [newline] (synthetic_children m path))),
            stat_executable = False, stat_writable = False\<rparr>), m, w))"

record 't create_task =
  ct_newfid :: fid
  ct_resolved :: "'t resolved"
  ct_dir_fid :: fid
  ct_path :: "string list"

definition create_reserve ::
  "fid \<Rightarrow> fid \<Rightarrow> string \<Rightarrow> 't mount_fs \<Rightarrow> (error_code + 't create_task) \<times> 't mount_fs" where
  "create_reserve fid newfid name m =
     (if newfid = ROOT \<or> mf_fids m newfid \<noteq> None then (Inl BadRequest, m)
      else
        (case mf_fids m fid of
           None \<Rightarrow> (Inl NotFound, m)
         | Some entry \<Rightarrow>
             if me_reserved entry then (Inl BadRequest, m)
             else
               (case me_backing entry of
                  None \<Rightarrow> (Inl Unsupported, m)
                | Some b \<Rightarrow>
                    if \<not> bk_is_dir b then (Inl NotDirectory, m)
                    else
                      (Inr \<lparr>ct_newfid = newfid, ct_resolved = bk_resolved b, ct_dir_fid = bk_fid b,
                            ct_path = me_path entry @ [name]\<rparr>,
                       set_fid newfid \<lparr>me_path = me_path entry @ [name], me_backing = None,
                                       me_reserved = True, me_walk_cancel = False\<rparr> m))))"

definition create_publish :: "'t create_task \<Rightarrow> fid \<Rightarrow> qid \<Rightarrow> 't mount_fs \<Rightarrow> bool \<times> 't mount_fs" where
  "create_publish t backing_newfid qid m =
     (case mf_fids m (ct_newfid t) of
        Some entry \<Rightarrow>
          if me_reserved entry then
            (True, set_fid (ct_newfid t)
               \<lparr>me_path = ct_path t,
                me_backing = Some \<lparr>bk_resolved = ct_resolved t, bk_fid = backing_newfid,
                                   bk_is_dir = (qid_kind qid = KDir)\<rparr>,
                me_reserved = False, me_walk_cancel = False\<rparr> m)
          else (False, m)
      | None \<Rightarrow> (False, m))"

definition mount_create ::
  "('t, 'w) tree_call \<Rightarrow> fid \<Rightarrow> fid \<Rightarrow> string \<Rightarrow> file_kind \<Rightarrow> 't mount_fs \<times> 'w \<Rightarrow> qid poll \<times> 't mount_fs \<times> 'w" where
  "mount_create tree_call fid newfid name kind = (\<lambda>(m, w).
     case create_reserve fid newfid name m of
       (Inl e, m1) \<Rightarrow> (Some (Err e), m1, w)
     | (Inr t, m1) \<Rightarrow>
         (let (backing_newfid, m2) = take_backing_fid m1 in
          case resolved_call tree_call (ct_resolved t) (ReqCreate (ct_dir_fid t) backing_newfid name kind) w of
            (None, w1) \<Rightarrow> (None, m2, w1)
          | (Some (Inl e), w1) \<Rightarrow> (Some (Err e), drop_fid newfid m2, w1)
          | (Some (Inr (RespCreate qid)), w1) \<Rightarrow>
              (case create_publish t backing_newfid qid m2 of
                 (True, m3) \<Rightarrow> (Some (Ok qid), m3, w1)
               | (False, m3) \<Rightarrow>
                   (Some (Err BadRequest), m3,
                    snd (resolved_call tree_call (ct_resolved t) (ReqClunk backing_newfid) w1)))
          | (Some (Inr _), w1) \<Rightarrow> (Some (Err Io), drop_fid newfid m2, w1)))"

definition mount_remove ::
  "('t, 'w) tree_call \<Rightarrow> fid \<Rightarrow> 't mount_fs \<times> 'w \<Rightarrow> unit poll \<times> 't mount_fs \<times> 'w" where
  "mount_remove tree_call fid = (\<lambda>(m, w).
     if fid = ROOT then (Some (Err Unsupported), m, w)
     else
       (case mf_fids m fid of
          None \<Rightarrow> (Some (Err NotFound), m, w)
        | Some entry \<Rightarrow>
            if me_reserved entry then (Some (Err BadRequest), m, w)
            else
              (case me_backing entry of
                 Some b \<Rightarrow>
                   forward tree_call (bk_resolved b) (ReqRemove (bk_fid b)) (\<lambda>_. Some ()) (drop_fid fid m, w)
               | None \<Rightarrow> (Some (Err Unsupported), drop_fid fid m, w))))"

definition mount_clunk ::
  "('t, 'w) tree_call \<Rightarrow> fid \<Rightarrow> 't mount_fs \<times> 'w \<Rightarrow> unit poll \<times> 't mount_fs \<times> 'w" where
  "mount_clunk tree_call fid = (\<lambda>(m, w).
     if fid = ROOT then (Some (Ok ()), m, w)
     else
       (case mf_fids m fid of
          None \<Rightarrow> (Some (Err NotFound), m, w)
        | Some entry \<Rightarrow>
            if me_reserved entry \<and> \<not> me_walk_cancel entry then (Some (Err BadRequest), m, w)
            else
              (case me_backing entry of
                 None \<Rightarrow> (Some (Ok ()), drop_fid fid m, w)
               | Some b \<Rightarrow>
                   (case resolved_call tree_call (bk_resolved b) (ReqClunk (bk_fid b)) w of
                      (None, w1) \<Rightarrow> (None, drop_fid fid m, w1)
                    | (Some (Inr RespClunk), w1) \<Rightarrow> (Some (Ok ()), drop_fid fid m, w1)
                    | (Some (Inl e), w1) \<Rightarrow>
                        (Some (if e = NotFound \<and> me_walk_cancel entry then Ok () else Err e),
                         drop_fid fid m, w1)
                    | (Some (Inr _), w1) \<Rightarrow> (Some (Err Io), drop_fid fid m, w1)))))"

fun clunk_backings :: "('t, 'w) tree_call \<Rightarrow> ('t resolved \<times> fid) list \<Rightarrow> 'w \<Rightarrow> 'w" where
  "clunk_backings tree_call [] w = w"
| "clunk_backings tree_call ((resolved, fid) # rest) w =
     clunk_backings tree_call rest (snd (resolved_call tree_call resolved (ReqClunk fid) w))"

text \<open>\<open>order\<close> is the order in which the drained table yields its entries.\<close>

definition clunk_all ::
  "('t, 'w) tree_call \<Rightarrow> fid list \<Rightarrow> 't mount_fs \<times> 'w \<Rightarrow> 't mount_fs \<times> 'w" where
  "clunk_all tree_call order = (\<lambda>(m, w).
     (m\<lparr>mf_fids := Map.empty\<rparr>,
      clunk_backings tree_call
        (List.map_filter (\<lambda>fid. Option.bind (mf_fids m fid)
           (\<lambda>entry. map_option (\<lambda>b. (bk_resolved b, bk_fid b)) (me_backing entry))) order) w))"

definition mount_server ::
  "('t, 'w) tree_call \<Rightarrow> path_hasher \<Rightarrow> nat \<Rightarrow> ('t mount_fs \<times> 'w) file_server" where
  "mount_server tree_call hasher fuel =
     \<lparr>fs_walk = mount_walk tree_call hasher, fs_open = mount_open tree_call hasher,
      fs_read = mount_read tree_call fuel, fs_write = mount_write tree_call,
      fs_stat = mount_stat tree_call hasher, fs_create = mount_create tree_call,
      fs_remove = mount_remove tree_call, fs_clunk = mount_clunk tree_call\<rparr>"

section \<open>An operation touches only its own fid\<close>

definition same_except :: "fid \<Rightarrow> 't mount_fs \<Rightarrow> 't mount_fs \<Rightarrow> bool" where
  "same_except n m m' \<longleftrightarrow> (\<forall>f. f \<noteq> n \<longrightarrow> mf_fids m' f = mf_fids m f) \<and> mf_live m' = mf_live m"

lemma same_except_refl [simp]: "same_except n m m"
  by (simp add: same_except_def)

lemma same_except_trans: "same_except n m m1 \<Longrightarrow> same_except n m1 m2 \<Longrightarrow> same_except n m m2"
  by (simp add: same_except_def)

lemma same_except_ops [simp]:
  "same_except n m (set_fid n e m)" "same_except n m (drop_fid n m)"
  "same_except n m (snd (take_backing_fid m))"
  "same_except n (snd (take_backing_fid m)) m' \<longleftrightarrow> same_except n m m'"
  by (auto simp: same_except_def set_fid_def drop_fid_def take_backing_fid_def)

lemma fids_ops [simp]:
  "mf_fids (set_fid n e m) = (mf_fids m)(n \<mapsto> e)" "mf_fids (drop_fid n m) = (mf_fids m)(n := None)"
  "mf_live (set_fid n e m) = mf_live m" "mf_live (drop_fid n m) = mf_live m"
  "mf_next_backing (set_fid n e m) = mf_next_backing m" "mf_next_backing (drop_fid n m) = mf_next_backing m"
  by (simp_all add: set_fid_def drop_fid_def)

lemma take_backing_fid_simps [simp]:
  "fst (take_backing_fid m) = mf_next_backing m"
  "mf_fids (snd (take_backing_fid m)) = mf_fids m" "mf_live (snd (take_backing_fid m)) = mf_live m"
  "mf_next_backing (snd (take_backing_fid m)) = mf_next_backing m + 1"
  by (simp_all add: take_backing_fid_def)

text \<open>Every forwarded walk is a sequence of backing calls and table updates of its owner, so what all
  of those preserve holds when it returns.\<close>

lemma walk_close_rule:
  assumes "I t (m, w)"
    and "\<And>m w req. I t (m, w) \<Longrightarrow> I t (m, snd (resolved_call tree_call (wt_resolved t) req w))"
    and "\<And>m w. I t (m, w) \<Longrightarrow> I t (snd (walk_release t m), w)"
  shows "I t (snd (walk_close tree_call t (m, w)))"
  using assms by (simp add: walk_close_def case_prod_beta Let_def)

lemma walk_finish_rule:
  assumes I: "I t (m, w)"
    and call: "\<And>m w req. I t (m, w) \<Longrightarrow> I t (m, snd (resolved_call tree_call (wt_resolved t) req w))"
    and release: "\<And>m w. I t (m, w) \<Longrightarrow> I t (snd (walk_release t m), w)"
    and synthetic: "\<And>m w. I t (m, w) \<Longrightarrow> I t (snd (walk_synthetic hasher t m), w)"
  shows "I t (snd (walk_finish tree_call hasher t (m, w)))"
proof -
  obtain r m1 where s: "walk_synthetic hasher t m = (r, m1)" by fastforce
  have m1: "I t (m1, w)" using synthetic [OF I] s by simp
  have close: "I t (snd (walk_close tree_call t (m', w)))" if "I t (m', w)" for m'
    by (rule walk_close_rule [of I, OF that call release])
  show ?thesis
    using s m1 close [OF I] close [OF m1]
    by (cases r) (simp_all add: walk_finish_def case_prod_beta Let_def)
qed

lemma walk_candidates_rule:
  assumes I: "I t (m, w)"
    and call: "\<And>t m w req. I t (m, w) \<Longrightarrow> I t (m, snd (resolved_call tree_call (wt_resolved t) req w))"
    and nxt: "\<And>t m w t' m'. I t (m, w) \<Longrightarrow> walk_next t m = (Some t', m') \<Longrightarrow> I t' (m', w)"
    and stop: "\<And>t m w m'. I t (m, w) \<Longrightarrow> walk_next t m = (None, m') \<Longrightarrow> I t (m', w)"
    and publish: "\<And>t m w q. I t (m, w) \<Longrightarrow> I t (snd (walk_publish t q m), w)"
    and release: "\<And>t m w. I t (m, w) \<Longrightarrow> I t (snd (walk_release t m), w)"
    and synthetic: "\<And>t m w. I t (m, w) \<Longrightarrow> I t (snd (walk_synthetic hasher t m), w)"
  shows "\<exists>t'. I t' (snd (walk_candidates tree_call hasher n t (m, w)))"
  using I
proof (induction n arbitrary: t m w)
  case (0 t m w)
  obtain r w1 where c: "resolved_call tree_call (wt_resolved t)
      (ReqWalk ROOT (wt_backing t) (res_rel (wt_resolved t))) w = (r, w1)" by fastforce
  have w1: "I t (m, w1)" using call [OF 0] c by (metis snd_conv)
  have w2: "I t (m, snd (resolved_call tree_call (wt_resolved t) (ReqClunk (wt_backing t)) w1))"
    using call [OF w1] .
  have pub: "I t (snd (walk_publish t q m), w1)" for q using publish [OF w1] .
  note close = walk_close_rule [of I, OF _ call release]
  show ?case
    using c w1 w2 pub close [OF pub] walk_finish_rule [of I, OF w2 call release synthetic]
    by (auto simp: Let_def case_prod_beta split: option.splits sum.splits response.splits)
next
  case (Suc n t m w)
  obtain r w1 where c: "resolved_call tree_call (wt_resolved t)
      (ReqWalk ROOT (wt_backing t) (res_rel (wt_resolved t))) w = (r, w1)" by fastforce
  have w1: "I t (m, w1)" using call [OF Suc.prems] c by (metis snd_conv)
  define w2 where "w2 = snd (resolved_call tree_call (wt_resolved t) (ReqClunk (wt_backing t)) w1)"
  have w2: "I t (m, w2)" unfolding w2_def using call [OF w1] .
  have pub: "I t (snd (walk_publish t q m), w1)" for q using publish [OF w1] .
  note close = walk_close_rule [of I, OF _ call release]
  obtain nt m1 where nx: "walk_next t m = (nt, m1)" by fastforce
  have rest: "\<exists>t'. I t' (snd (case nt of None \<Rightarrow> (Some (Err BadRequest), snd (walk_close tree_call t (m1, w2)))
      | Some t' \<Rightarrow> walk_candidates tree_call hasher n t' (m1, w2)))"
  proof (cases nt)
    case None
    then show ?thesis using close [OF stop [OF w2]] nx by auto
  next
    case (Some t')
    then show ?thesis using Suc.IH [OF nxt [OF w2]] nx by simp
  qed
  show ?case
    using c w1 pub close [OF pub] rest nx
    by (auto simp: Let_def case_prod_beta w2_def split: option.splits sum.splits response.splits)
qed

lemma walk_next_frame: "same_except (wt_newfid t) m (snd (walk_next t m))"
  by (auto simp: walk_next_def Let_def case_prod_beta same_except_def split: list.splits)

lemma walk_next_task:
  "walk_next t m = (Some t', m') \<Longrightarrow> wt_newfid t' = wt_newfid t \<and> wt_path t' = wt_path t \<and>
     wt_backing t' = mf_next_backing m \<and> wt_rest t = wt_resolved t' # wt_rest t'"
  by (auto simp: walk_next_def Let_def case_prod_beta split: list.splits if_splits)

lemma walk_candidates_frame:
  "same_except (wt_newfid t) m (fst (snd (walk_candidates tree_call hasher n t (m, w))))"
proof -
  define I where "I = (\<lambda>(t' :: 'a walk_task) (mw :: 'a mount_fs \<times> 'b). wt_newfid t' = wt_newfid t \<and>
    same_except (wt_newfid t) m (fst mw))"
  have "\<exists>t'. I t' (snd (walk_candidates tree_call hasher n t (m, w)))"
  proof (rule walk_candidates_rule)
    fix t1 m1 w1 t' m'
    assume "I t1 (m1, w1)" "walk_next t1 m1 = (Some t', m')"
    then show "I t' (m', w1)"
      using walk_next_frame [of t1 m1] walk_next_task [of t1 m1 t' m'] same_except_trans
      unfolding I_def by (metis fst_conv snd_conv)
  next
    fix t1 m1 w1 m'
    assume "I t1 (m1, w1)" "walk_next t1 m1 = (None, m')"
    then show "I t1 (m', w1)"
      using walk_next_frame [of t1 m1] same_except_trans unfolding I_def by (metis fst_conv snd_conv)
  qed (auto simp: I_def walk_publish_def walk_release_def walk_synthetic_def intro: same_except_trans)
  then show ?thesis unfolding I_def by blast
qed

lemma mount_walk_frame:
  "same_except newfid m (fst (snd (mount_walk tree_call hasher fid newfid names (m, w))))"
proof -
  obtain r m1 where r: "walk_reserve hasher fid newfid names m = (r, m1)" by fastforce
  then have m1: "same_except newfid m m1" "\<And>t. r = Inr t \<Longrightarrow> wt_newfid t = newfid"
    by (auto simp: walk_reserve_def Let_def case_prod_beta same_except_def split: if_splits option.splits list.splits)
  show ?thesis
  proof (cases r)
    case (Inr t)
    then show ?thesis
      using r m1 walk_candidates_frame [of t m1 tree_call hasher "length (wt_rest t)" w] same_except_trans
      by (simp add: mount_walk_def) blast
  qed (use r m1 in \<open>simp add: mount_walk_def\<close>)
qed

lemma forward_frame [simp]: "fst (snd (forward tree_call r req e (m, w))) = m"
  by (simp add: forward_def case_prod_beta split: option.splits sum.splits)

lemma merge_contributors_frame:
  "mf_fids (fst (snd (merge_contributors tree_call fuel cands names mw))) = mf_fids (fst mw) \<and>
   mf_live (fst (snd (merge_contributors tree_call fuel cands names mw))) = mf_live (fst mw)"
proof (induction cands arbitrary: names mw)
  case (Cons cand cands)
  have IH: "mf_fids (fst (snd (merge_contributors tree_call fuel cands names' (m', w')))) = mf_fids m'"
    "mf_live (fst (snd (merge_contributors tree_call fuel cands names' (m', w')))) = mf_live m'" for names' m' w'
    using Cons.IH [of names' "(m', w')"] by simp_all
  show ?case
    by (cases mw) (simp add: IH case_prod_beta Let_def split: option.splits sum.splits response.splits)
qed simp

lemma merged_dir_listing_frame:
  "mf_fids (fst (snd (merged_dir_listing tree_call fuel path mw))) = mf_fids (fst mw) \<and>
   mf_live (fst (snd (merged_dir_listing tree_call fuel path mw))) = mf_live (fst mw)"
  using merge_contributors_frame [of tree_call fuel "mount_candidates (fst mw) path" "[]" mw]
  by (simp add: merged_dir_listing_def and_then_def split: option.splits sum.splits)

lemma mount_read_frame:
  "mf_fids (fst (snd (mount_read tree_call fuel fid off c (m, w)))) = mf_fids m \<and>
   mf_live (fst (snd (mount_read tree_call fuel fid off c (m, w)))) = mf_live m"
  using merged_dir_listing_frame [of tree_call fuel _ "(m, w)"]
  by (simp add: mount_read_def and_then_def split: option.splits sum.splits mount_target_node.splits)

lemma mount_create_frame:
  "same_except newfid m (fst (snd (mount_create tree_call fid newfid name kind (m, w))))"
proof -
  obtain r m1 where r: "create_reserve fid newfid name m = (r, m1)" by fastforce
  then have m1: "same_except newfid m m1" "\<And>t. r = Inr t \<Longrightarrow> ct_newfid t = newfid"
    by (auto simp: create_reserve_def same_except_def split: if_splits option.splits)
  then show ?thesis
    using r
    by (auto simp: mount_create_def case_prod_beta Let_def create_publish_def same_except_def
        split: option.splits sum.splits response.splits if_splits)
qed

fun own_fid :: "request \<Rightarrow> fid option" where
  "own_fid req = (case binds_fid req of Some n \<Rightarrow> Some n | None \<Rightarrow> releases_fid req)"

lemma mount_call_frame:
  assumes "own_fid req \<noteq> Some f"
  shows "mf_fids (fst (snd (in_process_call (mount_server tree_call hasher fuel) req (m, w)))) f = mf_fids m f"
proof (cases req)
  case (ReqWalk fid newfid names)
  then show ?thesis
    using assms mount_walk_frame [of newfid m tree_call hasher fid names w]
    by (simp add: mount_server_def same_except_def)
next
  case (ReqCreate fid newfid name kind)
  then show ?thesis
    using assms mount_create_frame [of newfid m tree_call fid name kind w]
    by (simp add: mount_server_def same_except_def)
next
  case (ReqRead fid off c)
  then show ?thesis
    using mount_read_frame [of tree_call fuel fid off c m w] by (simp add: mount_server_def)
next
  case (ReqClunk fid)
  then show ?thesis
    using assms by (simp add: mount_server_def mount_clunk_def case_prod_beta
        split: option.splits sum.splits response.splits)
next
  case (ReqRemove fid)
  then show ?thesis
    using assms by (simp add: mount_server_def mount_remove_def split: option.splits)
qed (simp_all add: mount_server_def mount_open_def mount_write_def mount_stat_def
    split: sum.splits mount_target_node.splits)

lemma mount_call_root:
  assumes "mf_fids m ROOT = Some e" "\<not> me_reserved e"
  shows "mf_fids (fst (snd (in_process_call (mount_server tree_call hasher fuel) req (m, w)))) ROOT = Some e"
proof (cases "own_fid req = Some ROOT")
  case False
  show ?thesis using mount_call_frame [OF False, of tree_call hasher fuel m w] assms(1) by (rule trans)
next
  case True
  then show ?thesis
    using assms by (cases req)
      (simp_all add: mount_server_def mount_walk_def walk_reserve_def mount_create_def create_reserve_def
        mount_clunk_def mount_remove_def)
qed

section \<open>Authority is confined to read-write mounts\<close>

text \<open>\<open>T\<close> is the set of trees a namespace grants for writing; \<open>P\<close> is anything about the world that
  only mutating requests to a tree of \<open>T\<close> can break.\<close>

definition respects_authority :: "'t set \<Rightarrow> ('w \<Rightarrow> bool) \<Rightarrow> ('t, 'w) tree_call \<Rightarrow> bool" where
  "respects_authority T P tree_call \<longleftrightarrow>
     (\<forall>t req w. P w \<longrightarrow> (is_mutating req \<longrightarrow> t \<in> T) \<longrightarrow> P (snd (tree_call t req w)))"

definition auth :: "'t set \<Rightarrow> 't resolved \<Rightarrow> bool" where
  "auth T r \<longleftrightarrow> (res_access r = ReadWrite \<longrightarrow> res_tree r \<in> T)"

definition entry_auth :: "'t set \<Rightarrow> 't mount_entry \<Rightarrow> bool" where
  "entry_auth T e \<longleftrightarrow> (case me_backing e of None \<Rightarrow> True | Some b \<Rightarrow> auth T (bk_resolved b))"

definition conf :: "'t set \<Rightarrow> 't mount_fs \<Rightarrow> bool" where
  "conf T m \<longleftrightarrow>
     (\<forall>mt\<in>set (ns_mounts (ln_ns (mf_live m))). mount_access mt = ReadWrite \<longrightarrow> mount_tree mt \<in> T) \<and>
     (\<forall>f e. mf_fids m f = Some e \<longrightarrow> entry_auth T e)"

lemma call_auth:
  assumes "respects_authority T P tree_call" "auth T r" "P w"
  shows "P (snd (resolved_call tree_call r req w))"
proof (cases "res_access r = ReadOnly \<and> is_mutating req")
  case True
  then show ?thesis using assms(3) by (simp add: resolved_call_def)
next
  case False
  then have "is_mutating req \<longrightarrow> res_tree r \<in> T"
    using assms(2) by (cases "res_access r") (auto simp: auth_def)
  then have "P (snd (tree_call (res_tree r) req w))" using assms(1,3) by (simp add: respects_authority_def)
  with False show ?thesis
    by (auto simp: resolved_call_def case_prod_beta split: option.splits sum.splits prod.splits)
qed

lemma candidates_auth: "conf T m \<Longrightarrow> r \<in> set (mount_candidates m path) \<Longrightarrow> auth T r"
  by (auto simp: mount_candidates_def resolve_candidates_def candidates_longest in_longest resolved_at_def
      conf_def auth_def)

lemma conf_set: "conf T m \<Longrightarrow> entry_auth T e \<Longrightarrow> conf T (set_fid n e m)"
  by (simp add: conf_def)

lemma conf_drop: "conf T m \<Longrightarrow> conf T (drop_fid n m)"
  by (simp add: conf_def)

lemma conf_take [simp]: "conf T (snd (take_backing_fid m)) = conf T m"
  by (simp add: conf_def)

lemma conf_entry: "conf T m \<Longrightarrow> mf_fids m f = Some e \<Longrightarrow> me_backing e = Some b \<Longrightarrow> auth T (bk_resolved b)"
  unfolding conf_def entry_auth_def by (metis option.simps(5))

lemma conf_target: "conf T m \<Longrightarrow> mount_target m fid = Ok (TBacking r b d path) \<Longrightarrow> auth T r"
  by (auto simp: mount_target_def conf_entry split: option.splits if_splits)

definition task_auth :: "'t set \<Rightarrow> 't walk_task \<Rightarrow> bool" where
  "task_auth T t \<longleftrightarrow> auth T (wt_resolved t) \<and> (\<forall>r\<in>set (wt_rest t). auth T r)"

lemma walk_next_conf:
  assumes "conf T m" "task_auth T t" "walk_next t m = (nt, m')"
  shows "conf T m' \<and> (\<forall>t'. nt = Some t' \<longrightarrow> task_auth T t')"
  using assms
  by (auto simp: walk_next_def Let_def case_prod_beta task_auth_def entry_auth_def
      split: list.splits if_splits intro!: conf_set)

lemma walk_candidates_conf:
  assumes "respects_authority T P tree_call" "conf T m" "task_auth T t" "P w"
  shows "conf T (fst (snd (walk_candidates tree_call hasher n t (m, w)))) \<and>
    P (snd (snd (walk_candidates tree_call hasher n t (m, w))))"
proof -
  define I where "I = (\<lambda>(t :: 'a walk_task) (mw :: 'a mount_fs \<times> 'b). conf T (fst mw) \<and> task_auth T t \<and> P (snd mw))"
  have "\<exists>t'. I t' (snd (walk_candidates tree_call hasher n t (m, w)))"
  proof (rule walk_candidates_rule)
    show "I t' (m', w')" if "I t (m, w')" "walk_next t m = (Some t', m')" for t m w' t' m'
      using that walk_next_conf [of T m t "Some t'" m'] by (simp add: I_def)
    show "I t (m', w')" if "I t (m, w')" "walk_next t m = (None, m')" for t m w' m'
      using that walk_next_conf [of T m t None m'] by (simp add: I_def)
  qed (use assms in \<open>auto simp: I_def task_auth_def call_auth walk_publish_def walk_release_def
      walk_synthetic_def synthetic_entry_def entry_auth_def intro!: conf_set conf_drop\<close>)
  then show ?thesis unfolding I_def by blast
qed

lemma mount_walk_conf:
  assumes "respects_authority T P tree_call" "conf T m" "P w"
  shows "conf T (fst (snd (mount_walk tree_call hasher fid newfid names (m, w)))) \<and>
    P (snd (snd (mount_walk tree_call hasher fid newfid names (m, w))))"
proof -
  obtain r m1 where r: "walk_reserve hasher fid newfid names m = (r, m1)" by fastforce
  have cand: "auth T c" if "c \<in> set (mount_candidates m path)" for c path
    using candidates_auth [OF assms(2) that] .
  have m1: "conf T m1 \<and> (\<forall>t. r = Inr t \<longrightarrow> task_auth T t)"
  proof (cases "\<exists>t. r = Inr t")
    case True
    then obtain t where t: "r = Inr t" by blast
    then obtain path where "mount_candidates m path = wt_resolved t # wt_rest t"
      "m1 = set_fid newfid (reserved_entry path (wt_resolved t) (mf_next_backing m)) (snd (take_backing_fid m))"
      using r by (auto simp: walk_reserve_def Let_def case_prod_beta split: if_splits option.splits list.splits)
    then show ?thesis
      using assms(2) t cand [of _ path]
      by (auto simp: task_auth_def reserved_entry_def entry_auth_def intro!: conf_set)
  next
    case False
    then show ?thesis
      using r assms(2)
      by (auto simp: walk_reserve_def Let_def case_prod_beta synthetic_entry_def entry_auth_def
          split: if_splits option.splits list.splits intro!: conf_set)
  qed
  show ?thesis
  proof (cases r)
    case (Inr t)
    then show ?thesis
      using r m1 walk_candidates_conf [OF assms(1), of m1 t w] assms(3) by (simp add: mount_walk_def)
  qed (use r m1 assms(3) in \<open>simp add: mount_walk_def\<close>)
qed

lemma forward_conf:
  assumes "respects_authority T P tree_call" "auth T r" "P w"
  shows "P (snd (snd (forward tree_call r req e (m, w))))"
  using call_auth [OF assms, of req] by (simp add: forward_def case_prod_beta split: option.splits sum.splits)

lemma read_all_conf:
  assumes "respects_authority T P tree_call" "auth T r" "P w"
  shows "P (snd (read_all tree_call r fid fuel out w))"
  using assms(3)
proof (induction fuel arbitrary: out w)
  case (Suc fuel)
  have "P (snd (resolved_call tree_call r (ReqRead fid (of_nat (length out)) 4096) w))"
    using call_auth [OF assms(1,2) Suc.prems] .
  with Suc.IH show ?case by (simp add: and_then_def split: option.splits sum.splits response.splits)
qed simp

lemma contributor_conf:
  assumes "respects_authority T P tree_call" "auth T r" "P w"
  shows "P (snd (read_contributor_listing tree_call fuel r fid w))"
proof -
  have "P (snd (resolved_call tree_call r (ReqOpen fid OpenRead) w))" using call_auth [OF assms] .
  then show ?thesis
    using read_all_conf [OF assms(1,2)]
    by (simp add: read_contributor_listing_def and_then_def split: option.splits sum.splits response.splits)
qed

lemma merge_conf:
  assumes "respects_authority T P tree_call" "\<forall>c\<in>set cands. auth T c" "P (snd mw)"
  shows "P (snd (snd (merge_contributors tree_call fuel cands names mw)))"
  using assms(2,3)
proof (induction cands arbitrary: names mw)
  case (Cons cand cands)
  obtain m w where mw: "mw = (m, w)" by fastforce
  have a: "auth T cand" using Cons.prems by simp
  define w1 where "w1 = snd (resolved_call tree_call cand (ReqWalk ROOT (mf_next_backing m) (res_rel cand)) w)"
  define w2 where "w2 = snd (read_contributor_listing tree_call fuel cand (mf_next_backing m) w1)"
  define w3 where "w3 = snd (resolved_call tree_call cand (ReqClunk (mf_next_backing m)) w2)"
  have P: "P w1" "P w2" "P w3"
    unfolding w1_def w2_def w3_def using Cons.prems mw call_auth contributor_conf assms(1) a by (metis snd_conv)+
  have IH: "P (snd (snd (merge_contributors tree_call fuel cands names' (m', w'))))" if "P w'" for names' m' w'
    using Cons.IH [of "(m', w')"] Cons.prems that by simp
  show ?case
    using P IH by (simp add: mw case_prod_beta Let_def w1_def w2_def w3_def split: option.splits sum.splits response.splits)
qed simp

lemma mount_read_conf:
  assumes "respects_authority T P tree_call" "conf T m" "P w"
  shows "P (snd (snd (mount_read tree_call fuel fid off c (m, w))))"
proof -
  have "P (snd (snd (merged_dir_listing tree_call fuel path (m, w))))" for path
  proof -
    have "\<forall>c\<in>set (mount_candidates m path). auth T c" using candidates_auth [OF assms(2)] by blast
    then have "P (snd (snd (merge_contributors tree_call fuel (mount_candidates m path) [] (m, w))))"
      using assms(3) by (intro merge_conf [OF assms(1)]) simp_all
    then show ?thesis by (simp add: merged_dir_listing_def and_then_def split: option.splits sum.splits)
  qed
  then show ?thesis
    using assms
    by (auto simp: mount_read_def and_then_def split: option.splits sum.splits mount_target_node.splits
        intro: forward_conf conf_target)
qed

lemma mount_create_conf:
  assumes "respects_authority T P tree_call" "conf T m" "P w"
  shows "conf T (fst (snd (mount_create tree_call fid newfid name kind (m, w)))) \<and>
    P (snd (snd (mount_create tree_call fid newfid name kind (m, w))))"
proof -
  obtain r m1 where r: "create_reserve fid newfid name m = (r, m1)" by fastforce
  have m1: "conf T m1" and t: "\<And>t. r = Inr t \<Longrightarrow> auth T (ct_resolved t)"
    using r assms(2)
    by (auto simp: create_reserve_def entry_auth_def conf_entry split: if_splits option.splits intro!: conf_set)
  show ?thesis
  proof (cases r)
    case (Inr t)
    define w1 where "w1 = snd (resolved_call tree_call (ct_resolved t)
      (ReqCreate (ct_dir_fid t) (mf_next_backing m1) name kind) w)"
    have "P w1" unfolding w1_def using call_auth [OF assms(1) t assms(3)] Inr by blast
    moreover have "P (snd (resolved_call tree_call (ct_resolved t) (ReqClunk (mf_next_backing m1)) w1))"
      using call_auth [OF assms(1) t \<open>P w1\<close>] Inr by blast
    moreover have "conf T (snd (create_publish t b q (snd (take_backing_fid m1))))" for b q
      using m1 t Inr by (auto simp: create_publish_def entry_auth_def split: option.splits intro!: conf_set)
    ultimately show ?thesis
      using r Inr m1 conf_drop [of T "snd (take_backing_fid m1)" newfid]
      by (auto simp: mount_create_def case_prod_beta Let_def w1_def
          split: option.splits sum.splits response.splits bool.splits)
  qed (use r m1 assms in \<open>simp add: mount_create_def\<close>)
qed

lemma mount_call_conf:
  assumes "respects_authority T P tree_call" "conf T m" "P w"
  shows "conf T (fst (snd (in_process_call (mount_server tree_call hasher fuel) req (m, w)))) \<and>
    P (snd (snd (in_process_call (mount_server tree_call hasher fuel) req (m, w))))"
proof (cases req)
  case (ReqWalk fid newfid names)
  then show ?thesis using mount_walk_conf [OF assms] by (simp add: mount_server_def)
next
  case (ReqOpen fid mode)
  then show ?thesis
    using assms
    by (auto simp: mount_server_def mount_open_def split: sum.splits mount_target_node.splits
        intro: forward_conf conf_target)
next
  case (ReqRead fid off c)
  then show ?thesis
    using assms(2) mount_read_conf [OF assms, of fuel fid off c] mount_read_frame [of tree_call fuel fid off c m w]
    by (simp add: mount_server_def conf_def)
next
  case (ReqWrite fid off d)
  then show ?thesis
    using assms
    by (auto simp: mount_server_def mount_write_def split: sum.splits mount_target_node.splits
        intro: forward_conf conf_target)
next
  case (ReqStat fid)
  then show ?thesis
    using assms
    by (auto simp: mount_server_def mount_stat_def split: sum.splits mount_target_node.splits
        intro: forward_conf conf_target)
next
  case (ReqCreate fid newfid name kind)
  then show ?thesis using mount_create_conf [OF assms] by (simp add: mount_server_def)
next
  case (ReqRemove fid)
  then show ?thesis
    using assms
    by (auto simp: mount_server_def mount_remove_def split: option.splits
        intro: conf_drop forward_conf conf_entry)
next
  case (ReqClunk fid)
  show ?thesis
  proof (cases "\<exists>e b. mf_fids m fid = Some e \<and> me_backing e = Some b")
    case True
    then obtain e b where e: "mf_fids m fid = Some e" "me_backing e = Some b" by blast
    have "P (snd (resolved_call tree_call (bk_resolved b) (ReqClunk (bk_fid b)) w))"
      using call_auth [OF assms(1) conf_entry [OF assms(2) e] assms(3)] .
    with e ReqClunk assms(2,3) show ?thesis
      by (auto simp: mount_server_def mount_clunk_def case_prod_beta
          split: option.splits sum.splits response.splits intro!: conf_drop)
  next
    case False
    with ReqClunk assms(2,3) show ?thesis
      by (auto simp: mount_server_def mount_clunk_def split: option.splits intro!: conf_drop)
  qed
qed

lemma mount_run_conf:
  assumes "respects_authority T P tree_call" "conf T m" "P w"
  shows "P (snd (snd (in_process_run (mount_server tree_call hasher fuel) reqs (m, w))))"
  using assms(2,3)
proof (induction reqs arbitrary: m w)
  case (Cons req reqs)
  obtain m1 w1 where "snd (in_process_call (mount_server tree_call hasher fuel) req (m, w)) = (m1, w1)" by fastforce
  moreover from this have "conf T m1" "P w1" using mount_call_conf [OF assms(1) Cons.prems, of hasher fuel req] by auto
  ultimately show ?case using Cons.IH by simp
qed simp

section \<open>Merged listings\<close>

lemma push_listed_distinct: "distinct names \<and> [] \<notin> set names \<Longrightarrow> distinct (push_listed n names) \<and> [] \<notin> set (push_listed n names)"
  by (auto simp: push_listed_def)

lemma fold_push_distinct:
  "distinct names \<and> [] \<notin> set names \<Longrightarrow>
     distinct (fold push_listed ns names) \<and> [] \<notin> set (fold push_listed ns names)"
  by (induction ns arbitrary: names) (simp_all add: push_listed_distinct)

lemma fold_push_set: "set (fold push_listed ns names) = set names \<union> (set ns - {[]})"
  by (induction ns arbitrary: names) (auto simp: push_listed_def)

lemma merge_distinct:
  assumes "merge_contributors tree_call fuel cands names mw = (Some (Ok names'), mw')"
    and "distinct names \<and> [] \<notin> set names"
  shows "distinct names' \<and> [] \<notin> set names' \<and> set names \<subseteq> set names'"
  using assms
proof (induction cands arbitrary: names mw)
  case (Cons cand cands)
  obtain m w where mw: "mw = (m, w)" by fastforce
  have push: "distinct (fold push_listed ns names) \<and> [] \<notin> set (fold push_listed ns names)" for ns
    using Cons.prems(2) by (rule fold_push_distinct)
  from Cons.prems(1) consider m1 w1 where "merge_contributors tree_call fuel cands names (m1, w1) = (Some (Ok names'), mw')"
    | ns m1 w1 where "merge_contributors tree_call fuel cands (fold push_listed ns names) (m1, w1) = (Some (Ok names'), mw')"
    by (auto simp: mw case_prod_beta Let_def split: option.splits sum.splits response.splits if_splits)
  then show ?case
  proof cases
    case 1
    then show ?thesis using Cons.IH Cons.prems(2) by blast
  next
    case (2 ns)
    then show ?thesis using Cons.IH [OF 2 push] by (auto simp: fold_push_set)
  qed
qed simp

section \<open>Cancelled walks\<close>

text \<open>The atomic updates of the fid table, by whichever operation and in whatever order: the parts of
  walks and creates between their awaits, the removal of an entry by clunk, remove or a failed
  create, and fid allocation by a listing. The mount table may change at any time.\<close>

inductive mount_step :: "'t mount_fs \<Rightarrow> 't mount_fs \<Rightarrow> bool" where
  reserve: "mount_step m (snd (walk_reserve hasher fid newfid names m))"
| next_candidate: "mount_step m (snd (walk_next t m))"
| publish: "mount_step m (snd (walk_publish t qid m))"
| synthetic: "mount_step m (snd (walk_synthetic hasher t m))"
| release: "mount_step m (snd (walk_release t m))"
| create_reserve: "mount_step m (snd (create_reserve fid newfid name m))"
| create_publish: "mount_step m (snd (create_publish c backing_newfid qid m))"
| drop_entry: "mount_step m (drop_fid fid m)"
| take_fid: "mount_step m (snd (take_backing_fid m))"
| remount: "mount_step m (m\<lparr>mf_live := live\<rparr>)"

lemma owns_set:
  "owns_reservation (set_fid n e m) f b \<longleftrightarrow>
     (if f = n then me_reserved e \<and> (case me_backing e of Some k \<Rightarrow> bk_fid k = b | None \<Rightarrow> False)
      else owns_reservation m f b)"
  by (simp add: owns_reservation_def)

lemma owns_others [simp]:
  "owns_reservation (drop_fid n m) f b \<longleftrightarrow> f \<noteq> n \<and> owns_reservation m f b"
  "owns_reservation (snd (take_backing_fid m)) f b = owns_reservation m f b"
  "owns_reservation (m\<lparr>mf_live := live\<rparr>) f b = owns_reservation m f b"
  by (simp_all add: owns_reservation_def)

definition fresh_step :: "'t mount_fs \<Rightarrow> 't mount_fs \<Rightarrow> bool" where
  "fresh_step m m' \<longleftrightarrow>
     (mf_next_backing m' = mf_next_backing m \<or> mf_next_backing m' = mf_next_backing m + 1) \<and>
     (\<exists>n. \<forall>f b. owns_reservation m' f b \<longrightarrow> owns_reservation m f b \<or>
        (f = n \<and> b = mf_next_backing m \<and> mf_next_backing m' = mf_next_backing m + 1))"

lemma mount_step_fresh: "mount_step m m' \<Longrightarrow> fresh_step m m'"
proof (induction rule: mount_step.induct)
  case (reserve m hasher fid newfid names)
  then show ?case
    by (auto simp: fresh_step_def walk_reserve_def Let_def case_prod_beta owns_set synthetic_entry_def
        reserved_entry_def split: option.splits list.splits intro!: exI [of _ newfid])
next
  case (next_candidate m t)
  then show ?case
    by (auto simp: fresh_step_def walk_next_def Let_def case_prod_beta owns_set
        split: list.splits intro!: exI [of _ "wt_newfid t"])
qed (auto simp: fresh_step_def walk_publish_def walk_synthetic_def walk_release_def create_reserve_def
      create_publish_def owns_set synthetic_entry_def split: option.splits)

definition reservation_inv :: "'t mount_fs \<Rightarrow> bool" where
  "reservation_inv m \<longleftrightarrow>
     (\<forall>f b. owns_reservation m f b \<longrightarrow> b < mf_next_backing m) \<and>
     (\<forall>f f' b. owns_reservation m f b \<longrightarrow> owns_reservation m f' b \<longrightarrow> f = f')"

definition stale :: "fid \<Rightarrow> 't mount_fs \<Rightarrow> bool" where
  "stale b m \<longleftrightarrow> b < mf_next_backing m \<and> (\<forall>f. \<not> owns_reservation m f b)"

lemma word_succ_less:
  fixes n :: u64
  assumes "unat n + 1 < 2 ^ 64"
  shows "n < n + 1" "unat (n + 1) = unat n + 1"
proof -
  show u: "unat (n + 1) = unat n + 1" using assms by (simp add: unat_word_ariths)
  show "n < n + 1" by (simp add: word_less_nat_alt u)
qed

lemma reservation_inv_step:
  assumes "fresh_step m m'" "reservation_inv m" "unat (mf_next_backing m) + 1 < 2 ^ 64"
  shows "reservation_inv m'"
proof -
  obtain n where n: "\<And>f b. owns_reservation m' f b \<Longrightarrow> owns_reservation m f b \<or>
      (f = n \<and> b = mf_next_backing m \<and> mf_next_backing m' = mf_next_backing m + 1)"
    using assms(1) unfolding fresh_step_def by blast
  have le: "mf_next_backing m \<le> mf_next_backing m'"
    using assms(1) word_succ_less [OF assms(3)] unfolding fresh_step_def by auto
  have old: "b < mf_next_backing m" if "owns_reservation m f b" for f b
    using assms(2) that unfolding reservation_inv_def by blast
  show ?thesis
    unfolding reservation_inv_def
  proof (intro conjI allI impI)
    fix f b
    assume "owns_reservation m' f b"
    then show "b < mf_next_backing m'"
      using n old le word_succ_less [OF assms(3)] by fastforce
  next
    fix f f' b
    assume "owns_reservation m' f b" "owns_reservation m' f' b"
    then show "f = f'"
      using n old assms(2) unfolding reservation_inv_def by (metis order.irrefl)
  qed
qed

lemma stale_step:
  assumes "fresh_step m m'" "stale b m" "unat (mf_next_backing m) + 1 < 2 ^ 64"
  shows "stale b m'"
  using assms(1,2) word_succ_less [OF assms(3)] unfolding fresh_step_def stale_def
  by (metis order.irrefl order.strict_trans)

lemma next_backing_step:
  assumes "fresh_step m m'" "unat (mf_next_backing m) + 1 < 2 ^ 64"
  shows "unat (mf_next_backing m') \<le> unat (mf_next_backing m) + 1"
  using assms word_succ_less [OF assms(2)] unfolding fresh_step_def by auto

lemma mount_steps_inv:
  assumes "(mount_step ^^ k) m m'" "unat (mf_next_backing m) + k < 2 ^ 64"
  shows "unat (mf_next_backing m') \<le> unat (mf_next_backing m) + k \<and>
    (reservation_inv m \<longrightarrow> reservation_inv m') \<and> (stale b m \<longrightarrow> stale b m')"
  using assms
proof (induction k arbitrary: m')
  case (Suc k)
  then obtain m1 where m1: "(mount_step ^^ k) m m1" "mount_step m1 m'" by auto
  have IH: "unat (mf_next_backing m1) \<le> unat (mf_next_backing m) + k"
    "reservation_inv m \<longrightarrow> reservation_inv m1" "stale b m \<longrightarrow> stale b m1"
    using Suc.IH [OF m1(1)] Suc.prems(2) by simp_all
  have lt: "unat (mf_next_backing m1) + 1 < 2 ^ 64" using IH(1) Suc.prems(2) by simp
  have fs: "fresh_step m1 m'" using m1(2) by (rule mount_step_fresh)
  show ?case
    using next_backing_step [OF fs lt] IH reservation_inv_step [OF fs _ lt] stale_step [OF fs _ lt] by auto
qed simp

lemma mount_new_inv: "reservation_inv (mount_fs_new live n)"
  by (simp add: reservation_inv_def mount_fs_new_def owns_reservation_def synthetic_entry_def)

lemma clunked_is_stale:
  assumes "reservation_inv m" "owns_reservation m f b"
  shows "stale b (drop_fid f m)"
  using assms unfolding reservation_inv_def stale_def by auto

section \<open>Properties\<close>

text \<open>
  (C17) Authority is confined: take any fact about the mounted trees that only mutating requests to
  the trees in \<open>T\<close> can falsify, and a namespace that mounts nothing outside \<open>T\<close> read-write. Then no
  sequence of requests to the namespace's file server, whatever fids, paths and data it uses, can
  falsify it.
\<close>

theorem mount_authority_confined:
  assumes "\<And>t req w. P w \<Longrightarrow> (is_mutating req \<Longrightarrow> t \<in> T) \<Longrightarrow> P (snd (tree_call t req w))"
    and "\<forall>mt\<in>set (ns_mounts (ln_ns live)). mount_access mt = ReadWrite \<longrightarrow> mount_tree mt \<in> T"
    and "P w"
  shows "P (snd (snd (in_process_run (mount_server tree_call hasher fuel) reqs (mount_fs_new live n, w))))"
proof (rule mount_run_conf)
  show "respects_authority T P tree_call" using assms(1) by (auto simp: respects_authority_def)
  show "conf T (mount_fs_new live n)"
    using assms(2) by (simp add: conf_def mount_fs_new_def synthetic_entry_def entry_auth_def)
qed (rule assms(3))

theorem mount_authority_confined_witness:
  "snd (snd (in_process_run (mount_server (\<lambda>t req w. (None, if is_mutating req then Suc w else w)) (\<lambda>_. 0) 5)
     [ReqWalk ROOT 4 [''etc'', ''passwd''], ReqWrite 4 0 ''x'', ReqRemove 4]
     (mount_fs_new (live_new (Namespace [Mount [''etc''] (7 :: nat) ReadOnly])) 1, 0 :: nat))) = 0"
  by (rule mount_authority_confined [where P = "\<lambda>w. w = 0" and T = "{}"]) (auto simp: live_new_def)

text \<open>
  (C19) Fids are isolated: a request changes the table entry of at most the fid it binds or releases,
  and no request ever unbinds or rebinds the root.
\<close>

theorem mount_fids_isolated:
  assumes "mf_fids m ROOT = Some e" "\<not> me_reserved e"
    and "in_process_call (mount_server tree_call hasher fuel) req (m, w) = (r, (m', w'))"
  shows "mf_fids m' ROOT = Some e \<and>
    (\<forall>f. binds_fid req \<noteq> Some f \<and> releases_fid req \<noteq> Some f \<longrightarrow> mf_fids m' f = mf_fids m f)"
proof -
  have "mf_fids m' f = mf_fids m f" if "binds_fid req \<noteq> Some f" "releases_fid req \<noteq> Some f" for f
  proof -
    have "own_fid req \<noteq> Some f" using that by (cases "binds_fid req") simp_all
    from mount_call_frame [OF this, of tree_call hasher fuel m w] assms(3) show ?thesis by simp
  qed
  then show ?thesis using mount_call_root [OF assms(1,2), of tree_call hasher fuel req w] assms(3) by simp
qed

theorem mount_fids_isolated_witness:
  "\<exists>r m' w'. in_process_call (mount_server (\<lambda>t req w. (None, w)) (\<lambda>_. 0) 5) (ReqClunk ROOT)
       (mount_fs_new (live_new (namespace_new :: nat namespace)) 1, ()) = (r, (m', w')) \<and>
     mf_fids m' ROOT = Some (synthetic_entry [])"
proof -
  let ?m = "mount_fs_new (live_new (namespace_new :: nat namespace)) 1"
  obtain r m' w' where c: "in_process_call (mount_server (\<lambda>t req w. (None, w)) (\<lambda>_. 0) 5) (ReqClunk ROOT) (?m, ()) = (r, (m', w'))"
    by (metis prod.exhaust)
  have "mf_fids m' ROOT = Some (synthetic_entry [])"
    using mount_fids_isolated [OF _ _ c, of "synthetic_entry []"] by (simp add: mount_fs_new_def synthetic_entry_def)
  with c show ?thesis by blast
qed

text \<open>
  (C18) A clunk wins against a pending walk: once the reservation of a forwarded walk is removed, then
  however many other walks, creates, clunks and remounts follow (even ones that reuse the same outer
  fid), the late response of that walk is never published, it does not fall back to a synthetic
  directory, and it does not move on to another contributor.
\<close>

theorem clunked_walk_never_published:
  assumes "(mount_step ^^ j) (mount_fs_new live n) m" "owns_reservation m (wt_newfid t) (wt_backing t)"
    and "(mount_step ^^ k) (drop_fid (wt_newfid t) m) m'" "unat n + j + k < 2 ^ 64"
  shows "walk_publish t qid m' = (Err BadRequest, m') \<and>
    walk_synthetic hasher t m' = (Err BadRequest, m') \<and> fst (walk_next t m') = None \<and>
    walk_release t m' = (False, m')"
proof -
  have n: "mf_next_backing (mount_fs_new live n) = n" by (simp add: mount_fs_new_def)
  have m: "reservation_inv m" "unat (mf_next_backing m) \<le> unat n + j"
    using mount_steps_inv [OF assms(1)] assms(4) mount_new_inv n by auto
  have "stale (wt_backing t) (drop_fid (wt_newfid t) m)"
    using clunked_is_stale [OF m(1) assms(2)] .
  then have "stale (wt_backing t) m'"
    using mount_steps_inv [OF assms(3)] m(2) assms(4) by simp
  then have not: "\<not> owns_reservation m' f (wt_backing t)" for f by (simp add: stale_def)
  then show ?thesis
    by (simp add: walk_publish_def walk_synthetic_def walk_release_def walk_next_def Let_def case_prod_beta
        split: list.splits)
qed

theorem clunked_walk_never_published_witness:
  "\<exists>m t m'. (mount_step ^^ 1) (mount_fs_new (live_new (Namespace [Mount [] (7 :: nat) ReadOnly])) 1) m \<and>
     owns_reservation m (wt_newfid t) (wt_backing t) \<and>
     (mount_step ^^ 1) (drop_fid (wt_newfid t) m) m' \<and>
     mf_fids m' (wt_newfid t) \<noteq> None \<and>
     walk_publish t \<lparr>qid_kind = KFile, qid_version = 0, qid_path = 0\<rparr> m' = (Err BadRequest, m')"
proof -
  let ?init = "mount_fs_new (live_new (Namespace [Mount [] (7 :: nat) ReadOnly])) 1"
  let ?m = "snd (walk_reserve (\<lambda>_. 0) ROOT 4 [''a''] ?init)"
  let ?t = "\<lparr>wt_newfid = 4, wt_path = [''a''], wt_resolved = Resolved (7 :: nat) [''a''] ReadOnly,
    wt_rest = [], wt_backing = 1\<rparr>"
  let ?m' = "snd (walk_reserve (\<lambda>_. 0) ROOT 4 [''b''] (drop_fid 4 ?m))"
  have c: "mount_candidates m [x] = [Resolved (7 :: nat) [x] ReadOnly]"
    if "ln_ns (mf_live m) = Namespace [Mount [] (7 :: nat) ReadOnly]" "x = ''a'' \<or> x = ''b''" for m x
    using that(2) unfolding mount_candidates_def that(1) by (elim disjE) (simp_all only:, code_simp+)
  have m: "?m = set_fid 4 (reserved_entry [''a''] (Resolved 7 [''a''] ReadOnly) 1) (snd (take_backing_fid ?init))"
    by (simp add: walk_reserve_def mount_fs_new_def synthetic_entry_def c live_new_def Let_def case_prod_beta)
  have m': "mf_fids ?m' 4 \<noteq> None"
    unfolding m
    by (simp add: walk_reserve_def mount_fs_new_def synthetic_entry_def c live_new_def Let_def case_prod_beta)
  have s1: "(mount_step ^^ 1) ?init ?m" by (simp add: eq_OO mount_step.reserve)
  have s2: "(mount_step ^^ 1) (drop_fid (wt_newfid ?t) ?m) ?m'" by (simp add: eq_OO mount_step.reserve)
  have o: "owns_reservation ?m (wt_newfid ?t) (wt_backing ?t)"
    unfolding m by (simp add: owns_set reserved_entry_def)
  have "walk_publish ?t \<lparr>qid_kind = KFile, qid_version = 0, qid_path = 0\<rparr> ?m' = (Err BadRequest, ?m')"
    using clunked_walk_never_published [OF s1 o s2] by simp
  moreover have "mf_fids ?m' (wt_newfid ?t) \<noteq> None" using m' by simp
  ultimately show ?thesis using s1 s2 o by blast
qed

text \<open>
  A merged directory listing names each entry once and no empty entry, and always contains the
  mount points directly below the directory, whatever its contributors list.
\<close>

lemma merged_listing_distinct:
  assumes "merged_dir_listing tree_call fuel path mw = (Some (Ok bytes), mw')"
  shows "\<exists>names. bytes = join_with [newline] names \<and> distinct names \<and> [] \<notin> set names \<and>
    set (synthetic_children (fst mw) path) - {[]} \<subseteq> set names"
proof -
  obtain r mw1 where r: "merge_contributors tree_call fuel (mount_candidates (fst mw) path) [] mw = (r, mw1)"
    by (metis prod.exhaust)
  with assms obtain names where "r = Some (Ok names)" "mw1 = mw'"
    and b: "bytes = join_with [newline] (fold push_listed (synthetic_children (fst mw') path) names)"
    by (cases r; cases "the r") (auto simp: merged_dir_listing_def)
  with r have m: "merge_contributors tree_call fuel (mount_candidates (fst mw) path) [] mw = (Some (Ok names), mw')"
    by simp
  have names: "distinct names \<and> [] \<notin> set names" using merge_distinct [OF m] by simp
  have live: "mf_live (fst mw') = mf_live (fst mw)"
    using merge_contributors_frame [of tree_call fuel "mount_candidates (fst mw) path" "[]" mw] m by simp
  then have "synthetic_children (fst mw') path = synthetic_children (fst mw) path"
    by (simp add: synthetic_children_def mount_prefixes_def)
  with b fold_push_distinct [OF names] show ?thesis by (metis Un_upper2 fold_push_set)
qed

lemma merged_listing_distinct_instance:
  "\<exists>bytes mw'. merged_dir_listing (\<lambda>t req w. (Some (Err NotFound), w)) 3 []
       (mount_fs_new (live_new (Namespace [Mount [''mnt''] (7 :: nat) ReadOnly])) 1, ()) = (Some (Ok bytes), mw') \<and>
     (\<exists>names. bytes = join_with [newline] names \<and> distinct names)"
proof -
  let ?tc = "\<lambda>t req w. (Some (Err NotFound), w)"
  let ?m = "mount_fs_new (live_new (Namespace [Mount [''mnt''] (7 :: nat) ReadOnly])) 1"
  have c: "mount_candidates ?m [] = []"
    by (simp add: mount_candidates_def join_path_def mount_fs_new_def live_new_def resolve_candidates_def
        candidates_def split_path_def is_prefix_def)
  have r: "merged_dir_listing ?tc 3 [] (?m, ()) =
      (Some (Ok (join_with [newline] (fold push_listed (synthetic_children ?m []) []))), (?m, ()))"
    by (simp add: merged_dir_listing_def c)
  show ?thesis using merged_listing_distinct [OF r] r by blast
qed

text \<open>
  A create that is dropped while its backing call is pending keeps its reservation for good: from
  then on the fid cannot be clunked, removed, used or bound again.
\<close>

lemma abandoned_create_keeps_fid:
  assumes "create_reserve fid newfid name m = (Inr t, m')"
  shows "mount_clunk tree_call newfid (m', w) = (Some (Err BadRequest), m', w) \<and>
    mount_remove tree_call newfid (m', w) = (Some (Err BadRequest), m', w) \<and>
    mount_target m' newfid = Err BadRequest \<and>
    mount_walk tree_call hasher other newfid names (m', w) = (Some (Err BadRequest), m', w)"
proof -
  have "newfid \<noteq> ROOT" "\<exists>e. mf_fids m' newfid = Some e \<and> me_reserved e \<and> \<not> me_walk_cancel e"
    using assms by (auto simp: create_reserve_def split: if_splits option.splits)
  then show ?thesis
    by (auto simp: mount_clunk_def mount_remove_def mount_target_def mount_walk_def walk_reserve_def)
qed

lemma abandoned_create_keeps_fid_instance:
  "\<exists>m m' t. create_reserve 3 4 ''x'' (m :: nat mount_fs) = (Inr t, m') \<and>
     mount_clunk (\<lambda>_ _ w. (None, w)) 4 (m', ()) = (Some (Err BadRequest), m', ())"
proof -
  let ?e = "\<lparr>me_path = [], me_backing = Some \<lparr>bk_resolved = Resolved (7 :: nat) [] ReadWrite, bk_fid = 1, bk_is_dir = True\<rparr>,
    me_reserved = False, me_walk_cancel = False\<rparr>"
  let ?m = "set_fid 3 ?e (mount_fs_new (live_new namespace_new) 2)"
  obtain t m' where c: "create_reserve 3 4 ''x'' ?m = (Inr t, m')"
    by (simp add: create_reserve_def mount_fs_new_def)
  show ?thesis
    by (intro exI conjI) (rule c, rule abandoned_create_keeps_fid [OF c, THEN conjunct1])
qed

end
