(* ===== verification/Knowledge_Store.thy ===== *)
theory Knowledge_Store
  imports AP_Prelude "HOL-Library.Finite_Map"
begin

text \<open>
  The content-addressed knowledge store (\<open>crates/knowledge/src/lib.rs\<close>): immutable blocks and
  Merkle nodes named by their hash, namespace-bound roots, pins, verification, materialisation and
  reachability garbage collection. The hash function (\<open>sha2\<close> with \<open>hex\<close>) and the JSON encoding of
  a node (\<open>serde_json\<close>) are the parameter \<open>hashing\<close>. Nothing below assumes that hashes do not
  collide, except where \<open>no_collision\<close> says so.
\<close>

section \<open>Values of the store\<close>

type_synonym content_hash = string

datatype root_access = RootReadOnly | RootReadWrite

datatype retention_policy = KeepUnreachable | CollectUnreachable

record gc_report =
  removed_blocks :: nat
  removed_nodes :: nat

record bound_root =
  br_name :: string
  br_root :: content_hash
  br_access :: root_access

datatype knowledge_error =
    MissingBlock content_hash
  | MissingNode content_hash
  | RootNoAccess
  | HashMismatch content_hash
  | UnknownRoot string
  | Cycle content_hash

type_synonym 'a kres = "knowledge_error + 'a"

datatype dag_entry = BlockEntry content_hash | NodeEntry content_hash

datatype dag_node_kind = Sequence "dag_entry list"

record dag_node =
  dn_version :: "8 word"
  dn_kind :: dag_node_kind

primrec kind_entries :: "dag_node_kind \<Rightarrow> dag_entry list" where
  "kind_entries (Sequence es) = es"

abbreviation node_entries :: "dag_node \<Rightarrow> dag_entry list" where
  "node_entries n \<equiv> kind_entries (dn_kind n)"

record knowledge_store =
  ks_blocks :: "(content_hash, bytes) fmap"
  ks_nodes :: "(content_hash, dag_node) fmap"
  ks_roots :: "(string, bound_root) fmap"
  ks_pinned :: "content_hash set"

record hashing =
  hs_sha_hex :: "bytes \<Rightarrow> string"
  hs_json :: "dag_node \<Rightarrow> bytes"

definition ks_new :: knowledge_store where
  "ks_new = \<lparr>ks_blocks = fmempty, ks_nodes = fmempty, ks_roots = fmempty, ks_pinned = {}\<rparr>"

definition node_bytes :: "hashing \<Rightarrow> dag_node \<Rightarrow> bytes" where
  "node_bytes hs node = hs_json hs node"

definition hash_bytes :: "hashing \<Rightarrow> bytes \<Rightarrow> content_hash" where
  "hash_bytes hs bs = ''sha256:'' @ hs_sha_hex hs bs"

abbreviation block_at :: "knowledge_store \<Rightarrow> content_hash \<Rightarrow> bytes option" where
  "block_at st \<equiv> fmlookup (ks_blocks st)"

abbreviation node_at :: "knowledge_store \<Rightarrow> content_hash \<Rightarrow> dag_node option" where
  "node_at st \<equiv> fmlookup (ks_nodes st)"

section \<open>Writing content\<close>

text \<open>\<open>entry(hash).or_insert(value)\<close>.\<close>

definition or_insert :: "'k \<Rightarrow> 'v \<Rightarrow> ('k, 'v) fmap \<Rightarrow> ('k, 'v) fmap" where
  "or_insert k v m = (if fmlookup m k = None then fmupd k v m else m)"

lemma fmlookup_or_insert [simp]:
  "fmlookup (or_insert k v m) k' = (if k' = k \<and> fmlookup m k = None then Some v else fmlookup m k')"
  by (simp add: or_insert_def)

definition put_block :: "hashing \<Rightarrow> bytes \<Rightarrow> knowledge_store \<Rightarrow> content_hash \<times> knowledge_store" where
  "put_block hs bs st =
     (let hash = hash_bytes hs bs in
      (hash, st\<lparr>ks_blocks := or_insert hash bs (ks_blocks st)\<rparr>))"

definition block_count :: "knowledge_store \<Rightarrow> nat" where
  "block_count st = fcard (fmdom (ks_blocks st))"

definition node_count :: "knowledge_store \<Rightarrow> nat" where
  "node_count st = fcard (fmdom (ks_nodes st))"

definition contains_block :: "knowledge_store \<Rightarrow> content_hash \<Rightarrow> bool" where
  "contains_block st hash \<longleftrightarrow> block_at st hash \<noteq> None"

definition contains_node :: "knowledge_store \<Rightarrow> content_hash \<Rightarrow> bool" where
  "contains_node st hash \<longleftrightarrow> node_at st hash \<noteq> None"

definition put_node :: "hashing \<Rightarrow> dag_node \<Rightarrow> knowledge_store \<Rightarrow> content_hash \<times> knowledge_store" where
  "put_node hs node st =
     (let hash = hash_bytes hs (node_bytes hs node) in
      (hash, st\<lparr>ks_nodes := or_insert hash node (ks_nodes st)\<rparr>))"

text \<open>The loop over block hashes that both checkpoint builders run: the first missing block ends
  it.\<close>

fun block_entries :: "knowledge_store \<Rightarrow> content_hash list \<Rightarrow> dag_entry list kres" where
  "block_entries st [] = Inr []"
| "block_entries st (hash # rest) =
     (if contains_block st hash
      then (case block_entries st rest of Inl e \<Rightarrow> Inl e | Inr es \<Rightarrow> Inr (BlockEntry hash # es))
      else Inl (MissingBlock hash))"

fun put_blocks :: "hashing \<Rightarrow> bytes list \<Rightarrow> knowledge_store \<Rightarrow> content_hash list \<times> knowledge_store" where
  "put_blocks hs [] st = ([], st)"
| "put_blocks hs (bs # rest) st =
     (let (hash, st1) = put_block hs bs st; (hashes, st2) = put_blocks hs rest st1
      in (hash # hashes, st2))"

definition sequence_node :: "dag_entry list \<Rightarrow> dag_node" where
  "sequence_node es = \<lparr>dn_version = 1, dn_kind = Sequence es\<rparr>"

definition checkpoint_from_blocks ::
  "hashing \<Rightarrow> content_hash list \<Rightarrow> knowledge_store \<Rightarrow> content_hash kres \<times> knowledge_store" where
  "checkpoint_from_blocks hs hashes st =
     (case block_entries st hashes of
        Inl e \<Rightarrow> (Inl e, st)
      | Inr es \<Rightarrow> map_prod Inr id (put_node hs (sequence_node es) st))"

definition checkpoint_from_bytes ::
  "hashing \<Rightarrow> bytes list \<Rightarrow> knowledge_store \<Rightarrow> content_hash kres \<times> knowledge_store" where
  "checkpoint_from_bytes hs blocks st =
     (let (hashes, st1) = put_blocks hs blocks st in checkpoint_from_blocks hs hashes st1)"

definition fork_append_blocks ::
  "hashing \<Rightarrow> content_hash \<Rightarrow> content_hash list \<Rightarrow> knowledge_store \<Rightarrow> content_hash kres \<times> knowledge_store" where
  "fork_append_blocks hs base_root hashes st =
     (if \<not> contains_node st base_root then (Inl (MissingNode base_root), st)
      else
        (case block_entries st hashes of
           Inl e \<Rightarrow> (Inl e, st)
         | Inr es \<Rightarrow> map_prod Inr id (put_node hs (sequence_node (NodeEntry base_root # es)) st)))"

definition fork_append_bytes ::
  "hashing \<Rightarrow> content_hash \<Rightarrow> bytes list \<Rightarrow> knowledge_store \<Rightarrow> content_hash kres \<times> knowledge_store" where
  "fork_append_bytes hs base_root blocks st =
     (let (hashes, st1) = put_blocks hs blocks st in fork_append_blocks hs base_root hashes st1)"

section \<open>Roots and pins\<close>

definition bind_root ::
  "string \<Rightarrow> content_hash \<Rightarrow> root_access \<Rightarrow> knowledge_store \<Rightarrow> bound_root kres \<times> knowledge_store" where
  "bind_root name root access st =
     (if \<not> contains_node st root then (Inl (MissingNode root), st)
      else
        (let bound = \<lparr>br_name = name, br_root = root, br_access = access\<rparr> in
         (Inr bound, st\<lparr>ks_roots := fmupd name bound (ks_roots st)\<rparr>)))"

definition unbind_root :: "string \<Rightarrow> knowledge_store \<Rightarrow> unit kres \<times> knowledge_store" where
  "unbind_root name st =
     (case fmlookup (ks_roots st) name of
        None \<Rightarrow> (Inl (UnknownRoot name), st)
      | Some _ \<Rightarrow> (Inr (), st\<lparr>ks_roots := fmdrop name (ks_roots st)\<rparr>))"

definition ks_root :: "string \<Rightarrow> knowledge_store \<Rightarrow> bound_root kres" where
  "ks_root name st =
     (case fmlookup (ks_roots st) name of None \<Rightarrow> Inl (UnknownRoot name) | Some b \<Rightarrow> Inr b)"

text \<open>\<open>values\<close> is the iteration of the map of roots, in the order the hash map has.\<close>

definition authorize_reachable_hash :: "bound_root list \<Rightarrow> content_hash \<Rightarrow> bound_root kres" where
  "authorize_reachable_hash values root =
     (case find (\<lambda>b. br_root b = root) values of None \<Rightarrow> Inl RootNoAccess | Some b \<Rightarrow> Inr b)"

definition pin_root :: "content_hash \<Rightarrow> knowledge_store \<Rightarrow> unit kres \<times> knowledge_store" where
  "pin_root root st =
     (if \<not> contains_node st root then (Inl (MissingNode root), st)
      else (Inr (), st\<lparr>ks_pinned := insert root (ks_pinned st)\<rparr>))"

definition unpin_root :: "content_hash \<Rightarrow> knowledge_store \<Rightarrow> knowledge_store" where
  "unpin_root root st = st\<lparr>ks_pinned := ks_pinned st - {root}\<rparr>"

definition replace_block_for_test :: "content_hash \<Rightarrow> bytes \<Rightarrow> knowledge_store \<Rightarrow> unit kres \<times> knowledge_store" where
  "replace_block_for_test hash bs st =
     (case block_at st hash of
        None \<Rightarrow> (Inl (MissingBlock hash), st)
      | Some _ \<Rightarrow> (Inr (), st\<lparr>ks_blocks := fmupd hash bs (ks_blocks st)\<rparr>))"

section \<open>Verification and materialisation\<close>

text \<open>
  Both recursions thread a set of the nodes being visited: a node inserts itself on entry and
  removes itself when it returns normally, so the set a sibling sees is the one its parent passed.
  They end because each level adds a node of the store to that set.
\<close>

abbreviation unvisited :: "knowledge_store \<Rightarrow> content_hash set \<Rightarrow> nat" where
  "unvisited st visited \<equiv> card (fset (fmdom (ks_nodes st)) - visited)"

lemma unvisited_insert:
  "root \<notin> visited \<Longrightarrow> node_at st root = Some node \<Longrightarrow> unvisited st (insert root visited) < unvisited st visited"
  by (rule psubset_card_mono) (auto dest: fmdomI)

lemma unvisited_mono: "v \<subseteq> v' \<Longrightarrow> unvisited st v' \<le> unvisited st v"
  by (rule card_mono) auto

function materialize_node :: "knowledge_store \<Rightarrow> content_hash \<Rightarrow> content_hash set \<Rightarrow> bytes kres"
  and materialize_entries :: "knowledge_store \<Rightarrow> dag_entry list \<Rightarrow> content_hash set \<Rightarrow> bytes kres" where
  "materialize_node st root visiting =
     (if root \<in> visiting then Inl (Cycle root)
      else
        (case node_at st root of
           None \<Rightarrow> Inl (MissingNode root)
         | Some node \<Rightarrow> materialize_entries st (node_entries node) (insert root visiting)))"
| "materialize_entries st [] visiting = Inr []"
| "materialize_entries st (BlockEntry hash # es) visiting =
     (case block_at st hash of
        None \<Rightarrow> Inl (MissingBlock hash)
      | Some bs \<Rightarrow> map_sum id ((@) bs) (materialize_entries st es visiting))"
| "materialize_entries st (NodeEntry hash # es) visiting =
     (case materialize_node st hash visiting of
        Inl e \<Rightarrow> Inl e
      | Inr bs \<Rightarrow> map_sum id ((@) bs) (materialize_entries st es visiting))"
  by pat_completeness auto
termination
  by (relation "measures [case_sum (\<lambda>(st, root, v). unvisited st v) (\<lambda>(st, es, v). unvisited st v),
      case_sum (\<lambda>_. 0) (\<lambda>(st, es, v). Suc (length es))]")
    (auto simp: unvisited_insert)

function verify_node :: "hashing \<Rightarrow> knowledge_store \<Rightarrow> content_hash \<Rightarrow> content_hash set \<Rightarrow> unit kres"
  and verify_entries :: "hashing \<Rightarrow> knowledge_store \<Rightarrow> dag_entry list \<Rightarrow> content_hash set \<Rightarrow> unit kres" where
  "verify_node hs st root visiting =
     (if root \<in> visiting then Inl (Cycle root)
      else
        (case node_at st root of
           None \<Rightarrow> Inl (MissingNode root)
         | Some node \<Rightarrow>
             if hash_bytes hs (node_bytes hs node) \<noteq> root then Inl (HashMismatch root)
             else verify_entries hs st (node_entries node) (insert root visiting)))"
| "verify_entries hs st [] visiting = Inr ()"
| "verify_entries hs st (BlockEntry hash # es) visiting =
     (case block_at st hash of
        None \<Rightarrow> Inl (MissingBlock hash)
      | Some bs \<Rightarrow>
          if hash_bytes hs bs \<noteq> hash then Inl (HashMismatch hash) else verify_entries hs st es visiting)"
| "verify_entries hs st (NodeEntry hash # es) visiting =
     (case verify_node hs st hash visiting of
        Inl e \<Rightarrow> Inl e
      | Inr _ \<Rightarrow> verify_entries hs st es visiting)"
  by pat_completeness auto
termination
  by (relation "measures [case_sum (\<lambda>(hs, st, root, v). unvisited st v) (\<lambda>(hs, st, es, v). unvisited st v),
      case_sum (\<lambda>_. 0) (\<lambda>(hs, st, es, v). Suc (length es))]")
    (auto simp: unvisited_insert)

declare materialize_node.simps [simp del] verify_node.simps [simp del]

definition verify_root_hash :: "hashing \<Rightarrow> knowledge_store \<Rightarrow> content_hash \<Rightarrow> unit kres" where
  "verify_root_hash hs st root = verify_node hs st root {}"

definition read_bound_root :: "hashing \<Rightarrow> knowledge_store \<Rightarrow> bound_root \<Rightarrow> bytes kres" where
  "read_bound_root hs st root =
     (case fmlookup (ks_roots st) (br_name root) of
        Some current \<Rightarrow>
          if current = root then
            (case verify_root_hash hs st (br_root root) of
               Inl e \<Rightarrow> Inl e
             | Inr _ \<Rightarrow> materialize_node st (br_root root) {})
          else Inl RootNoAccess
      | None \<Rightarrow> Inl RootNoAccess)"

section \<open>Garbage collection\<close>

text \<open>Marking threads the marked nodes and blocks through the whole traversal; it ends because a
  call never unmarks a node.\<close>

type_synonym marks = "content_hash set \<times> content_hash set"

function mark_reachable :: "knowledge_store \<Rightarrow> content_hash \<Rightarrow> marks \<Rightarrow> marks"
  and mark_entries :: "knowledge_store \<Rightarrow> dag_entry list \<Rightarrow> marks \<Rightarrow> marks" where
  "mark_reachable st root m =
     (if root \<in> fst m then m
      else
        (case node_at st root of
           None \<Rightarrow> (insert root (fst m), snd m)
         | Some node \<Rightarrow> mark_entries st (node_entries node) (insert root (fst m), snd m)))"
| "mark_entries st [] m = m"
| "mark_entries st (BlockEntry hash # es) m = mark_entries st es (fst m, insert hash (snd m))"
| "mark_entries st (NodeEntry hash # es) m = mark_entries st es (mark_reachable st hash m)"
  by pat_completeness auto

termination
proof -
  have grows: "mark_reachable_mark_entries_dom (Inl (st, root, m)) \<Longrightarrow> fst m \<subseteq> fst (mark_reachable st root m)"
    "mark_reachable_mark_entries_dom (Inr (st, es, m)) \<Longrightarrow> fst m \<subseteq> fst (mark_entries st es m)" for st root es m
    by (induction st root m and st es m rule: mark_reachable_mark_entries.pinduct)
      (auto simp: mark_reachable.psimps mark_entries.psimps split: option.splits)
  show ?thesis
    by (relation "measures [case_sum (\<lambda>(st, root, m). unvisited st (fst m)) (\<lambda>(st, es, m). unvisited st (fst m)),
        case_sum (\<lambda>_. 0) (\<lambda>(st, es, m). Suc (length es))]")
      (auto simp: unvisited_insert le_eq_less_or_eq [symmetric] intro!: unvisited_mono grows)
qed

declare mark_reachable.simps [simp del]

definition gc_roots :: "knowledge_store \<Rightarrow> content_hash set" where
  "gc_roots st = br_root ` fmran' (ks_roots st) \<union> ks_pinned st"

text \<open>\<open>roots\<close> is the vector of bound and pinned roots, in the order the hash map and the hash set
  have.\<close>

definition collect_garbage ::
  "retention_policy \<Rightarrow> content_hash list \<Rightarrow> knowledge_store \<Rightarrow> gc_report \<times> knowledge_store" where
  "collect_garbage policy roots st =
     (if policy = KeepUnreachable then (\<lparr>removed_blocks = 0, removed_nodes = 0\<rparr>, st)
      else
        (let (reachable_nodes, reachable_blocks) = fold (mark_reachable st) roots ({}, {});
             st' = st\<lparr>ks_blocks := fmfilter (\<lambda>h. h \<in> reachable_blocks) (ks_blocks st),
               ks_nodes := fmfilter (\<lambda>h. h \<in> reachable_nodes) (ks_nodes st)\<rparr>
         in (\<lparr>removed_blocks = block_count st - block_count st',
              removed_nodes = node_count st - node_count st'\<rparr>, st')))"


section \<open>Reachability and marking\<close>

definition dag_child :: "knowledge_store \<Rightarrow> content_hash \<Rightarrow> content_hash \<Rightarrow> bool" where
  "dag_child st a b \<longleftrightarrow> (\<exists>node. node_at st a = Some node \<and> NodeEntry b \<in> set (node_entries node))"

abbreviation dag_reach :: "knowledge_store \<Rightarrow> content_hash \<Rightarrow> content_hash \<Rightarrow> bool" where
  "dag_reach st \<equiv> (dag_child st)\<^sup>*\<^sup>*"

definition block_reach :: "knowledge_store \<Rightarrow> content_hash \<Rightarrow> content_hash \<Rightarrow> bool" where
  "block_reach st a h \<longleftrightarrow>
     (\<exists>b node. dag_reach st a b \<and> node_at st b = Some node \<and> BlockEntry h \<in> set (node_entries node))"

lemma dag_reach_child:
  "node_at st a = Some node \<Longrightarrow> NodeEntry b \<in> set (node_entries node) \<Longrightarrow> dag_reach st b c \<Longrightarrow> dag_reach st a c"
  by (rule converse_rtranclp_into_rtranclp) (auto simp: dag_child_def)

lemma block_reach_child:
  "node_at st a = Some node \<Longrightarrow> NodeEntry b \<in> set (node_entries node) \<Longrightarrow> block_reach st b h \<Longrightarrow> block_reach st a h"
  by (auto simp: block_reach_def intro: dag_reach_child)

lemma block_reach_own:
  "node_at st a = Some node \<Longrightarrow> BlockEntry h \<in> set (node_entries node) \<Longrightarrow> block_reach st a h"
  by (auto simp: block_reach_def)

text \<open>A marked node is done when everything its entries name is marked too.\<close>

definition node_done :: "knowledge_store \<Rightarrow> marks \<Rightarrow> content_hash \<Rightarrow> bool" where
  "node_done st m x \<longleftrightarrow> (\<forall>node. node_at st x = Some node \<longrightarrow>
     (\<forall>h. NodeEntry h \<in> set (node_entries node) \<longrightarrow> h \<in> fst m) \<and>
     (\<forall>h. BlockEntry h \<in> set (node_entries node) \<longrightarrow> h \<in> snd m))"

definition marks_le :: "marks \<Rightarrow> marks \<Rightarrow> bool" where
  "marks_le m m' \<longleftrightarrow> fst m \<subseteq> fst m' \<and> snd m \<subseteq> snd m'"

lemma marks_le_refl [simp]: "marks_le m m"
  by (simp add: marks_le_def)

lemma marks_le_trans: "marks_le a b \<Longrightarrow> marks_le b c \<Longrightarrow> marks_le a c"
  by (auto simp: marks_le_def)

lemma marks_leD: "marks_le m m' \<Longrightarrow> x \<in> fst m \<Longrightarrow> x \<in> fst m'" "marks_le m m' \<Longrightarrow> x \<in> snd m \<Longrightarrow> x \<in> snd m'"
  by (auto simp: marks_le_def)

lemma node_done_mono: "node_done st m x \<Longrightarrow> marks_le m m' \<Longrightarrow> node_done st m' x"
  unfolding node_done_def by (meson marks_leD)

lemma mark_grows:
  "marks_le m (mark_reachable st root m)"
  "marks_le m (mark_entries st es m)"
proof (induction st root m and st es m rule: mark_reachable_mark_entries.induct)
  case (1 st root m)
  then show ?case by (subst mark_reachable.simps) (auto simp: marks_le_def split: option.splits)
qed (auto simp: marks_le_def)

lemma mark_complete:
  "root \<in> fst (mark_reachable st root m) \<and>
     (\<forall>x \<in> fst (mark_reachable st root m) - fst m. node_done st (mark_reachable st root m) x)"
  "(\<forall>h. NodeEntry h \<in> set es \<longrightarrow> h \<in> fst (mark_entries st es m)) \<and>
     (\<forall>h. BlockEntry h \<in> set es \<longrightarrow> h \<in> snd (mark_entries st es m)) \<and>
     (\<forall>x \<in> fst (mark_entries st es m) - fst m. node_done st (mark_entries st es m) x)"
proof (induction st root m and st es m rule: mark_reachable_mark_entries.induct)
  case (1 st root m)
  show ?case
  proof (cases "root \<in> fst m \<or> node_at st root = None")
    case True
    then show ?thesis by (subst (1 2 3) mark_reachable.simps) (auto simp: node_done_def)
  next
    case False
    then obtain node where node: "root \<notin> fst m" "node_at st root = Some node" by auto
    let ?m = "(insert root (fst m), snd m)" and ?m' = "mark_reachable st root m"
    have eq: "?m' = mark_entries st (node_entries node) ?m"
      using node by (subst mark_reachable.simps) simp
    note IH = "1.IH" [OF node, folded eq]
    have "root \<in> fst ?m'" using mark_grows(2) [of ?m st "node_entries node", folded eq] by (auto simp: marks_le_def)
    moreover have "node_done st ?m' root" using IH node by (auto simp: node_done_def)
    ultimately show ?thesis using IH by auto
  qed
next
  case (3 st hash es m)
  then show ?case using mark_grows(2) [of "(fst m, insert hash (snd m))" st es] by (auto simp: marks_le_def)
next
  case (4 st hash es m)
  let ?m1 = "mark_reachable st hash m"
  have le: "marks_le ?m1 (mark_entries st es ?m1)" by (rule mark_grows)
  show ?case using 4 node_done_mono [OF _ le] marks_leD [OF le] by auto
qed simp

lemma mark_sound:
  "fst (mark_reachable st root m) \<subseteq> fst m \<union> {x. dag_reach st root x} \<and>
     snd (mark_reachable st root m) \<subseteq> snd m \<union> {h. block_reach st root h}"
  "fst (mark_entries st es m) \<subseteq> fst m \<union> {x. \<exists>a. NodeEntry a \<in> set es \<and> dag_reach st a x} \<and>
     snd (mark_entries st es m) \<subseteq>
       snd m \<union> {h. BlockEntry h \<in> set es \<or> (\<exists>a. NodeEntry a \<in> set es \<and> block_reach st a h)}"
proof (induction st root m and st es m rule: mark_reachable_mark_entries.induct)
  case (1 st root m)
  show ?case
  proof (cases "root \<in> fst m \<or> node_at st root = None")
    case True
    then show ?thesis by (subst (1 2) mark_reachable.simps) auto
  next
    case False
    then obtain node where node: "root \<notin> fst m" "node_at st root = Some node" by auto
    have eq: "mark_reachable st root m = mark_entries st (node_entries node) (insert root (fst m), snd m)"
      using node by (subst mark_reachable.simps) simp
    have "dag_reach st root x" if "NodeEntry a \<in> set (node_entries node)" "dag_reach st a x" for a x
      using dag_reach_child [OF node(2) that] .
    moreover have "block_reach st root h" if "NodeEntry a \<in> set (node_entries node)" "block_reach st a h" for a h
      using block_reach_child [OF node(2) that] .
    moreover have "block_reach st root h" if "BlockEntry h \<in> set (node_entries node)" for h
      using block_reach_own [OF node(2) that] .
    ultimately show ?thesis unfolding eq using "1.IH" [OF node] by (simp add: subset_iff) (metis rtranclp.rtrancl_refl)
  qed
next
  case (3 st hash es m)
  then show ?case by auto
next
  case (4 st hash es m)
  then show ?case by (simp add: subset_iff) blast
qed simp

text \<open>Marking from a list of roots computes exactly what they reach, whatever the order.\<close>

lemma mark_all_done:
  assumes "\<forall>x \<in> fst m. node_done st m x"
  shows "(\<forall>x \<in> fst (fold (mark_reachable st) roots m). node_done st (fold (mark_reachable st) roots m) x) \<and>
    set roots \<subseteq> fst (fold (mark_reachable st) roots m) \<and> marks_le m (fold (mark_reachable st) roots m)"
  using assms
proof (induction roots arbitrary: m)
  case (Cons r roots)
  let ?m = "mark_reachable st r m"
  have grow: "marks_le m ?m" by (rule mark_grows)
  have "\<forall>x \<in> fst ?m. node_done st ?m x"
    using mark_complete(1) [of r st m] Cons.prems node_done_mono [OF _ grow] by blast
  from Cons.IH [OF this] mark_complete(1) [of r st m] grow show ?case
    by (auto intro: marks_le_trans marks_leD)
qed simp

lemma done_closed:
  assumes "dag_reach st a x" "a \<in> fst m" "\<forall>y \<in> fst m. node_done st m y"
  shows "x \<in> fst m"
  using assms
proof (induction rule: rtranclp_induct)
  case (step y z)
  then have "y \<in> fst m" "node_done st m y" by auto
  with step(2) show ?case by (auto simp: dag_child_def node_done_def)
qed

lemma mark_fold_sound:
  "fst (fold (mark_reachable st) roots m) \<subseteq> fst m \<union> {x. \<exists>r \<in> set roots. dag_reach st r x} \<and>
   snd (fold (mark_reachable st) roots m) \<subseteq> snd m \<union> {h. \<exists>r \<in> set roots. block_reach st r h}"
proof (induction roots arbitrary: m)
  case (Cons r roots)
  show ?case using Cons.IH [of "mark_reachable st r m"] mark_sound(1) [of st r m] by auto
qed simp

lemma mark_fold:
  "fold (mark_reachable st) roots ({}, {}) =
     ({x. \<exists>r \<in> set roots. dag_reach st r x}, {h. \<exists>r \<in> set roots. block_reach st r h})"
proof -
  let ?m = "fold (mark_reachable st) roots ({}, {})"
  have closed: "\<forall>x \<in> fst ?m. node_done st ?m x" and roots: "set roots \<subseteq> fst ?m"
    using mark_all_done [of "({}, {})" st roots] by auto
  have nodes: "x \<in> fst ?m" if "r \<in> set roots" "dag_reach st r x" for r x
    using done_closed [OF that(2) _ closed] roots that(1) by blast
  have "h \<in> snd ?m" if "r \<in> set roots" "block_reach st r h" for r h
    using that nodes closed by (fastforce simp: block_reach_def node_done_def)
  with nodes mark_fold_sound [of st roots "({}, {})"] show ?thesis by (intro prod_eqI) auto
qed

section \<open>The invariant of a store\<close>

fun entry_present :: "knowledge_store \<Rightarrow> dag_entry \<Rightarrow> bool" where
  "entry_present st (BlockEntry h) = contains_block st h"
| "entry_present st (NodeEntry h) = contains_node st h"

definition hashes_match :: "hashing \<Rightarrow> knowledge_store \<Rightarrow> bool" where
  "hashes_match hs st \<longleftrightarrow>
     (\<forall>h bs. block_at st h = Some bs \<longrightarrow> hash_bytes hs bs = h) \<and>
     (\<forall>h node. node_at st h = Some node \<longrightarrow> hash_bytes hs (node_bytes hs node) = h)"

definition entries_closed :: "knowledge_store \<Rightarrow> bool" where
  "entries_closed st \<longleftrightarrow>
     (\<forall>h node. node_at st h = Some node \<longrightarrow> (\<forall>e \<in> set (node_entries node). entry_present st e))"

definition dag_acyclic :: "knowledge_store \<Rightarrow> bool" where
  "dag_acyclic st \<longleftrightarrow> (\<exists>rank :: content_hash \<Rightarrow> nat. \<forall>a b. dag_child st a b \<longrightarrow> rank b < rank a)"

definition roots_present :: "knowledge_store \<Rightarrow> bool" where
  "roots_present st \<longleftrightarrow>
     (\<forall>name b. fmlookup (ks_roots st) name = Some b \<longrightarrow> br_name b = name \<and> contains_node st (br_root b)) \<and>
     (\<forall>h \<in> ks_pinned st. contains_node st h)"

definition store_inv :: "hashing \<Rightarrow> knowledge_store \<Rightarrow> bool" where
  "store_inv hs st \<longleftrightarrow> hashes_match hs st \<and> entries_closed st \<and> dag_acyclic st \<and> roots_present st"

lemma store_inv_new [simp]: "store_inv hs ks_new"
  by (simp add: store_inv_def hashes_match_def entries_closed_def dag_acyclic_def dag_child_def roots_present_def ks_new_def)

lemma contains_put_block [simp]:
  "contains_block (snd (put_block hs bs st)) h \<longleftrightarrow> h = hash_bytes hs bs \<or> contains_block st h"
  "contains_node (snd (put_block hs bs st)) h \<longleftrightarrow> contains_node st h"
  by (auto simp: contains_block_def contains_node_def put_block_def Let_def)

lemma contains_put_node [simp]:
  "contains_node (snd (put_node hs node st)) h \<longleftrightarrow> h = hash_bytes hs (node_bytes hs node) \<or> contains_node st h"
  "contains_block (snd (put_node hs node st)) h \<longleftrightarrow> contains_block st h"
  by (auto simp: contains_block_def contains_node_def put_node_def Let_def)

lemma entry_present_put [intro]:
  "entry_present st e \<Longrightarrow> entry_present (snd (put_block hs bs st)) e"
  "entry_present st e \<Longrightarrow> entry_present (snd (put_node hs node st)) e"
  by (cases e; simp)+

lemma put_block_inv:
  assumes "store_inv hs st"
  shows "store_inv hs (snd (put_block hs bs st))"
proof -
  let ?st = "snd (put_block hs bs st)"
  have [simp]: "ks_nodes ?st = ks_nodes st" "ks_roots ?st = ks_roots st" "ks_pinned ?st = ks_pinned st"
    by (simp_all add: put_block_def Let_def)
  have "hashes_match hs ?st" using assms by (simp add: store_inv_def hashes_match_def put_block_def Let_def)
  moreover have "entries_closed ?st"
    using assms by (auto simp: store_inv_def entries_closed_def)
  ultimately show ?thesis using assms
    by (simp add: store_inv_def dag_acyclic_def dag_child_def roots_present_def)
qed

lemma put_blocks_inv: "store_inv hs st \<Longrightarrow> store_inv hs (snd (put_blocks hs bss st))"
  by (induction bss arbitrary: st) (auto simp: case_prod_beta Let_def put_block_inv)

text \<open>A node enters the store only with everything it names already there, so it cannot close a
  cycle even if its hash collides with a stored one.\<close>

lemma put_node_inv:
  assumes inv: "store_inv hs st" and entries: "\<forall>e \<in> set (node_entries node). entry_present st e"
  shows "store_inv hs (snd (put_node hs node st))"
proof (cases "contains_node st (hash_bytes hs (node_bytes hs node))")
  case True
  then have "snd (put_node hs node st) = st"
    by (auto simp: put_node_def Let_def or_insert_def contains_node_def)
  with inv show ?thesis by simp
next
  case False
  let ?h = "hash_bytes hs (node_bytes hs node)" and ?st = "snd (put_node hs node st)"
  have at: "node_at ?st x = (if x = ?h then Some node else node_at st x)" for x
    using False by (simp add: put_node_def Let_def contains_node_def)
  have [simp]: "ks_blocks ?st = ks_blocks st" "ks_roots ?st = ks_roots st" "ks_pinned ?st = ks_pinned st"
    by (simp_all add: put_node_def Let_def)
  have "hashes_match hs ?st" using inv by (simp add: store_inv_def hashes_match_def at)
  moreover have "entries_closed ?st"
    using inv entries by (auto simp: store_inv_def entries_closed_def at)
  moreover have "roots_present ?st" using inv by (simp add: store_inv_def roots_present_def)
  moreover have "dag_acyclic ?st"
  proof -
    obtain rank :: "content_hash \<Rightarrow> nat" where rank: "rank b < rank a" if "dag_child st a b" for a b
      using inv by (auto simp: store_inv_def dag_acyclic_def)
    let ?children = "{c. NodeEntry c \<in> set (node_entries node)}"
    let ?top = "Suc (Max (insert 0 (rank ` ?children)))"
    have fin: "finite ?children"
      by (rule finite_subset [of _ "(\<lambda>e. case e of NodeEntry h \<Rightarrow> h | BlockEntry h \<Rightarrow> h) ` set (node_entries node)"])
        (auto intro!: rev_image_eqI)
    have child: "dag_child ?st a b \<longleftrightarrow> (if a = ?h then b \<in> ?children else dag_child st a b)" for a b
      by (auto simp: dag_child_def at)
    have "contains_node st b" if "dag_child st a b" for a b
      using inv that by (fastforce simp: store_inv_def entries_closed_def dag_child_def)
    moreover have "contains_node st b" if "b \<in> ?children" for b
      using entries that by fastforce
    ultimately have other: "b \<noteq> ?h" if "dag_child ?st a b" for a b
      using that False by (auto simp: child split: if_splits)
    have "(rank(?h := ?top)) b < (rank(?h := ?top)) a" if "dag_child ?st a b" for a b
      using other [OF that] that rank fin by (auto simp: child less_Suc_eq_le split: if_splits)
    then show ?thesis unfolding dag_acyclic_def by blast
  qed
  ultimately show ?thesis by (simp add: store_inv_def)
qed

lemma block_entries_present: "block_entries st hashes = Inr es \<Longrightarrow> e \<in> set es \<Longrightarrow> entry_present st e"
  by (induction st hashes arbitrary: es rule: block_entries.induct) (auto split: if_splits sum.splits)

lemma checkpoint_from_blocks_inv: "store_inv hs st \<Longrightarrow> store_inv hs (snd (checkpoint_from_blocks hs hashes st))"
  by (auto simp: checkpoint_from_blocks_def sequence_node_def block_entries_present intro!: put_node_inv split: sum.splits)

lemma checkpoint_from_bytes_inv: "store_inv hs st \<Longrightarrow> store_inv hs (snd (checkpoint_from_bytes hs bss st))"
  by (simp add: checkpoint_from_bytes_def case_prod_beta checkpoint_from_blocks_inv put_blocks_inv)

lemma fork_append_blocks_inv: "store_inv hs st \<Longrightarrow> store_inv hs (snd (fork_append_blocks hs base hashes st))"
  by (auto simp: fork_append_blocks_def sequence_node_def block_entries_present intro!: put_node_inv split: sum.splits)

lemma fork_append_bytes_inv: "store_inv hs st \<Longrightarrow> store_inv hs (snd (fork_append_bytes hs base bss st))"
  by (simp add: fork_append_bytes_def case_prod_beta fork_append_blocks_inv put_blocks_inv)

text \<open>Binding, unbinding and pinning leave the content alone.\<close>

lemma store_inv_content:
  assumes "store_inv hs st" "ks_blocks st' = ks_blocks st" "ks_nodes st' = ks_nodes st" "roots_present st'"
  shows "store_inv hs st'"
proof -
  have "entry_present st' e = entry_present st e" for e
    using assms(2,3) by (cases e) (simp_all add: contains_block_def contains_node_def)
  with assms show ?thesis
    by (simp add: store_inv_def hashes_match_def entries_closed_def dag_acyclic_def dag_child_def)
qed

lemma bind_root_inv:
  assumes "store_inv hs st"
  shows "store_inv hs (snd (bind_root name root access st))"
  by (rule store_inv_content [OF assms])
    (use assms in \<open>auto simp: bind_root_def Let_def roots_present_def store_inv_def contains_node_def\<close>)

lemma unbind_root_inv:
  assumes "store_inv hs st"
  shows "store_inv hs (snd (unbind_root name st))"
  by (rule store_inv_content [OF assms])
    (use assms in \<open>auto simp: unbind_root_def roots_present_def store_inv_def contains_node_def split: option.splits if_splits\<close>)

lemma pin_root_inv:
  assumes "store_inv hs st"
  shows "store_inv hs (snd (pin_root root st))" "store_inv hs (unpin_root root st)"
  by (rule store_inv_content [OF assms];
      use assms in \<open>auto simp: pin_root_def unpin_root_def roots_present_def store_inv_def contains_node_def\<close>)+

section \<open>Reading through a live root\<close>

lemma inv_entries:
  assumes "store_inv hs st" "node_at st a = Some node"
  shows "\<forall>e \<in> set (node_entries node). entry_present st e" "hash_bytes hs (node_bytes hs node) = a"
  using assms by (auto simp: store_inv_def entries_closed_def hashes_match_def)

lemma inv_block: "store_inv hs st \<Longrightarrow> block_at st h = Some bs \<Longrightarrow> hash_bytes hs bs = h"
  by (simp add: store_inv_def hashes_match_def)

definition ranked :: "knowledge_store \<Rightarrow> (content_hash \<Rightarrow> nat) \<Rightarrow> bool" where
  "ranked st rank \<longleftrightarrow> (\<forall>a b. dag_child st a b \<longrightarrow> rank b < rank a)"

definition below :: "(content_hash \<Rightarrow> nat) \<Rightarrow> content_hash set \<Rightarrow> content_hash \<Rightarrow> bool" where
  "below rank v h \<longleftrightarrow> (\<forall>a \<in> v. rank h < rank a)"

lemma below_child:
  assumes "ranked st rank" "below rank v root" "node_at st root = Some node" "NodeEntry h \<in> set (node_entries node)"
  shows "below rank (insert root v) h"
proof -
  have "rank h < rank root" using assms(1,3,4) by (auto simp: ranked_def dag_child_def)
  with assms(2) show ?thesis by (auto simp: below_def)
qed

lemma below_notin: "below rank v h \<Longrightarrow> h \<notin> v"
  by (auto simp: below_def)

lemma verify_total:
  "store_inv hs st \<Longrightarrow> ranked st rank \<Longrightarrow> contains_node st root \<Longrightarrow> below rank v root \<Longrightarrow>
     verify_node hs st root v = Inr ()"
  "store_inv hs st \<Longrightarrow> ranked st rank \<Longrightarrow> \<forall>e \<in> set es. entry_present st e \<Longrightarrow>
     (\<And>h. NodeEntry h \<in> set es \<Longrightarrow> below rank v h) \<Longrightarrow> verify_entries hs st es v = Inr ()"
proof (induction hs st root v and hs st es v rule: verify_node_verify_entries.induct)
  case (1 hs st root v)
  then obtain node where node: "node_at st root = Some node" by (auto simp: contains_node_def)
  note fresh = below_notin [OF "1.prems"(4)]
  have "verify_entries hs st (node_entries node) (insert root v) = Inr ()"
    using "1.prems" inv_entries [OF "1.prems"(1) node] below_child [OF "1.prems"(2,4) node]
    by (intro "1.IH" [OF fresh node]) auto
  then show ?case
    using fresh inv_entries(2) [OF "1.prems"(1) node] by (simp add: verify_node.simps [of hs st root] node)
next
  case (3 hs st hash es v)
  then obtain bs where bs: "block_at st hash = Some bs" by (auto simp: contains_block_def)
  then show ?case using 3 inv_block [OF "3.prems"(1) bs] by simp
qed simp_all

lemma materialize_total:
  "store_inv hs st \<Longrightarrow> ranked st rank \<Longrightarrow> contains_node st root \<Longrightarrow> below rank v root \<Longrightarrow>
     \<exists>bs. materialize_node st root v = Inr bs"
  "store_inv hs st \<Longrightarrow> ranked st rank \<Longrightarrow> \<forall>e \<in> set es. entry_present st e \<Longrightarrow>
     (\<And>h. NodeEntry h \<in> set es \<Longrightarrow> below rank v h) \<Longrightarrow> \<exists>bs. materialize_entries st es v = Inr bs"
proof (induction st root v and st es v rule: materialize_node_materialize_entries.induct)
  case (1 st root v)
  then obtain node where node: "node_at st root = Some node" by (auto simp: contains_node_def)
  note fresh = below_notin [OF "1.prems"(4)]
  have "\<exists>bs. materialize_entries st (node_entries node) (insert root v) = Inr bs"
    using "1.prems" inv_entries [OF "1.prems"(1) node] below_child [OF "1.prems"(2,4) node]
    by (intro "1.IH" [OF fresh node]) auto
  then show ?case using fresh by (simp add: materialize_node.simps [of st root] node)
next
  case (3 st hash es v)
  then show ?case by (auto simp: contains_block_def)
next
  case (4 st hash es v)
  then obtain bs where "materialize_node st hash v = Inr bs" by auto
  with 4 show ?case by auto
qed simp

lemma read_bound_root_total:
  assumes inv: "store_inv hs st" and live: "fmlookup (ks_roots st) (br_name b) = Some b"
  shows "\<exists>bs. read_bound_root hs st b = Inr bs"
proof -
  obtain rank where rank: "ranked st rank" using inv by (auto simp: store_inv_def dag_acyclic_def ranked_def)
  have "contains_node st (br_root b)" using inv live by (auto simp: store_inv_def roots_present_def)
  then have "verify_node hs st (br_root b) {} = Inr ()" "\<exists>bs. materialize_node st (br_root b) {} = Inr bs"
    using verify_total(1) [OF inv rank] materialize_total(1) [OF inv rank] by (simp_all add: below_def)
  with live show ?thesis by (simp add: read_bound_root_def verify_root_hash_def)
qed

text \<open>What a reading sees depends only on what its root reaches.\<close>

definition same_below :: "knowledge_store \<Rightarrow> knowledge_store \<Rightarrow> content_hash \<Rightarrow> bool" where
  "same_below st st' root \<longleftrightarrow>
     (\<forall>x. dag_reach st root x \<longrightarrow> node_at st' x = node_at st x) \<and>
     (\<forall>h. block_reach st root h \<longrightarrow> block_at st' h = block_at st h)"

definition entries_same :: "knowledge_store \<Rightarrow> knowledge_store \<Rightarrow> dag_entry list \<Rightarrow> bool" where
  "entries_same st st' es \<longleftrightarrow>
     (\<forall>h. BlockEntry h \<in> set es \<longrightarrow> block_at st' h = block_at st h) \<and>
     (\<forall>h. NodeEntry h \<in> set es \<longrightarrow> same_below st st' h)"

lemma same_below_root: "same_below st st' root \<Longrightarrow> node_at st' root = node_at st root"
  by (simp add: same_below_def)

lemma same_below_entries:
  "same_below st st' root \<Longrightarrow> node_at st root = Some node \<Longrightarrow> entries_same st st' (node_entries node)"
  unfolding same_below_def entries_same_def
  using dag_reach_child block_reach_child block_reach_own by metis

lemma entries_same_simps [simp]:
  "entries_same st st' (BlockEntry h # es) \<longleftrightarrow> block_at st' h = block_at st h \<and> entries_same st st' es"
  "entries_same st st' (NodeEntry h # es) \<longleftrightarrow> same_below st st' h \<and> entries_same st st' es"
  by (auto simp: entries_same_def)

lemma materialize_same:
  "same_below st st' root \<Longrightarrow> materialize_node st' root v = materialize_node st root v"
  "entries_same st st' es \<Longrightarrow> materialize_entries st' es v = materialize_entries st es v"
proof (induction st root v and st es v rule: materialize_node_materialize_entries.induct)
  case (1 st root v)
  then show ?case
    by (subst (1 2) materialize_node.simps)
      (auto simp: same_below_root dest: same_below_entries split: option.split)
qed (auto split: option.split sum.split)

lemma verify_same:
  "same_below st st' root \<Longrightarrow> verify_node hs st' root v = verify_node hs st root v"
  "entries_same st st' es \<Longrightarrow> verify_entries hs st' es v = verify_entries hs st es v"
proof (induction hs st root v and hs st es v rule: verify_node_verify_entries.induct)
  case (1 hs st root v)
  then show ?case
    by (subst (1 2) verify_node.simps)
      (auto simp: same_below_root dest: same_below_entries split: option.split)
qed (auto split: option.split sum.split)

lemma read_bound_root_same:
  assumes "same_below st st' (br_root b)" "fmlookup (ks_roots st') (br_name b) = fmlookup (ks_roots st) (br_name b)"
  shows "read_bound_root hs st' b = read_bound_root hs st b"
  unfolding read_bound_root_def verify_root_hash_def assms(2) materialize_same(1) [OF assms(1)]
    verify_same(1) [OF assms(1)] ..

text \<open>Content is only ever added, so whatever a stored root reaches stays as it is.\<close>

definition extends :: "knowledge_store \<Rightarrow> knowledge_store \<Rightarrow> bool" where
  "extends st st' \<longleftrightarrow>
     (\<forall>h bs. block_at st h = Some bs \<longrightarrow> block_at st' h = Some bs) \<and>
     (\<forall>h node. node_at st h = Some node \<longrightarrow> node_at st' h = Some node)"

lemma extends_refl [simp]: "extends st st"
  by (simp add: extends_def)

lemma extends_trans: "extends a b \<Longrightarrow> extends b c \<Longrightarrow> extends a c"
  by (simp add: extends_def)

lemma extends_put: "extends st (snd (put_block hs bs st))" "extends st (snd (put_node hs node st))"
  by (auto simp: extends_def put_block_def put_node_def Let_def)

lemma extends_put_blocks: "extends st (snd (put_blocks hs bss st))"
  by (induction bss arbitrary: st) (auto simp: case_prod_beta Let_def intro: extends_trans extends_put)

lemma extends_checkpoint:
  "extends st (snd (checkpoint_from_blocks hs hashes st))" "extends st (snd (fork_append_blocks hs base hashes st))"
  by (auto simp: checkpoint_from_blocks_def fork_append_blocks_def extends_put split: sum.splits)

lemma extends_checkpoint_bytes:
  "extends st (snd (checkpoint_from_bytes hs bss st))" "extends st (snd (fork_append_bytes hs base bss st))"
  by (auto simp: checkpoint_from_bytes_def fork_append_bytes_def case_prod_beta
      intro: extends_trans [OF extends_put_blocks] extends_checkpoint)

lemma extends_roots:
  "extends st (snd (bind_root name root access st))" "extends st (snd (unbind_root name st))"
  "extends st (snd (pin_root root st))" "extends st (unpin_root root st)"
  by (auto simp: extends_def bind_root_def unbind_root_def pin_root_def unpin_root_def Let_def split: option.splits)

lemma inv_reach_present:
  assumes inv: "store_inv hs st" and root: "contains_node st root"
  shows "dag_reach st root x \<Longrightarrow> contains_node st x" "block_reach st root h \<Longrightarrow> contains_block st h"
proof -
  show nodes: "contains_node st x" if "dag_reach st root x" for x
    using that
  proof (induction rule: rtranclp_induct)
    case (step y z)
    then obtain node where "node_at st y = Some node" "NodeEntry z \<in> set (node_entries node)"
      by (auto simp: dag_child_def)
    then show ?case using inv_entries(1) [OF inv] by fastforce
  qed (use root in simp)
  show "contains_block st h" if "block_reach st root h"
    using that nodes inv_entries(1) [OF inv] by (fastforce simp: block_reach_def)
qed

lemma extends_same_below:
  assumes "store_inv hs st" "contains_node st root" "extends st st'"
  shows "same_below st st' root"
  using inv_reach_present [OF assms(1,2)] assms(3)
  unfolding same_below_def extends_def contains_node_def contains_block_def by (metis not_None_eq)

section \<open>What a collection keeps\<close>

lemma collect_garbage_at:
  assumes "collect_garbage CollectUnreachable roots st = (report, st')"
  shows "block_at st' h = (if \<exists>r \<in> set roots. block_reach st r h then block_at st h else None)"
    "node_at st' h = (if \<exists>r \<in> set roots. dag_reach st r h then node_at st h else None)"
    "ks_roots st' = ks_roots st" "ks_pinned st' = ks_pinned st"
  using assms by (auto simp: collect_garbage_def mark_fold Let_def)

lemma collect_garbage_same_below:
  assumes "collect_garbage CollectUnreachable roots st = (report, st')" "r \<in> set roots" "dag_reach st r x"
  shows "same_below st st' x"
proof -
  have "\<exists>r \<in> set roots. dag_reach st r y" if "dag_reach st x y" for y
    using assms(2,3) that by (meson rtranclp_trans)
  moreover have "\<exists>r \<in> set roots. block_reach st r h" if "block_reach st x h" for h
    using assms(2,3) that unfolding block_reach_def by (meson rtranclp_trans)
  ultimately show ?thesis by (simp add: same_below_def collect_garbage_at [OF assms(1)])
qed

lemma collect_garbage_inv:
  assumes inv: "store_inv hs st" and gc: "collect_garbage CollectUnreachable roots st = (report, st')"
    and roots: "gc_roots st \<subseteq> set roots"
  shows "store_inv hs st'"
proof -
  note at = collect_garbage_at [OF gc]
  have "hashes_match hs st'" using inv by (auto simp: store_inv_def hashes_match_def at)
  moreover have "entries_closed st'"
  proof -
    have "entry_present st' e" if node: "node_at st' a = Some node" and e: "e \<in> set (node_entries node)" for a node e
    proof -
      obtain r where r: "r \<in> set roots" "dag_reach st r a" and node': "node_at st a = Some node"
        using node by (auto simp: at split: if_splits)
      have "entries_same st st' (node_entries node)"
        using same_below_entries [OF collect_garbage_same_below [OF gc r] node'] .
      with e have "case e of BlockEntry h \<Rightarrow> block_at st' h = block_at st h | NodeEntry h \<Rightarrow> node_at st' h = node_at st h"
        by (auto simp: entries_same_def same_below_root split: dag_entry.split)
      then show ?thesis using inv_entries(1) [OF inv node'] e
        by (auto simp: contains_block_def contains_node_def split: dag_entry.splits)
    qed
    then show ?thesis by (simp add: entries_closed_def)
  qed
  moreover have "dag_acyclic st'"
  proof -
    have "dag_child st a b" if "dag_child st' a b" for a b
      using that by (auto simp: dag_child_def at split: if_splits)
    then show ?thesis using inv unfolding store_inv_def dag_acyclic_def by meson
  qed
  moreover have "contains_node st' h" if "h \<in> gc_roots st" for h
  proof -
    have "contains_node st h"
      using inv that by (auto simp: store_inv_def roots_present_def gc_roots_def fmran'_def elim!: fmran'E)
    with that roots show ?thesis by (auto simp: contains_node_def at)
  qed
  then have "roots_present st'"
    using inv by (auto simp: store_inv_def roots_present_def at gc_roots_def intro: fmran'I)
  ultimately show ?thesis by (simp add: store_inv_def)
qed

lemma fmdom_eq_Collect: "fset (fmdom m) = {k. fmlookup m k \<noteq> None}"
  by (auto simp: fmlookup_dom_iff)

lemma fcard_fmdom: "fcard (fmdom m) = card {k. fmlookup m k \<noteq> None}"
  by (simp only: fcard.rep_eq fmdom_eq_Collect)

lemma finite_fm_keys: "finite {k. fmlookup m k \<noteq> None}"
  unfolding fmdom_eq_Collect [symmetric] by simp

lemma collect_garbage_report:
  assumes "collect_garbage CollectUnreachable roots st = (report, st')"
  shows "removed_blocks report = card {h. contains_block st h \<and> \<not> (\<exists>r \<in> set roots. block_reach st r h)}"
    "removed_nodes report = card {h. contains_node st h \<and> \<not> (\<exists>r \<in> set roots. dag_reach st r h)}"
proof -
  note at = collect_garbage_at [OF assms]
  have diff: "card {k. m k \<noteq> None} - card {k. (if P k then m k else None) \<noteq> None} = card {k. m k \<noteq> None \<and> \<not> P k}"
    if "finite {k. m k \<noteq> (None :: 'v option)}" for m :: "content_hash \<Rightarrow> 'v option" and P
  proof -
    have "{k. m k \<noteq> None \<and> \<not> P k} = {k. m k \<noteq> None} - {k. (if P k then m k else None) \<noteq> None}" by auto
    then show ?thesis using that by (simp add: card_Diff_subset Collect_mono_iff rev_finite_subset)
  qed
  have report: "report = \<lparr>removed_blocks = block_count st - block_count st', removed_nodes = node_count st - node_count st'\<rparr>"
    using assms by (auto simp: collect_garbage_def mark_fold Let_def)
  show "removed_blocks report = card {h. contains_block st h \<and> \<not> (\<exists>r \<in> set roots. block_reach st r h)}"
    using diff [of "block_at st" "\<lambda>h. \<exists>r \<in> set roots. block_reach st r h"] finite_fm_keys [of "ks_blocks st"]
    by (simp add: report block_count_def contains_block_def fcard_fmdom at del: not_None_eq)
  show "removed_nodes report = card {h. contains_node st h \<and> \<not> (\<exists>r \<in> set roots. dag_reach st r h)}"
    using diff [of "node_at st" "\<lambda>h. \<exists>r \<in> set roots. dag_reach st r h"] finite_fm_keys [of "ks_nodes st"]
    by (simp add: report node_count_def contains_node_def fcard_fmdom at del: not_None_eq)
qed

section \<open>Runs of a store\<close>

inductive kstep :: "hashing \<Rightarrow> knowledge_store \<Rightarrow> knowledge_store \<Rightarrow> bool" for hs where
  step_put: "kstep hs st (snd (put_block hs bs st))"
| step_checkpoint: "kstep hs st (snd (checkpoint_from_blocks hs hashes st))"
| step_checkpoint_bytes: "kstep hs st (snd (checkpoint_from_bytes hs bss st))"
| step_fork: "kstep hs st (snd (fork_append_blocks hs base hashes st))"
| step_fork_bytes: "kstep hs st (snd (fork_append_bytes hs base bss st))"
| step_bind: "kstep hs st (snd (bind_root name root access st))"
| step_unbind: "kstep hs st (snd (unbind_root name st))"
| step_pin: "kstep hs st (snd (pin_root root st))"
| step_unpin: "kstep hs st (unpin_root root st)"
| step_collect: "set roots = gc_roots st \<Longrightarrow> kstep hs st (snd (collect_garbage policy roots st))"

definition kreachable :: "hashing \<Rightarrow> knowledge_store \<Rightarrow> bool" where
  "kreachable hs st \<longleftrightarrow> (kstep hs)\<^sup>*\<^sup>* ks_new st"

lemma kstep_inv: "kstep hs st st' \<Longrightarrow> store_inv hs st \<Longrightarrow> store_inv hs st'"
proof (induction rule: kstep.induct)
  case (step_collect roots st policy)
  then show ?case
    by (cases policy) (auto simp: collect_garbage_def [of KeepUnreachable] intro!: collect_garbage_inv [of hs st roots] prod_eqI)
qed (simp_all add: put_block_inv checkpoint_from_blocks_inv checkpoint_from_bytes_inv fork_append_blocks_inv
      fork_append_bytes_inv bind_root_inv unbind_root_inv pin_root_inv)

lemma kreachable_inv: "kreachable hs st \<Longrightarrow> store_inv hs st"
  unfolding kreachable_def by (induction rule: rtranclp_induct) (auto intro: kstep_inv)

definition root_live :: "knowledge_store \<Rightarrow> bound_root \<Rightarrow> bool" where
  "root_live st b \<longleftrightarrow> fmlookup (ks_roots st) (br_name b) = Some b"

lemma live_present: "store_inv hs st \<Longrightarrow> root_live st b \<Longrightarrow> contains_node st (br_root b)"
  by (auto simp: root_live_def store_inv_def roots_present_def)

lemma live_gc_root: "root_live st b \<Longrightarrow> br_root b \<in> gc_roots st"
  by (auto simp: root_live_def gc_roots_def intro: fmran'I)

lemma kstep_same_below:
  assumes "kstep hs st st'" "store_inv hs st" "root_live st b"
  shows "same_below st st' (br_root b)"
  using assms
proof (induction rule: kstep.induct)
  case (step_collect roots st policy)
  show ?case
  proof (cases policy)
    case CollectUnreachable
    have "br_root b \<in> set roots" using live_gc_root [OF step_collect.prems(2)] step_collect.hyps by simp
    then show ?thesis unfolding CollectUnreachable
      by (intro collect_garbage_same_below [OF prod.collapse [symmetric]]) auto
  qed (simp add: collect_garbage_def same_below_def)
qed (auto intro!: extends_same_below [OF _ live_present] intro: extends_put extends_checkpoint
      extends_checkpoint_bytes extends_roots)

text \<open>
  (C20) A checkpoint read through a live root is immutable: in every store the operations can build,
  whatever the hash function, reading a live binding succeeds (no missing content, no hash
  mismatch, no cycle), and as long as the binding stays live no later write, bind, unbind, pin or
  garbage collection changes the bytes it reads.
\<close>

theorem live_root_reads_forever:
  assumes "kreachable hs st" "root_live st b" "(\<lambda>s s'. kstep hs s s' \<and> root_live s' b)\<^sup>*\<^sup>* st st'"
  shows "\<exists>bs. read_bound_root hs st b = Inr bs \<and> read_bound_root hs st' b = Inr bs"
proof -
  have "store_inv hs st' \<and> root_live st' b \<and> read_bound_root hs st' b = read_bound_root hs st b"
    using assms(3)
  proof (induction rule: rtranclp_induct)
    case (step y z)
    then have "read_bound_root hs z b = read_bound_root hs y b"
      by (intro read_bound_root_same kstep_same_below) (auto simp: root_live_def)
    with step show ?case by (auto intro: kstep_inv)
  qed (use assms(1,2) kreachable_inv in auto)
  with read_bound_root_total kreachable_inv [OF assms(1)] assms(2) show ?thesis
    by (metis root_live_def)
qed

text \<open>A concrete hashing for the examples: contents are their own hash.\<close>

definition plain_hashing :: hashing where
  "plain_hashing = \<lparr>hs_sha_hex = id,
     hs_json = (\<lambda>node. concat (map (\<lambda>e. case e of BlockEntry h \<Rightarrow> ''b'' @ h | NodeEntry h \<Rightarrow> ''n'' @ h) (node_entries node)))\<rparr>"

definition demo_root :: bound_root where
  "demo_root = \<lparr>br_name = ''mem/a'', br_root = ''sha256:bsha256:hi'', br_access = RootReadWrite\<rparr>"

definition demo_store :: knowledge_store where
  "demo_store = snd (bind_root ''mem/a'' ''sha256:bsha256:hi'' RootReadWrite
     (snd (checkpoint_from_bytes plain_hashing [''hi''] ks_new)))"

lemmas ks_op_defs = put_block_def put_node_def checkpoint_from_bytes_def checkpoint_from_blocks_def
  fork_append_bytes_def fork_append_blocks_def bind_root_def unbind_root_def contains_block_def contains_node_def
  hash_bytes_def node_bytes_def sequence_node_def or_insert_def

lemma demo_reachable: "kreachable plain_hashing demo_store"
  unfolding kreachable_def demo_store_def
  by (rule rtranclp.rtrancl_into_rtrancl [OF rtranclp.rtrancl_into_rtrancl [OF rtranclp.rtrancl_refl]])
    (rule step_checkpoint_bytes, rule step_bind)

lemma demo_store_eq:
  "demo_store = \<lparr>ks_blocks = fmupd ''sha256:hi'' ''hi'' fmempty,
     ks_nodes = fmupd ''sha256:bsha256:hi'' \<lparr>dn_version = 1, dn_kind = Sequence [BlockEntry ''sha256:hi'']\<rparr> fmempty,
     ks_roots = fmupd ''mem/a'' demo_root fmempty, ks_pinned = {}\<rparr>"
  by (simp add: demo_store_def demo_root_def ks_op_defs plain_hashing_def ks_new_def Let_def)

lemma demo_live: "root_live demo_store demo_root"
  by (simp add: root_live_def demo_store_eq) (simp add: demo_root_def)

lemma demo_gc_roots: "gc_roots demo_store = {''sha256:bsha256:hi''}"
  by (auto simp: gc_roots_def demo_store_eq demo_root_def fmlookup_ran'_iff image_iff Bex_def split: if_splits)

theorem live_root_reads_forever_witness:
  "\<exists>bs. read_bound_root plain_hashing demo_store demo_root = Inr bs \<and>
     read_bound_root plain_hashing (snd (collect_garbage CollectUnreachable [''sha256:bsha256:hi''] demo_store)) demo_root = Inr bs"
proof (rule live_root_reads_forever [OF demo_reachable demo_live])
  let ?st = "snd (collect_garbage CollectUnreachable [''sha256:bsha256:hi''] demo_store)"
  have "kstep plain_hashing demo_store ?st" by (rule step_collect) (simp add: demo_gc_roots)
  moreover have "root_live ?st demo_root"
    using demo_live collect_garbage_at(3) [OF prod.collapse [symmetric]] by (simp add: root_live_def)
  ultimately show "(\<lambda>s s'. kstep plain_hashing s s' \<and> root_live s' demo_root)\<^sup>*\<^sup>* demo_store ?st" by blast
qed

text \<open>
  (C21) Garbage collection is exact: a block or node survives if and only if a bound or pinned root
  reaches it, surviving content is unchanged, the report counts exactly the unreachable content,
  and the order in which the hash maps yield the roots does not matter.
\<close>

theorem collect_garbage_exact:
  assumes "set roots = gc_roots st" "collect_garbage CollectUnreachable roots st = (report, st')"
  shows "block_at st' h = (if \<exists>r \<in> gc_roots st. block_reach st r h then block_at st h else None) \<and>
    node_at st' h = (if \<exists>r \<in> gc_roots st. dag_reach st r h then node_at st h else None) \<and>
    removed_blocks report = card {x. contains_block st x \<and> \<not> (\<exists>r \<in> gc_roots st. block_reach st r x)} \<and>
    removed_nodes report = card {x. contains_node st x \<and> \<not> (\<exists>r \<in> gc_roots st. dag_reach st r x)} \<and>
    (\<forall>roots'. set roots' = set roots \<longrightarrow> collect_garbage CollectUnreachable roots' st = (report, st'))"
proof -
  have "collect_garbage CollectUnreachable roots' st = collect_garbage CollectUnreachable roots st"
    if "set roots' = set roots" for roots'
    by (simp add: collect_garbage_def mark_fold that)
  then show ?thesis
    using collect_garbage_at [OF assms(2)] collect_garbage_report [OF assms(2)] assms by simp
qed

theorem collect_garbage_exact_witness:
  "\<exists>report st'. collect_garbage CollectUnreachable [''sha256:bsha256:hi''] demo_store = (report, st') \<and>
     removed_nodes report = card {x. contains_node demo_store x \<and> \<not> (\<exists>r \<in> gc_roots demo_store. dag_reach demo_store r x)}"
proof -
  obtain report st' where gc: "collect_garbage CollectUnreachable [''sha256:bsha256:hi''] demo_store = (report, st')"
    by (rule prod.exhaust)
  have "set [''sha256:bsha256:hi''] = gc_roots demo_store" by (simp add: demo_gc_roots)
  from collect_garbage_exact [OF this gc] gc show ?thesis by blast
qed

section \<open>Forks\<close>

text \<open>No stored content shares a hash with different content being written.\<close>

definition no_collision :: "hashing \<Rightarrow> knowledge_store \<Rightarrow> bytes list \<Rightarrow> dag_node \<Rightarrow> bool" where
  "no_collision hs st bss node \<longleftrightarrow>
     (\<forall>bs \<in> set bss. block_at st (hash_bytes hs bs) \<in> {None, Some bs}) \<and> inj_on (hash_bytes hs) (set bss) \<and>
     node_at st (hash_bytes hs (node_bytes hs node)) \<in> {None, Some node}"

definition blocks_node :: "hashing \<Rightarrow> dag_entry list \<Rightarrow> bytes list \<Rightarrow> dag_node" where
  "blocks_node hs prefix bss = sequence_node (prefix @ map (\<lambda>bs. BlockEntry (hash_bytes hs bs)) bss)"

lemma put_blocks_hashes:
  "fst (put_blocks hs bss st) = map (hash_bytes hs) bss"
  "ks_nodes (snd (put_blocks hs bss st)) = ks_nodes st"
  "ks_roots (snd (put_blocks hs bss st)) = ks_roots st"
  by (induction bss arbitrary: st) (auto simp: case_prod_beta Let_def put_block_def)

lemma put_blocks_at:
  assumes "\<forall>bs \<in> set bss. block_at st (hash_bytes hs bs) \<in> {None, Some bs}" "inj_on (hash_bytes hs) (set bss)" "bs \<in> set bss"
  shows "block_at (snd (put_blocks hs bss st)) (hash_bytes hs bs) = Some bs"
  using assms
proof (induction bss arbitrary: st)
  case (Cons b bss)
  let ?st = "snd (put_block hs b st)"
  have here: "block_at ?st (hash_bytes hs b) = Some b" using Cons.prems(1) by (auto simp: put_block_def Let_def)
  have other: "\<forall>c \<in> set bss. block_at ?st (hash_bytes hs c) \<in> {None, Some c}"
  proof
    fix c assume "c \<in> set bss"
    then show "block_at ?st (hash_bytes hs c) \<in> {None, Some c}"
      using Cons.prems(1,2) here by (auto simp: put_block_def Let_def inj_on_def)
  qed
  show ?case
  proof (cases "bs \<in> set bss")
    case True
    then show ?thesis using Cons.IH [OF other] Cons.prems(2) by (simp add: case_prod_beta Let_def inj_on_def)
  next
    case False
    with Cons.prems(3) have "bs = b" by simp
    then show ?thesis using here extends_put_blocks [of ?st hs bss] by (simp add: case_prod_beta Let_def extends_def)
  qed
qed simp

lemma block_entries_all:
  "\<forall>h \<in> set hashes. contains_block st h \<Longrightarrow> block_entries st hashes = Inr (map BlockEntry hashes)"
  by (induction hashes) auto

lemma materialize_blocks:
  "\<forall>bs \<in> set bss. block_at st (hash_bytes hs bs) = Some bs \<Longrightarrow>
     materialize_entries st (map (\<lambda>bs. BlockEntry (hash_bytes hs bs)) bss) v = Inr (concat bss)"
  by (induction bss) auto

text \<open>In an acyclic store the set of nodes being visited never matters.\<close>

lemma materialize_visiting:
  "ranked st rank \<Longrightarrow> below rank v root \<Longrightarrow> below rank v' root \<Longrightarrow> materialize_node st root v = materialize_node st root v'"
  "ranked st rank \<Longrightarrow> (\<And>h. NodeEntry h \<in> set es \<Longrightarrow> below rank v h \<and> below rank v' h) \<Longrightarrow>
     materialize_entries st es v = materialize_entries st es v'"
proof (induction st root v and st es v arbitrary: v' and v' rule: materialize_node_materialize_entries.induct)
  case (1 st root v)
  note fresh = below_notin [OF "1.prems"(2)] below_notin [OF "1.prems"(3)]
  have "materialize_entries st (node_entries node) (insert root v) = materialize_entries st (node_entries node) (insert root v')"
    if node: "node_at st root = Some node" for node
    using "1.prems" below_child [OF "1.prems"(1) _ node] by (intro "1.IH" [OF fresh(1) node]) auto
  then show ?case using fresh by (auto simp: materialize_node.simps [of st root] split: option.split)
next
  case (3 st hash es v)
  show ?case
  proof (cases "block_at st hash")
    case (Some bs)
    have "materialize_entries st es v = materialize_entries st es v'" using "3.prems" by (intro "3.IH" [OF Some]) auto
    with Some show ?thesis by simp
  qed simp
next
  case (4 st hash es v)
  then have same: "materialize_node st hash v = materialize_node st hash v'" by simp
  show ?case
  proof (cases "materialize_node st hash v")
    case (Inr bs)
    have "materialize_entries st es v = materialize_entries st es v'" using "4.prems" by (intro "4.IH"(2) [OF Inr]) auto
    with Inr same show ?thesis by simp
  qed (use same in simp)
qed simp

lemma materialize_read:
  assumes "store_inv hs st" "root_live st b"
  shows "read_bound_root hs st b = materialize_node st (br_root b) {}"
proof -
  obtain rank where rank: "ranked st rank" using assms(1) by (auto simp: store_inv_def dag_acyclic_def ranked_def)
  have "verify_node hs st (br_root b) {} = Inr ()"
    using verify_total(1) [OF assms(1) rank live_present [OF assms]] by (simp add: below_def)
  with assms(2) show ?thesis by (simp add: read_bound_root_def verify_root_hash_def root_live_def)
qed

lemma fork_append_bytes_eq:
  assumes "fork_append_bytes hs base bss st = (Inr root, st')" "no_collision hs st bss (blocks_node hs [NodeEntry base] bss)"
  shows "root = hash_bytes hs (node_bytes hs (blocks_node hs [NodeEntry base] bss))"
    "node_at st' root = Some (blocks_node hs [NodeEntry base] bss)"
    "\<forall>bs \<in> set bss. block_at st' (hash_bytes hs bs) = Some bs"
proof -
  let ?st1 = "snd (put_blocks hs bss st)"
  have at: "\<forall>bs \<in> set bss. block_at ?st1 (hash_bytes hs bs) = Some bs"
    using assms(2) by (auto simp: no_collision_def intro: put_blocks_at)
  then have "block_entries ?st1 (map (hash_bytes hs) bss) = Inr (map BlockEntry (map (hash_bytes hs) bss))"
    by (intro block_entries_all) (simp add: contains_block_def)
  then have put: "(root, st') = put_node hs (blocks_node hs [NodeEntry base] bss) ?st1"
    using assms(1)
    by (auto simp: fork_append_bytes_def fork_append_blocks_def case_prod_beta put_blocks_hashes blocks_node_def comp_def
        map_prod_def split: if_splits)
  from put show root: "root = hash_bytes hs (node_bytes hs (blocks_node hs [NodeEntry base] bss))"
    by (simp add: put_node_def Let_def)
  show "node_at st' root = Some (blocks_node hs [NodeEntry base] bss)"
    using put assms(2) by (auto simp: put_node_def Let_def no_collision_def put_blocks_hashes)
  show "\<forall>bs \<in> set bss. block_at st' (hash_bytes hs bs) = Some bs"
    using put at by (simp add: put_node_def Let_def)
qed

lemma contained_materialize:
  assumes "store_inv hs st" "contains_node st root"
  shows "\<exists>bs. materialize_node st root {} = Inr bs"
proof -
  obtain rank where "ranked st rank" using assms(1) by (auto simp: store_inv_def dag_acyclic_def ranked_def)
  then show ?thesis using materialize_total(1) [OF assms(1) _ assms(2)] by (simp add: below_def)
qed

lemma extends_materialize:
  assumes "store_inv hs st" "contains_node st root" "extends st st'"
  shows "materialize_node st' root v = materialize_node st root v"
  by (rule materialize_same(1) [OF extends_same_below [OF assms]])

lemma fork_materialize:
  assumes inv: "store_inv hs st" and base: "contains_node st base"
    and fork: "fork_append_bytes hs base bss st = (Inr root, st')" "no_collision hs st bss (blocks_node hs [NodeEntry base] bss)"
  shows "\<exists>bs. materialize_node st base {} = Inr bs \<and> materialize_node st' root {} = Inr (bs @ concat bss)"
proof -
  note eq = fork_append_bytes_eq [OF fork]
  have inv': "store_inv hs st'" using fork_append_bytes_inv [OF inv, of base bss] by (simp add: fork(1))
  obtain rank where rank: "ranked st' rank" using inv' by (auto simp: store_inv_def dag_acyclic_def ranked_def)
  have ext: "extends st st'" using extends_checkpoint_bytes(2) [of st hs base bss] by (simp add: fork(1))
  obtain bs where bs: "materialize_node st base {} = Inr bs" using contained_materialize [OF inv base] by blast
  have "below rank {root} base"
    using rank eq(2) by (auto simp: below_def ranked_def dag_child_def blocks_node_def sequence_node_def)
  then have "materialize_node st' base {root} = Inr bs"
    using materialize_visiting(1) [OF rank, of "{root}" base "{}"] extends_materialize [OF inv base ext] bs by (simp add: below_def)
  moreover have "materialize_entries st' (map (\<lambda>bs. BlockEntry (hash_bytes hs bs)) bss) {root} = Inr (concat bss)"
    by (rule materialize_blocks) (rule eq(3))
  ultimately have "materialize_node st' root {} = Inr (bs @ concat bss)"
    using eq(2) by (simp add: materialize_node.simps [of st' root] blocks_node_def sequence_node_def)
  with bs show ?thesis by blast
qed

text \<open>
  A fork appends: forking from the root of a live binding with new blocks and binding the
  result reads back the bytes of the base followed by the new blocks, unless a written content
  collides with different stored content.
\<close>

lemma fork_reads_base_then_suffix:
  assumes "kreachable hs st" "root_live st b" "fork_append_bytes hs (br_root b) bss st = (Inr root, st1)"
    "bind_root name root access st1 = (Inr b', st2)" "no_collision hs st bss (blocks_node hs [NodeEntry (br_root b)] bss)"
  shows "\<exists>base. read_bound_root hs st b = Inr base \<and> read_bound_root hs st2 b' = Inr (base @ concat bss)"
proof -
  note inv = kreachable_inv [OF assms(1)]
  have inv1: "store_inv hs st1" using fork_append_bytes_inv [OF inv, of "br_root b" bss] by (simp add: assms(3))
  have inv2: "store_inv hs st2" using bind_root_inv [OF inv1, of name root access] by (simp add: assms(4))
  have bind: "extends st1 st2" "contains_node st1 root" "root_live st2 b'" "br_root b' = root"
    using assms(4) extends_roots(1) [of st1 name root access]
    by (auto simp: bind_root_def Let_def root_live_def split: if_splits)
  obtain bs where "materialize_node st (br_root b) {} = Inr bs" "materialize_node st1 root {} = Inr (bs @ concat bss)"
    using fork_materialize [OF inv live_present [OF inv assms(2)] assms(3,5)] by blast
  then show ?thesis
    using extends_materialize [OF inv1 bind(2,1)] materialize_read [OF inv assms(2)] materialize_read [OF inv2 bind(3)] bind(4)
    by simp
qed

lemma fork_reads_base_then_suffix_instance:
  "\<exists>base. read_bound_root plain_hashing demo_store demo_root = Inr base \<and>
     read_bound_root plain_hashing
       (snd (bind_root ''mem/b'' ''sha256:nsha256:bsha256:hibsha256:yo'' RootReadOnly
         (snd (fork_append_bytes plain_hashing ''sha256:bsha256:hi'' [''yo''] demo_store))))
       \<lparr>br_name = ''mem/b'', br_root = ''sha256:nsha256:bsha256:hibsha256:yo'', br_access = RootReadOnly\<rparr> =
       Inr (base @ concat [''yo''])"
proof (rule fork_reads_base_then_suffix [OF demo_reachable demo_live])
  show "no_collision plain_hashing demo_store [''yo''] (blocks_node plain_hashing [NodeEntry (br_root demo_root)] [''yo''])"
    by (simp add: no_collision_def blocks_node_def demo_root_def demo_store_eq ks_op_defs plain_hashing_def)
  show "fork_append_bytes plain_hashing (br_root demo_root) [''yo''] demo_store =
      (Inr ''sha256:nsha256:bsha256:hibsha256:yo'',
       snd (fork_append_bytes plain_hashing ''sha256:bsha256:hi'' [''yo''] demo_store))"
    by (simp add: demo_root_def demo_store_eq ks_op_defs plain_hashing_def Let_def)
  show "bind_root ''mem/b'' ''sha256:nsha256:bsha256:hibsha256:yo'' RootReadOnly
      (snd (fork_append_bytes plain_hashing ''sha256:bsha256:hi'' [''yo''] demo_store)) =
      (Inr \<lparr>br_name = ''mem/b'', br_root = ''sha256:nsha256:bsha256:hibsha256:yo'', br_access = RootReadOnly\<rparr>,
       snd (bind_root ''mem/b'' ''sha256:nsha256:bsha256:hibsha256:yo'' RootReadOnly
         (snd (fork_append_bytes plain_hashing ''sha256:bsha256:hi'' [''yo''] demo_store))))"
    by (simp add: demo_store_eq ks_op_defs plain_hashing_def Let_def)
qed

section \<open>Reads are authorised and verified\<close>

definition verified_below :: "hashing \<Rightarrow> knowledge_store \<Rightarrow> content_hash \<Rightarrow> bool" where
  "verified_below hs st root \<longleftrightarrow>
     (\<forall>x. dag_reach st root x \<longrightarrow> (\<exists>node. node_at st x = Some node \<and> hash_bytes hs (node_bytes hs node) = x)) \<and>
     (\<forall>h. block_reach st root h \<longrightarrow> (\<exists>bs. block_at st h = Some bs \<and> hash_bytes hs bs = h))"

lemma verify_sound:
  "verify_node hs st root v = Inr () \<Longrightarrow> verified_below hs st root"
  "verify_entries hs st es v = Inr () \<Longrightarrow>
     (\<forall>h. NodeEntry h \<in> set es \<longrightarrow> verified_below hs st h) \<and>
     (\<forall>h. BlockEntry h \<in> set es \<longrightarrow> (\<exists>bs. block_at st h = Some bs \<and> hash_bytes hs bs = h))"
proof (induction hs st root v and hs st es v rule: verify_node_verify_entries.induct)
  case (1 hs st root v)
  then obtain node where node: "root \<notin> v" "node_at st root = Some node" "\<not> hash_bytes hs (node_bytes hs node) \<noteq> root"
    and entries: "verify_entries hs st (node_entries node) (insert root v) = Inr ()"
    by (auto simp: verify_node.simps [of hs st root] split: if_splits option.splits)
  note IH = "1.IH" [OF node entries]
  have "\<exists>node. node_at st x = Some node \<and> hash_bytes hs (node_bytes hs node) = x" if "dag_reach st root x" for x
    using that
  proof (cases rule: converse_rtranclpE)
    case (step y)
    then show ?thesis using IH node(2) by (auto simp: dag_child_def verified_below_def)
  qed (use node in auto)
  moreover have "\<exists>bs. block_at st h = Some bs \<and> hash_bytes hs bs = h" if reach: "block_reach st root h" for h
  proof -
    obtain b n where b: "dag_reach st root b" "node_at st b = Some n" "BlockEntry h \<in> set (node_entries n)"
      using reach by (auto simp: block_reach_def)
    from b(1) show ?thesis
    proof (cases rule: converse_rtranclpE)
      case base
      then show ?thesis using IH node(2) b by auto
    next
      case (step y)
      then have "verified_below hs st y" using IH node(2) by (auto simp: dag_child_def)
      moreover have "block_reach st y h" using step(2) b(2,3) by (auto simp: block_reach_def)
      ultimately show ?thesis by (simp add: verified_below_def)
    qed
  qed
  ultimately show ?case by (simp add: verified_below_def)
next
  case (3 hs st hash es v)
  then show ?case by (auto split: option.splits if_splits)
next
  case (4 hs st hash es v)
  then show ?case by (auto split: sum.splits)
qed simp

text \<open>
  (C22) Reads are authorised and verified, in any store at all: bytes come back only through the
  binding that is live under its name, and only when every node and block the root reaches still
  hashes to its own name; so replacing a reachable block by content with another hash makes every
  read of that root fail.
\<close>

theorem reads_are_authorised_and_verified:
  assumes "read_bound_root hs st b = Inr bs"
  shows "root_live st b \<and> verified_below hs st (br_root b) \<and>
    (\<forall>h bad. block_reach st (br_root b) h \<longrightarrow> hash_bytes hs bad \<noteq> h \<longrightarrow>
      (\<forall>bs'. read_bound_root hs (snd (replace_block_for_test h bad st)) b \<noteq> Inr bs'))"
proof -
  have verified: "root_live s b \<and> verified_below hs s (br_root b)" if "read_bound_root hs s b = Inr x" for s x
    using that by (auto simp: read_bound_root_def root_live_def verify_root_hash_def
        intro: verify_sound(1) split: option.splits if_splits sum.splits)
  have "False" if reach: "block_reach st (br_root b) h" and bad: "hash_bytes hs bad \<noteq> h"
    and read: "read_bound_root hs (snd (replace_block_for_test h bad st)) b = Inr bs'" for h bad bs'
  proof -
    let ?st = "snd (replace_block_for_test h bad st)"
    have nodes: "ks_nodes ?st = ks_nodes st" by (auto simp: replace_block_for_test_def split: option.split)
    then have "block_reach ?st (br_root b) h" using reach by (simp add: block_reach_def dag_child_def [abs_def])
    then obtain c where "block_at ?st h = Some c" "hash_bytes hs c = h"
      using verified [OF read] by (auto simp: verified_below_def)
    with bad show False by (auto simp: replace_block_for_test_def split: option.splits)
  qed
  with verified [OF assms] show ?thesis by blast
qed

theorem reads_are_authorised_and_verified_witness:
  "\<forall>bs'. read_bound_root plain_hashing (snd (replace_block_for_test ''sha256:hi'' ''no'' demo_store)) demo_root \<noteq> Inr bs'"
proof -
  obtain bs where bs: "read_bound_root plain_hashing demo_store demo_root = Inr bs"
    using read_bound_root_total [OF kreachable_inv [OF demo_reachable]] demo_live by (auto simp: root_live_def)
  have "block_reach demo_store (br_root demo_root) ''sha256:hi''"
    by (rule block_reach_own [of _ _ "\<lparr>dn_version = 1, dn_kind = Sequence [BlockEntry ''sha256:hi'']\<rparr>"])
      (simp_all add: demo_store_eq demo_root_def)
  with reads_are_authorised_and_verified [OF bs] show ?thesis by (simp add: hash_bytes_def plain_hashing_def)
qed

section \<open>The store as named documents\<close>

text \<open>
  What a server of named documents relies on: checkpointing bytes disturbs no live binding and
  yields a root that can be bound, binding and unbinding a name disturb no other name, a live
  binding reads, and what was checkpointed and bound reads back. The client keeps a table of the
  bindings it holds; \<open>held\<close> says that they are all live and \<open>view\<close> is the content they show.
\<close>

definition held :: "('s \<Rightarrow> bool) \<Rightarrow> ('s \<Rightarrow> string \<Rightarrow> 'h \<Rightarrow> bool) \<Rightarrow> 's \<Rightarrow> (string \<rightharpoonup> 'h) \<Rightarrow> bool" where
  "held ok live s t \<longleftrightarrow> ok s \<and> (\<forall>n h. t n = Some h \<longrightarrow> live s n h)"

definition view :: "('s \<Rightarrow> 'h \<Rightarrow> bytes kres) \<Rightarrow> 's \<Rightarrow> (string \<rightharpoonup> 'h) \<Rightarrow> string \<rightharpoonup> bytes" where
  "view load s t n = (case t n of None \<Rightarrow> None | Some h \<Rightarrow> (case load s h of Inl _ \<Rightarrow> None | Inr bs \<Rightarrow> Some bs))"

definition keeps :: "('s \<Rightarrow> string \<Rightarrow> 'h \<Rightarrow> bool) \<Rightarrow> ('s \<Rightarrow> 'h \<Rightarrow> bytes kres) \<Rightarrow> string set \<Rightarrow> 's \<Rightarrow> 's \<Rightarrow> bool" where
  "keeps live load except s s' \<longleftrightarrow>
     (\<forall>n h. n \<notin> except \<longrightarrow> live s n h \<longrightarrow> live s' n h \<and> load s' h = load s h)"

lemma keepsD: "keeps live load except s s' \<Longrightarrow> n \<notin> except \<Longrightarrow> live s n h \<Longrightarrow> live s' n h \<and> load s' h = load s h"
  by (simp add: keeps_def)

lemma heldD: "held ok live s t \<Longrightarrow> t n = Some h \<Longrightarrow> live s n h"
  by (simp add: held_def)

locale checkpoint_store =
  fixes ok :: "'s \<Rightarrow> bool" and live :: "'s \<Rightarrow> string \<Rightarrow> 'h \<Rightarrow> bool"
    and fresh :: "bytes \<Rightarrow> 's \<Rightarrow> bool"
    and put :: "bytes \<Rightarrow> 's \<Rightarrow> 'r kres \<times> 's"
    and bind :: "string \<Rightarrow> 'r \<Rightarrow> 's \<Rightarrow> 'h kres \<times> 's"
    and unbind :: "string \<Rightarrow> 's \<Rightarrow> unit kres \<times> 's"
    and load :: "'s \<Rightarrow> 'h \<Rightarrow> bytes kres"
  assumes put_law: "ok s \<Longrightarrow> put bs s = (r, s') \<Longrightarrow>
      ok s' \<and> keeps live load {} s s' \<and> (\<exists>root. r = Inr root \<and> (\<forall>n. \<exists>h s''. bind n root s' = (Inr h, s'')))"
    and bind_law: "ok s \<Longrightarrow> bind n root s = (Inr h, s') \<Longrightarrow> ok s' \<and> live s' n h \<and> keeps live load {n} s s'"
    and bind_error: "bind n root s = (Inl e, s') \<Longrightarrow> s' = s"
    and unbind_law: "ok s \<Longrightarrow> live s n h \<Longrightarrow> unbind n s = (u, s') \<Longrightarrow> u = Inr () \<and> ok s' \<and> keeps live load {n} s s'"
    and load_law: "ok s \<Longrightarrow> live s n h \<Longrightarrow> \<exists>bs. load s h = Inr bs"
    and put_bind_load: "ok s \<Longrightarrow> fresh bs s \<Longrightarrow> put bs s = (Inr root, s') \<Longrightarrow> bind n root s' = (Inr h, s'') \<Longrightarrow>
      load s'' h = Inr bs"
begin

lemma view_dom: "held ok live s t \<Longrightarrow> dom (view load s t) = dom t"
  using load_law by (fastforce simp: held_def view_def split: option.splits sum.splits)

lemma view_load: "held ok live s t \<Longrightarrow> t n = Some h \<Longrightarrow> \<exists>bs. load s h = Inr bs \<and> view load s t n = Some bs"
  using load_law [of s n h] by (auto simp: held_def view_def)

lemma keeps_view:
  assumes "keeps live load except s s'" "held ok live s t" "n \<notin> except"
  shows "view load s' t n = view load s t n"
  using keepsD [OF assms(1,3)] heldD [OF assms(2)] by (auto simp: view_def split: option.split)

lemma put_view:
  assumes "held ok live s t" "put bs s = (r, s')"
  shows "held ok live s' t" "view load s' t = view load s t"
    "\<exists>root. r = Inr root \<and> (\<forall>n. \<exists>h s''. bind n root s' = (Inr h, s''))"
proof -
  have ok: "ok s" using assms(1) by (simp add: held_def)
  note law = put_law [OF ok assms(2)]
  show "held ok live s' t" using assms(1) law by (auto simp: held_def keeps_def)
  show "view load s' t = view load s t" using keeps_view [of "{}"] law assms(1) by blast
  show "\<exists>root. r = Inr root \<and> (\<forall>n. \<exists>h s''. bind n root s' = (Inr h, s''))" using law by blast
qed

lemma bind_view:
  assumes "held ok live s t" "bind n root s = (Inr h, s')"
  shows "held ok live s' (t(n \<mapsto> h))"
    "\<exists>bs. load s' h = Inr bs \<and> view load s' (t(n \<mapsto> h)) = (view load s t)(n \<mapsto> bs)"
proof -
  have ok: "ok s" using assms(1) by (simp add: held_def)
  note law = bind_law [OF ok assms(2)]
  show held: "held ok live s' (t(n \<mapsto> h))" using assms(1) law by (auto simp: held_def keeps_def)
  obtain bs where "load s' h = Inr bs" using load_law law by blast
  moreover have "view load s' (t(n \<mapsto> h)) m = view load s t m" if "m \<noteq> n" for m
    using keeps_view [of "{n}" s s' t m] law assms(1) that by (simp add: view_def)
  ultimately show "\<exists>bs. load s' h = Inr bs \<and> view load s' (t(n \<mapsto> h)) = (view load s t)(n \<mapsto> bs)"
    by (intro exI [of _ bs] conjI ext) (auto simp: view_def [of _ _ _ n])
qed

lemma unbind_view:
  assumes "held ok live s t" "t n = Some h" "unbind n s = (r, s')"
  shows "r = Inr ()" "held ok live s' (t(n := None))" "view load s' (t(n := None)) = (view load s t)(n := None)"
proof -
  have ok: "ok s" using assms(1) by (simp add: held_def)
  note law = unbind_law [OF ok heldD [OF assms(1,2)] assms(3)]
  show "r = Inr ()" using law by simp
  show "held ok live s' (t(n := None))" using assms(1) law by (auto simp: held_def keeps_def)
  have "view load s' (t(n := None)) m = view load s t m" if "m \<noteq> n" for m
    using keeps_view [of "{n}" s s' t m] law assms(1) that by (simp add: view_def)
  then show "view load s' (t(n := None)) = (view load s t)(n := None)" by (auto simp: view_def [of _ _ _ n])
qed

lemma save_view:
  assumes "held ok live s t" "fresh bs s" "put bs s = (Inr root, s1)" "bind n root s1 = (Inr h, s2)"
  shows "held ok live s2 (t(n \<mapsto> h))" "view load s2 (t(n \<mapsto> h)) = (view load s t)(n \<mapsto> bs)"
proof -
  have ok: "ok s" using assms(1) by (simp add: held_def)
  note put = put_view [OF assms(1,3)]
  show "held ok live s2 (t(n \<mapsto> h))" using bind_view(1) [OF put(1) assms(4)] .
  show "view load s2 (t(n \<mapsto> h)) = (view load s t)(n \<mapsto> bs)"
    using bind_view(2) [OF put(1) assms(4)] put(2) put_bind_load [OF ok assms(2-4)] by auto
qed

end

definition fresh_document :: "hashing \<Rightarrow> bytes \<Rightarrow> knowledge_store \<Rightarrow> bool" where
  "fresh_document hs bs st \<longleftrightarrow> no_collision hs st [bs] (blocks_node hs [] [bs])"

definition live_binding :: "knowledge_store \<Rightarrow> string \<Rightarrow> bound_root \<Rightarrow> bool" where
  "live_binding st n b \<longleftrightarrow> br_name b = n \<and> root_live st b"

lemma checkpoint_document:
  assumes "store_inv hs st" "checkpoint_from_bytes hs [bs] st = (r, st')"
  shows "r = Inr (hash_bytes hs (node_bytes hs (blocks_node hs [] [bs])))"
    "ks_roots st' = ks_roots st" "contains_node st' (hash_bytes hs (node_bytes hs (blocks_node hs [] [bs])))"
    "fresh_document hs bs st \<Longrightarrow>
       node_at st' (hash_bytes hs (node_bytes hs (blocks_node hs [] [bs]))) = Some (blocks_node hs [] [bs]) \<and>
       block_at st' (hash_bytes hs bs) = Some bs"
proof -
  let ?st = "snd (put_block hs bs st)" and ?node = "blocks_node hs [] [bs]"
  have "fst (put_block hs bs st) = hash_bytes hs bs" by (simp add: put_block_def Let_def)
  then have "checkpoint_from_bytes hs [bs] st = map_prod Inr id (put_node hs ?node ?st)"
    by (simp add: checkpoint_from_bytes_def checkpoint_from_blocks_def blocks_node_def case_prod_beta)
  then have r: "r = Inr (hash_bytes hs (node_bytes hs ?node))" and st': "st' = snd (put_node hs ?node ?st)"
    using assms(2) by (auto simp: put_node_def Let_def)
  show "r = Inr (hash_bytes hs (node_bytes hs ?node))" by (rule r)
  show "ks_roots st' = ks_roots st" by (simp add: st' put_node_def put_block_def Let_def)
  show "contains_node st' (hash_bytes hs (node_bytes hs ?node))" by (simp add: st')
  show "node_at st' (hash_bytes hs (node_bytes hs ?node)) = Some ?node \<and> block_at st' (hash_bytes hs bs) = Some bs"
    if "fresh_document hs bs st"
    using that by (auto simp: st' put_node_def put_block_def Let_def fresh_document_def no_collision_def)
qed

lemma extends_keeps:
  assumes inv: "store_inv hs st" and "extends st st'"
    and roots: "\<And>n. n \<notin> except \<Longrightarrow> fmlookup (ks_roots st') n = fmlookup (ks_roots st) n"
  shows "keeps live_binding (read_bound_root hs) except st st'"
  unfolding keeps_def live_binding_def
proof (intro allI impI)
  fix n b assume "n \<notin> except" and live: "br_name b = n \<and> root_live st b"
  then have "fmlookup (ks_roots st') (br_name b) = fmlookup (ks_roots st) (br_name b)" using roots by auto
  with live show "(br_name b = n \<and> root_live st' b) \<and> read_bound_root hs st' b = read_bound_root hs st b"
    using read_bound_root_same [OF extends_same_below [OF inv live_present [OF inv] assms(2)]] by (auto simp: root_live_def)
qed

interpretation ck: checkpoint_store "store_inv hs" live_binding "fresh_document hs"
  "\<lambda>bs. checkpoint_from_bytes hs [bs]" "\<lambda>n root. bind_root n root access" unbind_root "read_bound_root hs"
proof
  fix bs s r s' assume inv: "store_inv hs s" and put: "checkpoint_from_bytes hs [bs] s = (r, s')"
  have "store_inv hs s'" using checkpoint_from_bytes_inv [OF inv, of "[bs]"] put by simp
  moreover have "extends s s'" using extends_checkpoint_bytes(1) [of s hs "[bs]"] put by simp
  then have "keeps live_binding (read_bound_root hs) {} s s'"
    using checkpoint_document(2) [OF inv put] by (intro extends_keeps [OF inv]) simp_all
  moreover note checkpoint_document(1,3) [OF inv put]
  ultimately show "store_inv hs s' \<and> keeps live_binding (read_bound_root hs) {} s s' \<and>
      (\<exists>root. r = Inr root \<and> (\<forall>n. \<exists>h s''. bind_root n root access s' = (Inr h, s'')))"
    by (auto simp: bind_root_def Let_def)
next
  fix n root s h s' assume inv: "store_inv hs s" and bind: "bind_root n root access s = (Inr h, s')"
  have "store_inv hs s'" using bind_root_inv [OF inv, of n root access] bind by simp
  moreover have "extends s s'" using extends_roots(1) [of s n root access] bind by simp
  then have "keeps live_binding (read_bound_root hs) {n} s s'"
    using bind by (intro extends_keeps [OF inv]) (auto simp: bind_root_def Let_def split: if_splits)
  ultimately show "store_inv hs s' \<and> live_binding s' n h \<and> keeps live_binding (read_bound_root hs) {n} s s'"
    using bind by (auto simp: bind_root_def Let_def live_binding_def root_live_def split: if_splits)
next
  fix n root s e s' assume "bind_root n root access s = (Inl e, s')"
  then show "s' = s" by (auto simp: bind_root_def Let_def split: if_splits)
next
  fix s n b r s' assume inv: "store_inv hs s" and live: "live_binding s n b" and unbind: "unbind_root n s = (r, s')"
  have "store_inv hs s'" using unbind_root_inv [OF inv, of n] unbind by simp
  moreover have "extends s s'" using extends_roots(2) [of s n] unbind by simp
  then have "keeps live_binding (read_bound_root hs) {n} s s'"
    using unbind by (intro extends_keeps [OF inv]) (auto simp: unbind_root_def split: option.splits)
  ultimately show "r = Inr () \<and> store_inv hs s' \<and> keeps live_binding (read_bound_root hs) {n} s s'"
    using unbind live by (auto simp: unbind_root_def live_binding_def root_live_def split: option.splits)
next
  fix s n b assume "store_inv hs s" "live_binding s n b"
  then show "\<exists>bs. read_bound_root hs s b = Inr bs"
    by (auto simp: live_binding_def root_live_def intro: read_bound_root_total)
next
  fix s bs root s' n h s''
  assume inv: "store_inv hs s" and fresh: "fresh_document hs bs s" and put: "checkpoint_from_bytes hs [bs] s = (Inr root, s')"
    and bind: "bind_root n root access s' = (Inr h, s'')"
  have inv1: "store_inv hs s'" using checkpoint_from_bytes_inv [OF inv, of "[bs]"] put by simp
  have inv2: "store_inv hs s''" using bind_root_inv [OF inv1, of n root access] bind by simp
  have b: "root_live s'' h" "br_root h = root" "ks_nodes s'' = ks_nodes s'" "ks_blocks s'' = ks_blocks s'"
    using bind by (auto simp: bind_root_def Let_def root_live_def split: if_splits)
  show "read_bound_root hs s'' h = Inr bs"
    using checkpoint_document(1) [OF inv put] checkpoint_document(4) [OF inv put fresh]
    by (simp add: materialize_read [OF inv2 b(1)] b materialize_node.simps [of s''] blocks_node_def sequence_node_def)
qed

end
