(* ===== verification/Mem_Fs.thy ===== *)
theory Mem_Fs
  imports AP_Server Knowledge_Store
begin

text \<open>
  The memory file server (\<open>crates/memfs/src/lib.rs\<close>): a flat directory of documents whose bytes
  live as checkpoints in the knowledge store. \<open>hs\<close> is the store's hashing and \<open>hasher\<close> the standard
  library's default hasher, which the code applies to names to form qid paths.
\<close>

section \<open>State\<close>

record memory_file =
  mf_root :: bound_root
  mf_generation :: u64

datatype mem_node = MemRoot | MemFile string

record mem_fid =
  mfid_node :: mem_node
  mfid_mode :: "open_mode option"
  mfid_write_buf :: bytes
  mfid_wrote :: bool
  mfid_file_generation :: "u64 option"

record mem_state =
  ms_store :: knowledge_store
  ms_files :: "(string, memory_file) btree"
  ms_versions :: version_table
  ms_fids :: "fid \<rightharpoonup> mem_fid"
  ms_next_file_generation :: u64

definition memfs_new :: mem_state where
  "memfs_new = \<lparr>ms_store = ks_new, ms_files = [], ms_versions = vt_new, ms_fids = Map.empty,
     ms_next_file_generation = 1\<rparr>"

definition mem_max_doc_bytes :: nat where
  "mem_max_doc_bytes = 2 ^ 20"

section \<open>Helpers\<close>

definition mem_valid_name :: "string \<Rightarrow> bool" where
  "mem_valid_name name \<longleftrightarrow> name \<noteq> [] \<and> CHR ''/'' \<notin> set name \<and> newline \<notin> set name"

definition mem_root_name :: "string \<Rightarrow> string" where
  "mem_root_name name = ''mem/'' @ name"

fun mem_node_identity :: "(string \<Rightarrow> u64) \<Rightarrow> mem_node \<Rightarrow> file_kind \<times> u64" where
  "mem_node_identity hasher MemRoot = (KDir, hasher ''/'')"
| "mem_node_identity hasher (MemFile name) = (KFile, hasher name)"

fun map_knowledge_error :: "knowledge_error \<Rightarrow> error_code" where
  "map_knowledge_error RootNoAccess = NoAccess"
| "map_knowledge_error (MissingBlock _) = NotFound"
| "map_knowledge_error (MissingNode _) = NotFound"
| "map_knowledge_error (UnknownRoot _) = NotFound"
| "map_knowledge_error (HashMismatch _) = Io"
| "map_knowledge_error (Cycle _) = Io"

definition mem_node_of :: "mem_state \<Rightarrow> fid \<Rightarrow> mem_node res" where
  "mem_node_of s fid = (if fid = ROOT then Ok MemRoot else ok_or (map_option mfid_node (ms_fids s fid)) NotFound)"

definition mem_qid :: "(string \<Rightarrow> u64) \<Rightarrow> mem_state \<Rightarrow> mem_node \<Rightarrow> qid" where
  "mem_qid hasher s node =
     (let (kind, path) = mem_node_identity hasher node in
      \<lparr>qid_kind = kind, qid_version = vt_get (ms_versions s) path, qid_path = path\<rparr>)"

definition mem_materialize :: "hashing \<Rightarrow> mem_state \<Rightarrow> string \<Rightarrow> bytes res" where
  "mem_materialize hs s name =
     (case bt_get (ms_files s) name of
        None \<Rightarrow> Err NotFound
      | Some file \<Rightarrow> map_sum map_knowledge_error id (read_bound_root hs (ms_store s) (mf_root file)))"

definition mem_next_generation :: "mem_state \<Rightarrow> u64 \<times> mem_state" where
  "mem_next_generation s =
     (ms_next_file_generation s, s\<lparr>ms_next_file_generation := ms_next_file_generation s + 1\<rparr>)"

definition bind_file_root ::
  "(string \<Rightarrow> u64) \<Rightarrow> string \<Rightarrow> content_hash \<Rightarrow> u64 \<Rightarrow> mem_state \<Rightarrow> unit res \<times> mem_state" where
  "bind_file_root hasher name root generation s =
     (case bind_root (mem_root_name name) root RootReadWrite (ms_store s) of
        (Inl e, store) \<Rightarrow> (Err (map_knowledge_error e), s\<lparr>ms_store := store\<rparr>)
      | (Inr binding, store) \<Rightarrow>
          (Ok (), s\<lparr>ms_store := store,
             ms_files := bt_insert name \<lparr>mf_root = binding, mf_generation = generation\<rparr> (ms_files s),
             ms_versions := vt_bump (snd (mem_node_identity hasher (MemFile name)))
               (vt_bump (snd (mem_node_identity hasher MemRoot)) (ms_versions s))\<rparr>))"

definition put_file_at_generation ::
  "hashing \<Rightarrow> (string \<Rightarrow> u64) \<Rightarrow> string \<Rightarrow> bytes \<Rightarrow> u64 \<Rightarrow> mem_state \<Rightarrow> unit res \<times> mem_state" where
  "put_file_at_generation hs hasher name bs generation s =
     (case checkpoint_from_bytes hs [bs] (ms_store s) of
        (Inl e, store) \<Rightarrow> (Err (map_knowledge_error e), s\<lparr>ms_store := store\<rparr>)
      | (Inr root, store) \<Rightarrow> bind_file_root hasher name root generation (s\<lparr>ms_store := store\<rparr>))"

definition put_file :: "hashing \<Rightarrow> (string \<Rightarrow> u64) \<Rightarrow> string \<Rightarrow> bytes \<Rightarrow> mem_state \<Rightarrow> u64 res \<times> mem_state" where
  "put_file hs hasher name bs s =
     (let (generation, s1) = (case bt_get (ms_files s) name of
            Some file \<Rightarrow> (mf_generation file, s)
          | None \<Rightarrow> mem_next_generation s)
      in case put_file_at_generation hs hasher name bs generation s1 of
           (Inl e, s2) \<Rightarrow> (Err e, s2)
         | (Inr _, s2) \<Rightarrow> (Ok generation, s2))"

definition put_existing_file ::
  "hashing \<Rightarrow> (string \<Rightarrow> u64) \<Rightarrow> string \<Rightarrow> u64 \<Rightarrow> bytes \<Rightarrow> mem_state \<Rightarrow> unit res \<times> mem_state" where
  "put_existing_file hs hasher name expected_generation bs s =
     (case bt_get (ms_files s) name of
        None \<Rightarrow> (Err NotFound, s)
      | Some file \<Rightarrow>
          if mf_generation file \<noteq> expected_generation then (Err NotFound, s)
          else put_file_at_generation hs hasher name bs expected_generation s)"

section \<open>The checkpoint interface of the server\<close>

definition checkpoint_root :: "string \<Rightarrow> mem_state \<Rightarrow> content_hash res" where
  "checkpoint_root name s = map_sum id (\<lambda>file. br_root (mf_root file)) (ok_or (bt_get (ms_files s) name) NotFound)"

definition restore_checkpoint ::
  "(string \<Rightarrow> u64) \<Rightarrow> string \<Rightarrow> content_hash \<Rightarrow> mem_state \<Rightarrow> unit res \<times> mem_state" where
  "restore_checkpoint hasher name root s =
     (if \<not> mem_valid_name name then (Err BadRequest, s)
      else (let (generation, s1) = mem_next_generation s in bind_file_root hasher name root generation s1))"

section \<open>The file server\<close>

definition mem_listing :: "mem_state \<Rightarrow> bytes" where
  "mem_listing s = join_with [newline] (bt_keys (ms_files s))"

definition mem_fid_at :: "mem_node \<Rightarrow> u64 option \<Rightarrow> mem_fid" where
  "mem_fid_at node generation =
     \<lparr>mfid_node = node, mfid_mode = None, mfid_write_buf = [], mfid_wrote = False, mfid_file_generation = generation\<rparr>"

definition mem_walk_target :: "mem_state \<Rightarrow> fid \<Rightarrow> string list \<Rightarrow> mem_node res" where
  "mem_walk_target s fid names =
     (case mem_node_of s fid of
        Inl e \<Rightarrow> Err e
      | Inr (MemFile _) \<Rightarrow> Err NotDirectory
      | Inr MemRoot \<Rightarrow>
          (case names of
             [] \<Rightarrow> Ok MemRoot
           | [name] \<Rightarrow> if bt_get (ms_files s) name \<noteq> None then Ok (MemFile name) else Err NotFound
           | _ \<Rightarrow> Err NotDirectory))"

definition mem_generation_of :: "mem_state \<Rightarrow> mem_node \<Rightarrow> u64 option res" where
  "mem_generation_of s node =
     (case node of
        MemRoot \<Rightarrow> Ok None
      | MemFile name \<Rightarrow> map_sum id (\<lambda>file. Some (mf_generation file)) (ok_or (bt_get (ms_files s) name) NotFound))"

definition mem_walk ::
  "(string \<Rightarrow> u64) \<Rightarrow> fid \<Rightarrow> fid \<Rightarrow> string list \<Rightarrow> mem_state \<Rightarrow> qid res \<times> mem_state" where
  "mem_walk hasher fid newfid names s =
     (if newfid = ROOT \<or> ms_fids s newfid \<noteq> None then (Err BadRequest, s)
      else
        (case mem_walk_target s fid names of
           Inl e \<Rightarrow> (Err e, s)
         | Inr node \<Rightarrow>
             (case mem_generation_of s node of
                Inl e \<Rightarrow> (Err e, s)
              | Inr generation \<Rightarrow>
                  (Ok (mem_qid hasher s node), s\<lparr>ms_fids := (ms_fids s)(newfid \<mapsto> mem_fid_at node generation)\<rparr>))))"

definition mem_read_write_base :: "hashing \<Rightarrow> mem_state \<Rightarrow> mem_node \<Rightarrow> open_mode \<Rightarrow> bytes option res" where
  "mem_read_write_base hs s node mode =
     (case node of
        MemFile name \<Rightarrow> if mode = OpenReadWrite then map_sum id Some (mem_materialize hs s name) else Ok None
      | MemRoot \<Rightarrow> Ok None)"

definition mem_open ::
  "hashing \<Rightarrow> (string \<Rightarrow> u64) \<Rightarrow> fid \<Rightarrow> open_mode \<Rightarrow> mem_state \<Rightarrow> qid res \<times> mem_state" where
  "mem_open hs hasher fid mode s =
     (case mem_node_of s fid of
        Inl e \<Rightarrow> (Err e, s)
      | Inr node \<Rightarrow>
          if fid \<noteq> ROOT \<and> already_open mfid_mode (ms_fids s fid) then (Err BadRequest, s)
          else if node = MemRoot \<and> write_intent mode then (Err NoAccess, s)
          else if (case node of MemFile name \<Rightarrow> bt_get (ms_files s) name = None | MemRoot \<Rightarrow> False) then (Err NotFound, s)
          else
            (case mem_read_write_base hs s node mode of
               Inl e \<Rightarrow> (Err e, s)
             | Inr base \<Rightarrow>
                 if fid \<noteq> ROOT then
                   (case ms_fids s fid of
                      None \<Rightarrow> (Err NotFound, s)
                    | Some f \<Rightarrow>
                        (Ok (mem_qid hasher s node),
                         s\<lparr>ms_fids := (ms_fids s)(fid \<mapsto> f\<lparr>mfid_mode := Some mode,
                             mfid_write_buf := (case base of Some bs \<Rightarrow> bs | None \<Rightarrow> mfid_write_buf f)\<rparr>)\<rparr>))
                 else (Ok (mem_qid hasher s node), s)))"

definition mem_bytes :: "hashing \<Rightarrow> mem_state \<Rightarrow> mem_node \<Rightarrow> bytes res" where
  "mem_bytes hs s node =
     (case node of MemRoot \<Rightarrow> Ok (mem_listing s) | MemFile name \<Rightarrow> mem_materialize hs s name)"

definition mem_read_allowed :: "mem_state \<Rightarrow> fid \<Rightarrow> unit res" where
  "mem_read_allowed s fid =
     (if fid = ROOT then Ok ()
      else
        (case ms_fids s fid of
           None \<Rightarrow> Err NotFound
         | Some f \<Rightarrow> if opened_for_read (mfid_mode f) then Ok () else Err NoAccess))"

definition mem_read :: "hashing \<Rightarrow> fid \<Rightarrow> offset \<Rightarrow> u32 \<Rightarrow> mem_state \<Rightarrow> bytes res \<times> mem_state" where
  "mem_read hs fid offset count s =
     (case mem_read_allowed s fid of
        Inl e \<Rightarrow> (Err e, s)
      | Inr _ \<Rightarrow>
          (case mem_node_of s fid of
             Inl e \<Rightarrow> (Err e, s)
           | Inr node \<Rightarrow> (map_sum id (\<lambda>bs. slice bs offset count) (mem_bytes hs s node), s)))"

definition mem_write :: "fid \<Rightarrow> offset \<Rightarrow> bytes \<Rightarrow> mem_state \<Rightarrow> u32 res \<times> mem_state" where
  "mem_write fid offset data s =
     (case ms_fids s fid of
        None \<Rightarrow> (Err NotFound, s)
      | Some f \<Rightarrow>
          if \<not> opened_for_write (mfid_mode f) then (Err NoAccess, s)
          else if mfid_node f = MemRoot then (Err Unsupported, s)
          else
            (case doc_write mem_max_doc_bytes offset data (mfid_write_buf f) of
               Inl e \<Rightarrow> (Err e, s)
             | Inr buf \<Rightarrow>
                 (Ok (of_nat (length data)),
                  s\<lparr>ms_fids := (ms_fids s)(fid \<mapsto> f\<lparr>mfid_write_buf := buf, mfid_wrote := True\<rparr>)\<rparr>)))"

definition mem_stat :: "hashing \<Rightarrow> (string \<Rightarrow> u64) \<Rightarrow> fid \<Rightarrow> mem_state \<Rightarrow> stat res \<times> mem_state" where
  "mem_stat hs hasher fid s =
     (case mem_node_of s fid of
        Inl e \<Rightarrow> (Err e, s)
      | Inr node \<Rightarrow>
          (map_sum id (\<lambda>bs. \<lparr>stat_name = [], stat_qid = mem_qid hasher s node, stat_length = of_nat (length bs),
             stat_executable = False, stat_writable = (node \<noteq> MemRoot)\<rparr>) (mem_bytes hs s node), s))"

definition mem_create ::
  "hashing \<Rightarrow> (string \<Rightarrow> u64) \<Rightarrow> fid \<Rightarrow> fid \<Rightarrow> string \<Rightarrow> file_kind \<Rightarrow> mem_state \<Rightarrow> qid res \<times> mem_state" where
  "mem_create hs hasher fid newfid name kind s =
     (if kind \<noteq> KFile \<or> \<not> mem_valid_name name then (Err BadRequest, s)
      else if newfid = ROOT \<or> ms_fids s newfid \<noteq> None then (Err BadRequest, s)
      else
        (case mem_node_of s fid of
           Inl e \<Rightarrow> (Err e, s)
         | Inr (MemFile _) \<Rightarrow> (Err NotDirectory, s)
         | Inr MemRoot \<Rightarrow>
             if bt_get (ms_files s) name \<noteq> None then (Err BadRequest, s)
             else
               (case put_file hs hasher name [] s of
                  (Inl e, s1) \<Rightarrow> (Err e, s1)
                | (Inr generation, s1) \<Rightarrow>
                    (Ok (mem_qid hasher s1 (MemFile name)),
                     s1\<lparr>ms_fids := (ms_fids s1)(newfid \<mapsto> mem_fid_at (MemFile name) (Some generation))\<rparr>))))"

definition mem_remove :: "(string \<Rightarrow> u64) \<Rightarrow> fid \<Rightarrow> mem_state \<Rightarrow> unit res \<times> mem_state" where
  "mem_remove hasher fid s =
     (case mem_node_of s fid of
        Inl e \<Rightarrow> (Err e, s)
      | Inr MemRoot \<Rightarrow> (Err Unsupported, s)
      | Inr (MemFile name) \<Rightarrow>
          if bt_get (ms_files s) name = None then (Err NotFound, s)
          else
            (let s1 = s\<lparr>ms_files := bt_remove name (ms_files s)\<rparr> in
             case unbind_root (mem_root_name name) (ms_store s1) of
               (Inl e, store) \<Rightarrow> (Err (map_knowledge_error e), s1\<lparr>ms_store := store\<rparr>)
             | (Inr _, store) \<Rightarrow>
                 (Ok (), s1\<lparr>ms_store := store,
                    ms_versions := vt_bump (snd (mem_node_identity hasher (MemFile name)))
                      (vt_bump (snd (mem_node_identity hasher MemRoot)) (ms_versions s1)),
                    ms_fids := (ms_fids s1)(fid := None)\<rparr>)))"

definition mem_clunk :: "hashing \<Rightarrow> (string \<Rightarrow> u64) \<Rightarrow> fid \<Rightarrow> mem_state \<Rightarrow> unit res \<times> mem_state" where
  "mem_clunk hs hasher fid s =
     (if fid = ROOT then (Ok (), s)
      else
        (case ms_fids s fid of
           None \<Rightarrow> (Err NotFound, s)
         | Some f \<Rightarrow>
             (let s1 = s\<lparr>ms_fids := (ms_fids s)(fid := None)\<rparr> in
              case mfid_node f of
                MemFile name \<Rightarrow>
                  if mfid_wrote f then
                    (case mfid_file_generation f of
                       None \<Rightarrow> (Err NotFound, s1)
                     | Some generation \<Rightarrow> put_existing_file hs hasher name generation (mfid_write_buf f) s1)
                  else (Ok (), s1)
              | MemRoot \<Rightarrow> (Ok (), s1))))"

definition mem_server :: "hashing \<Rightarrow> (string \<Rightarrow> u64) \<Rightarrow> mem_state file_server" where
  "mem_server hs hasher =
     \<lparr>fs_walk = (\<lambda>f n ns s. ready (mem_walk hasher f n ns s)), fs_open = (\<lambda>f m s. ready (mem_open hs hasher f m s)),
      fs_read = (\<lambda>f off c s. ready (mem_read hs f off c s)), fs_write = (\<lambda>f off d s. ready (mem_write f off d s)),
      fs_stat = (\<lambda>f s. ready (mem_stat hs hasher f s)),
      fs_create = (\<lambda>f n nm k s. ready (mem_create hs hasher f n nm k s)),
      fs_remove = (\<lambda>f s. ready (mem_remove hasher f s)), fs_clunk = (\<lambda>f s. ready (mem_clunk hs hasher f s))\<rparr>"

lemmas mem_op_defs = mem_walk_def mem_open_def mem_read_def mem_write_def mem_stat_def mem_create_def
  mem_remove_def mem_clunk_def

section \<open>Fids\<close>

lemma bind_file_root_fids [simp]: "ms_fids (snd (bind_file_root hasher name root g s)) = ms_fids s"
  by (auto simp: bind_file_root_def split: prod.splits sum.splits)

lemma put_file_at_generation_fids [simp]:
  "ms_fids (snd (put_file_at_generation hs hasher name bs g s)) = ms_fids s"
  by (auto simp: put_file_at_generation_def split: prod.splits sum.splits)

lemma put_existing_file_fids [simp]: "ms_fids (snd (put_existing_file hs hasher name g bs s)) = ms_fids s"
  by (auto simp: put_existing_file_def split: option.splits)

lemma put_file_fids [simp]: "ms_fids (snd (put_file hs hasher name bs s)) = ms_fids s"
proof -
  have "ms_fids s' = ms_fids s0" if "put_file_at_generation hs hasher name bs g s0 = (r, s')" for r s' g s0
    using put_file_at_generation_fids [of hs hasher name bs g s0] that by simp
  then show ?thesis
    by (auto simp: put_file_def mem_next_generation_def split: option.splits prod.splits sum.splits)
qed

definition mem_live :: "mem_state \<Rightarrow> fid set" where
  "mem_live s = dom (ms_fids s) - {ROOT}"

lemma put_file_eq_fids:
  "put_file hs hasher name bs s = (r, s') \<Longrightarrow> ms_fids s' = ms_fids s"
  "put_existing_file hs hasher name g bs s = (r', s') \<Longrightarrow> ms_fids s' = ms_fids s"
  using put_file_fids [of hs hasher name bs s] put_existing_file_fids [of hs hasher name g bs s] by auto

interpretation mem: fid_server "mem_server hs hasher" mem_live
proof
  fix f s
  show "mem_live (snd (fs_clunk (mem_server hs hasher) f s)) = mem_live s - {f}"
    by (auto simp: mem_server_def mem_live_def mem_clunk_def Let_def ready_def split: option.splits mem_node.splits if_splits)
next
  fix f n nm k s
  show "mem_live (snd (fs_create (mem_server hs hasher) f n nm k s)) =
      (if is_ok (fst (fs_create (mem_server hs hasher) f n nm k s)) then insert n (mem_live s) else mem_live s)"
    by (auto simp: mem_server_def mem_live_def mem_create_def dest!: put_file_eq_fids(1)
        split: sum.splits mem_node.splits prod.splits if_splits)
qed (auto simp: mem_server_def mem_live_def mem_op_defs Let_def split: sum.splits option.splits mem_node.splits prod.splits if_splits)

section \<open>The documents a server shows\<close>

text \<open>The bindings the server holds in the store, and the content of each document: the abstract
  state of the server is a map from names to bytes.\<close>

definition mem_table :: "mem_state \<Rightarrow> string \<rightharpoonup> bound_root" where
  "mem_table s key =
     (case strip_prefix ''mem/'' key of
        None \<Rightarrow> None
      | Some name \<Rightarrow> map_option mf_root (bt_get (ms_files s) name))"

definition mem_abs :: "hashing \<Rightarrow> mem_state \<Rightarrow> string \<rightharpoonup> bytes" where
  "mem_abs hs s name = view (read_bound_root hs) (ms_store s) (mem_table s) (mem_root_name name)"

definition mem_held :: "hashing \<Rightarrow> mem_state \<Rightarrow> bool" where
  "mem_held hs s \<longleftrightarrow> held (store_inv hs) live_binding (ms_store s) (mem_table s)"

lemma mem_table_root_name [simp]: "mem_table s (mem_root_name name) = map_option mf_root (bt_get (ms_files s) name)"
  by (simp only: mem_table_def mem_root_name_def strip_prefix_append option.case)

lemma mem_root_name_inj [simp]: "mem_root_name a = mem_root_name b \<longleftrightarrow> a = b"
  by (simp add: mem_root_name_def)

lemma mem_table_cong: "bt_get (ms_files s') = bt_get (ms_files s) \<Longrightarrow> mem_table s' = mem_table s"
  by (rule ext) (simp add: mem_table_def split: option.split)

lemma mem_table_upd:
  "bt_get (ms_files s') = (bt_get (ms_files s))(name := f) \<Longrightarrow>
     mem_table s' = (mem_table s)(mem_root_name name := map_option mf_root f)"
proof (rule ext)
  fix key assume upd: "bt_get (ms_files s') = (bt_get (ms_files s))(name := f)"
  show "mem_table s' key = ((mem_table s)(mem_root_name name := map_option mf_root f)) key"
  proof (cases "strip_prefix ''mem/'' key")
    case None
    then have "key \<noteq> mem_root_name name" by (metis mem_root_name_def option.distinct(1) strip_prefix_append)
    with None show ?thesis by (simp add: mem_table_def)
  next
    case (Some n)
    then have "key = mem_root_name n" by (simp only: mem_root_name_def strip_prefix_Some)
    then show ?thesis using upd by simp
  qed
qed

lemma mem_abs_upd:
  "view (read_bound_root hs) (ms_store s') (mem_table s') = (view (read_bound_root hs) (ms_store s) (mem_table s))(mem_root_name name := c) \<Longrightarrow>
     mem_abs hs s' = (mem_abs hs s)(name := c)"
  by (auto simp: mem_abs_def fun_eq_iff)

lemma mem_abs_cong:
  "ms_store s' = ms_store s \<Longrightarrow> ms_files s' = ms_files s \<Longrightarrow> mem_abs hs s' = mem_abs hs s"
  "ms_store s' = ms_store s \<Longrightarrow> ms_files s' = ms_files s \<Longrightarrow> mem_held hs s' = mem_held hs s"
  using mem_table_cong [of s' s] by (auto simp: mem_abs_def [abs_def] mem_held_def)

lemma mem_held_new [simp]: "mem_held hs memfs_new"
  by (simp add: mem_held_def held_def memfs_new_def mem_table_def split: option.split)

lemma mem_materialize_abs: "mem_held hs s \<Longrightarrow> mem_materialize hs s name = ok_or (mem_abs hs s name) NotFound"
  using ck.view_load [of hs "ms_store s" "mem_table s" "mem_root_name name"]
  by (auto simp: mem_materialize_def mem_abs_def mem_held_def view_def split: option.split)

lemma mem_abs_dom: "mem_held hs s \<Longrightarrow> mem_abs hs s name = None \<longleftrightarrow> bt_get (ms_files s) name = None"
  using ck.view_load [of hs "ms_store s" "mem_table s" "mem_root_name name"]
  by (cases "bt_get (ms_files s) name") (auto simp: mem_abs_def mem_held_def view_def)

lemma bind_file_root_ok:
  assumes "mem_held hs s" "bind_root (mem_root_name name) root RootReadWrite (ms_store s) = (Inr b, store)"
    "bind_file_root hasher name root g s = (r, s')"
  shows "r = Ok () \<and> mem_held hs s' \<and> (\<exists>bs. read_bound_root hs store b = Inr bs \<and> mem_abs hs s' = (mem_abs hs s)(name \<mapsto> bs)) \<and>
    ms_store s' = store \<and> ms_files s' = bt_insert name \<lparr>mf_root = b, mf_generation = g\<rparr> (ms_files s) \<and>
    ms_next_file_generation s' = ms_next_file_generation s"
proof -
  have s': "r = Ok ()" "ms_store s' = store" "ms_files s' = bt_insert name \<lparr>mf_root = b, mf_generation = g\<rparr> (ms_files s)"
    "ms_next_file_generation s' = ms_next_file_generation s"
    using assms(2,3) by (auto simp: bind_file_root_def)
  have tab: "mem_table s' = (mem_table s)(mem_root_name name \<mapsto> b)"
    using mem_table_upd [of s' s name "Some \<lparr>mf_root = b, mf_generation = g\<rparr>"] by (simp add: s'(3))
  have held: "held (store_inv hs) live_binding (ms_store s) (mem_table s)" using assms(1) by (simp add: mem_held_def)
  show ?thesis
    using ck.bind_view [OF held assms(2)] s' mem_abs_upd [of hs s' s name]
    by (fastforce simp: mem_held_def tab)
qed

lemma put_file_at_generation_ok:
  assumes held: "mem_held hs s" and put: "put_file_at_generation hs hasher name bs g s = (r, s')"
  shows "r = Ok () \<and> mem_held hs s' \<and>
    (\<exists>b. ms_files s' = bt_insert name \<lparr>mf_root = b, mf_generation = g\<rparr> (ms_files s)) \<and>
    ms_next_file_generation s' = ms_next_file_generation s \<and>
    (fresh_document hs bs (ms_store s) \<longrightarrow> mem_abs hs s' = (mem_abs hs s)(name \<mapsto> bs))"
proof -
  have held': "held (store_inv hs) live_binding (ms_store s) (mem_table s)" using held by (simp add: mem_held_def)
  obtain r1 store where ck: "checkpoint_from_bytes hs [bs] (ms_store s) = (r1, store)" by (metis prod.exhaust)
  note view = ck.put_view [OF held' ck]
  obtain root where root: "r1 = Inr root" using view(3) by blast
  obtain b store' where bind: "bind_root (mem_root_name name) root RootReadWrite store = (Inr b, store')"
    using view(3) root by blast
  let ?s = "s\<lparr>ms_store := store\<rparr>"
  have tab: "mem_table ?s = mem_table s" by (rule mem_table_cong) simp
  have "mem_held hs ?s" using view(1) by (simp add: mem_held_def tab)
  moreover have "bind_root (mem_root_name name) root RootReadWrite (ms_store ?s) = (Inr b, store')" using bind by simp
  moreover have "bind_file_root hasher name root g ?s = (r, s')"
    using put ck root by (simp add: put_file_at_generation_def)
  ultimately have ok: "r = Ok () \<and> mem_held hs s' \<and>
      (\<exists>bs. read_bound_root hs store' b = Inr bs \<and> mem_abs hs s' = (mem_abs hs ?s)(name \<mapsto> bs)) \<and>
      ms_store s' = store' \<and> ms_files s' = bt_insert name \<lparr>mf_root = b, mf_generation = g\<rparr> (ms_files ?s) \<and>
      ms_next_file_generation s' = ms_next_file_generation ?s"
    by (rule bind_file_root_ok)
  have "mem_abs hs ?s = mem_abs hs s" using view(2) by (simp add: mem_abs_def tab fun_eq_iff)
  moreover have "read_bound_root hs store' b = Inr bs" if "fresh_document hs bs (ms_store s)"
    using ck.put_bind_load [OF _ that ck [unfolded root] bind] held' by (simp add: held_def)
  ultimately show ?thesis using ok by auto
qed

lemma put_file_ok:
  assumes "mem_held hs s" "put_file hs hasher name bs s = (r, s')" "bt_get (ms_files s) name = None"
  shows "r = Ok (ms_next_file_generation s) \<and> mem_held hs s' \<and>
    (\<exists>b. ms_files s' = bt_insert name \<lparr>mf_root = b, mf_generation = ms_next_file_generation s\<rparr> (ms_files s)) \<and>
    ms_next_file_generation s' = ms_next_file_generation s + 1 \<and>
    (fresh_document hs bs (ms_store s) \<longrightarrow> mem_abs hs s' = (mem_abs hs s)(name \<mapsto> bs))"
proof -
  let ?s = "s\<lparr>ms_next_file_generation := ms_next_file_generation s + 1\<rparr>"
  obtain r1 s1 where put: "put_file_at_generation hs hasher name bs (ms_next_file_generation s) ?s = (r1, s1)"
    by (metis prod.exhaust)
  have same: "mem_held hs ?s = mem_held hs s" "mem_abs hs ?s = mem_abs hs s" by (rule mem_abs_cong; simp)+
  have held: "mem_held hs ?s" using assms(1) same by simp
  from put_file_at_generation_ok [OF held put] put assms(2,3) show ?thesis
    by (auto simp: put_file_def mem_next_generation_def same)
qed

lemma put_existing_file_ok:
  assumes "mem_held hs s" "put_existing_file hs hasher name g bs s = (r, s')"
  shows "mem_held hs s' \<and> ms_next_file_generation s' = ms_next_file_generation s \<and>
    (if \<exists>file. bt_get (ms_files s) name = Some file \<and> mf_generation file = g
     then r = Ok () \<and> (\<exists>b. ms_files s' = bt_insert name \<lparr>mf_root = b, mf_generation = g\<rparr> (ms_files s)) \<and>
       (fresh_document hs bs (ms_store s) \<longrightarrow> mem_abs hs s' = (mem_abs hs s)(name \<mapsto> bs))
     else r = Err NotFound \<and> s' = s)"
  using assms put_file_at_generation_ok [OF assms(1), of hasher name bs g r s']
  by (auto simp: put_existing_file_def split: option.splits if_splits)

section \<open>Every state keeps its documents readable\<close>

inductive mem_reachable :: "hashing \<Rightarrow> (string \<Rightarrow> u64) \<Rightarrow> mem_state \<Rightarrow> bool" for hs hasher where
  mem_start: "mem_reachable hs hasher memfs_new"
| mem_call: "mem_reachable hs hasher s \<Longrightarrow> mem_reachable hs hasher (snd (in_process_call (mem_server hs hasher) req s))"
| mem_restore: "mem_reachable hs hasher s \<Longrightarrow> mem_reachable hs hasher (snd (restore_checkpoint hasher name root s))"

lemma restore_checkpoint_held:
  assumes "mem_held hs s"
  shows "mem_held hs (snd (restore_checkpoint hasher name root s))"
proof (cases "mem_valid_name name")
  case True
  let ?s = "s\<lparr>ms_next_file_generation := ms_next_file_generation s + 1\<rparr>"
  have held: "mem_held hs ?s" using assms mem_abs_cong(2) [of ?s s] by simp
  obtain r store where bind: "bind_root (mem_root_name name) root RootReadWrite (ms_store ?s) = (r, store)"
    by (metis prod.exhaust)
  obtain r' s' where bfr: "bind_file_root hasher name root (ms_next_file_generation s) ?s = (r', s')"
    by (metis prod.exhaust)
  have "mem_held hs s'"
  proof (cases r)
    case (Inl e)
    then have "store = ms_store s" using ck.bind_error [OF bind [unfolded Inl]] by simp
    then have "s' = ?s" using bfr bind Inl by (simp add: bind_file_root_def)
    with held show ?thesis by simp
  next
    case (Inr b)
    then show ?thesis using bind_file_root_ok [OF held bind [unfolded Inr] bfr] by simp
  qed
  with True bfr show ?thesis by (simp add: restore_checkpoint_def mem_next_generation_def)
qed (use assms in \<open>simp add: restore_checkpoint_def\<close>)

lemma mem_fids_only:
  "ms_store (snd (mem_walk hasher f n ns s)) = ms_store s" "ms_files (snd (mem_walk hasher f n ns s)) = ms_files s"
  "ms_store (snd (mem_open hs hasher f m s)) = ms_store s" "ms_files (snd (mem_open hs hasher f m s)) = ms_files s"
  "ms_store (snd (mem_write f off d s)) = ms_store s" "ms_files (snd (mem_write f off d s)) = ms_files s"
  "snd (mem_read hs f off c s) = s" "snd (mem_stat hs hasher f s) = s"
  by (auto simp: mem_op_defs split: sum.splits option.splits if_splits)

text \<open>What each request does to the documents, read off the fid table alone.\<close>

fun mem_spec :: "mem_state \<Rightarrow> request \<Rightarrow> bool \<Rightarrow> (string \<rightharpoonup> bytes) \<Rightarrow> string \<rightharpoonup> bytes" where
  "mem_spec s (ReqCreate fid newfid name kind) ok docs = (if ok then docs(name \<mapsto> []) else docs)"
| "mem_spec s (ReqRemove fid) ok docs =
     (case ms_fids s fid of
        Some f \<Rightarrow> (case mfid_node f of MemFile name \<Rightarrow> if ok then docs(name := None) else docs | MemRoot \<Rightarrow> docs)
      | None \<Rightarrow> docs)"
| "mem_spec s (ReqClunk fid) ok docs =
     (case ms_fids s fid of
        Some f \<Rightarrow>
          (case mfid_node f of
             MemFile name \<Rightarrow> if ok \<and> mfid_wrote f \<and> fid \<noteq> ROOT then docs(name \<mapsto> mfid_write_buf f) else docs
           | MemRoot \<Rightarrow> docs)
      | None \<Rightarrow> docs)"
| "mem_spec s _ ok docs = docs"

fun mem_fresh :: "hashing \<Rightarrow> mem_state \<Rightarrow> request \<Rightarrow> bool" where
  "mem_fresh hs s (ReqCreate fid newfid name kind) = fresh_document hs [] (ms_store s)"
| "mem_fresh hs s (ReqClunk fid) =
     (case ms_fids s fid of Some f \<Rightarrow> fresh_document hs (mfid_write_buf f) (ms_store s) | None \<Rightarrow> True)"
| "mem_fresh hs s _ = True"

lemma mem_create_ok:
  assumes "mem_held hs s" "mem_create hs hasher fid newfid name kind s = (r, s')"
  shows "mem_held hs s' \<and> (fresh_document hs [] (ms_store s) \<longrightarrow>
    mem_abs hs s' = (case r of Inl _ \<Rightarrow> mem_abs hs s | Inr _ \<Rightarrow> (mem_abs hs s)(name \<mapsto> [])))"
proof (cases "bt_get (ms_files s) name")
  case None
  obtain r1 s1 where put: "put_file hs hasher name [] s = (r1, s1)" by (metis prod.exhaust)
  note ok = put_file_ok [OF assms(1) put None]
  have "mem_held hs (s1\<lparr>ms_fids := t\<rparr>) = mem_held hs s1" "mem_abs hs (s1\<lparr>ms_fids := t\<rparr>) = mem_abs hs s1" for t
    by (rule mem_abs_cong; simp)+
  with assms None put ok show ?thesis
    by (auto simp: mem_create_def split: if_splits sum.splits mem_node.splits)
qed (use assms in \<open>auto simp: mem_create_def split: if_splits sum.splits mem_node.splits\<close>)

lemma mem_remove_ok:
  assumes held: "mem_held hs s" and remove: "mem_remove hasher fid s = (r, s')"
  shows "mem_held hs s' \<and> (case r of
      Inl _ \<Rightarrow> s' = s
    | Inr _ \<Rightarrow> (\<exists>f name. ms_fids s fid = Some f \<and> mfid_node f = MemFile name \<and> mem_abs hs s' = (mem_abs hs s)(name := None)))"
proof (cases "\<exists>f name file. fid \<noteq> ROOT \<and> ms_fids s fid = Some f \<and> mfid_node f = MemFile name \<and> bt_get (ms_files s) name = Some file")
  case True
  then obtain f name mf where f: "fid \<noteq> ROOT" "ms_fids s fid = Some f" "mfid_node f = MemFile name"
    and found: "bt_get (ms_files s) name = Some mf" by blast
  obtain u store where unbind: "unbind_root (mem_root_name name) (ms_store s) = (u, store)" by (metis prod.exhaust)
  have "held (store_inv hs) live_binding (ms_store s) (mem_table s)" using held by (simp add: mem_held_def)
  moreover have "mem_table s (mem_root_name name) = Some (mf_root mf)" using found by simp
  ultimately have u: "u = Inr ()" "held (store_inv hs) live_binding store ((mem_table s)(mem_root_name name := None))"
    "view (read_bound_root hs) store ((mem_table s)(mem_root_name name := None)) =
       (view (read_bound_root hs) (ms_store s) (mem_table s))(mem_root_name name := None)"
    using ck.unbind_view [OF _ _ unbind] by blast+
  have s': "r = Ok ()" "ms_store s' = store" "ms_files s' = bt_remove name (ms_files s)"
    using remove f found unbind u(1) by (auto simp: mem_remove_def mem_node_of_def Let_def)
  have tab: "mem_table s' = (mem_table s)(mem_root_name name := None)"
    using mem_table_upd [of s' s name None] by (simp add: s'(3))
  have "mem_held hs s'" using u(2) by (simp add: mem_held_def s'(2) tab)
  moreover have "mem_abs hs s' = (mem_abs hs s)(name := None)"
    by (rule mem_abs_upd) (simp add: tab s'(2) u(3))
  ultimately show ?thesis using f s'(1) by auto
next
  case False
  then have "s' = s \<and> (\<exists>e. r = Inl e)"
    using remove by (fastforce simp: mem_remove_def mem_node_of_def Let_def ok_or_def
        split: if_splits option.splits mem_node.splits)
  with held show ?thesis by auto
qed

lemma mem_clunk_ok:
  assumes held: "mem_held hs s" and clunk: "mem_clunk hs hasher fid s = (r, s')"
  shows "mem_held hs s' \<and> (mem_fresh hs s (ReqClunk fid) \<longrightarrow> mem_abs hs s' = mem_spec s (ReqClunk fid) (r = Ok ()) (mem_abs hs s))"
proof (cases "\<exists>f name g. fid \<noteq> ROOT \<and> ms_fids s fid = Some f \<and> mfid_node f = MemFile name \<and> mfid_wrote f \<and>
    mfid_file_generation f = Some g")
  case True
  then obtain f name g where f: "fid \<noteq> ROOT" "ms_fids s fid = Some f" "mfid_node f = MemFile name" "mfid_wrote f"
    "mfid_file_generation f = Some g" by blast
  let ?s = "s\<lparr>ms_fids := (ms_fids s)(fid := None)\<rparr>"
  have same: "mem_held hs ?s = mem_held hs s" "mem_abs hs ?s = mem_abs hs s" by (rule mem_abs_cong; simp)+
  have put: "put_existing_file hs hasher name g (mfid_write_buf f) ?s = (r, s')"
    using clunk f by (simp add: mem_clunk_def Let_def)
  from put_existing_file_ok [OF _ put] held same f show ?thesis by (auto split: if_splits)
next
  case False
  have same: "mem_held hs (s\<lparr>ms_fids := t\<rparr>) = mem_held hs s" "mem_abs hs (s\<lparr>ms_fids := t\<rparr>) = mem_abs hs s" for t
    by (rule mem_abs_cong; simp)+
  show ?thesis
    using clunk False held
    by (auto simp: mem_clunk_def Let_def same split: if_splits option.splits mem_node.splits)
qed

lemma mem_call_fids_only:
  assumes "binds_fid req = None \<or> (\<exists>f n ns. req = ReqWalk f n ns)" "releases_fid req = None"
  shows "ms_store (snd (in_process_call (mem_server hs hasher) req s)) = ms_store s"
    "ms_files (snd (in_process_call (mem_server hs hasher) req s)) = ms_files s"
  using assms by (cases req; simp add: mem_server_def ready_def mem_fids_only)+

lemma mem_call_held:
  assumes "mem_held hs s" "in_process_call (mem_server hs hasher) req s = (r, s')"
  shows "mem_held hs s' \<and> (mem_fresh hs s req \<longrightarrow> mem_abs hs s' = mem_spec s req (is_ok r) (mem_abs hs s))"
proof -
  have keep: ?thesis
    if req: "binds_fid req = None \<or> (\<exists>f n ns. req = ReqWalk f n ns)" "releases_fid req = None"
  proof -
    have "mem_spec s req (is_ok r) (mem_abs hs s) = mem_abs hs s" using req by (cases req) auto
    then show ?thesis using mem_call_fids_only [OF req, of hs hasher s] mem_abs_cong [of s' s hs] assms by simp
  qed
  show ?thesis
  proof (cases req)
    case (ReqCreate fid newfid name kind)
    obtain r1 where "mem_create hs hasher fid newfid name kind s = (r1, s')" "r = Some (map_sum id RespCreate r1)"
      using assms(2) by (cases "mem_create hs hasher fid newfid name kind s") (auto simp: ReqCreate mem_server_def map_ok_def)
    with mem_create_ok [OF assms(1) this(1)] show ?thesis by (cases r1) (auto simp: ReqCreate)
  next
    case (ReqRemove fid)
    obtain r1 where "mem_remove hasher fid s = (r1, s')" "r = Some (map_sum id (\<lambda>_. RespRemove) r1)"
      using assms(2) by (cases "mem_remove hasher fid s") (auto simp: ReqRemove mem_server_def map_ok_def)
    with mem_remove_ok [OF assms(1) this(1)] show ?thesis
      by (cases r1) (auto simp: ReqRemove split: option.splits mem_node.splits)
  next
    case (ReqClunk fid)
    obtain r1 where "mem_clunk hs hasher fid s = (r1, s')" "r = Some (map_sum id (\<lambda>_. RespClunk) r1)"
      using assms(2) by (cases "mem_clunk hs hasher fid s") (auto simp: ReqClunk mem_server_def map_ok_def)
    with mem_clunk_ok [OF assms(1) this(1)] show ?thesis by (cases r1) (simp_all add: ReqClunk)
  qed (rule keep; simp)+
qed

lemma mem_reachable_held: "mem_reachable hs hasher s \<Longrightarrow> mem_held hs s"
proof (induction rule: mem_reachable.induct)
  case (mem_call s req)
  then show ?case using mem_call_held [OF mem_call.IH prod.collapse [symmetric]] by simp
qed (simp_all add: restore_checkpoint_held)

text \<open>
  (C23) The memory server refines a map from names to bytes: in every state it can reach, by
  requests or by restoring checkpoints, every file it lists reads back in full, and a request
  changes the map exactly as its outcome says: a successful create adds an empty document, a
  successful remove deletes the document of the fid, a successful clunk of a written fid replaces
  the document by the buffered bytes, and everything else, every failure included, leaves all
  documents as they were, unless a written content collides with different stored content.
\<close>

theorem memfs_refines_documents:
  assumes "mem_reachable hs hasher s" "in_process_call (mem_server hs hasher) req s = (r, s')"
  shows "(\<forall>name. mem_materialize hs s name = ok_or (mem_abs hs s name) NotFound) \<and>
    (\<forall>name. mem_abs hs s name = None \<longleftrightarrow> bt_get (ms_files s) name = None) \<and>
    (mem_fresh hs s req \<longrightarrow> mem_abs hs s' = mem_spec s req (is_ok r) (mem_abs hs s))"
  using mem_reachable_held [OF assms(1)] mem_call_held [OF _ assms(2)]
  by (simp add: mem_materialize_abs mem_abs_dom)

definition demo_mem :: mem_state where
  "demo_mem = snd (in_process_call (mem_server plain_hashing (\<lambda>_. 5)) (ReqCreate ROOT 7 ''a'' KFile) memfs_new)"

lemma demo_mem_reachable: "mem_reachable plain_hashing (\<lambda>_. 5) demo_mem"
  unfolding demo_mem_def by (intro mem_call mem_start)

lemma fresh_new: "fresh_document hs bs ks_new"
  by (simp add: fresh_document_def no_collision_def ks_new_def)

lemma demo_mem_abs: "mem_abs plain_hashing demo_mem = [''a'' \<mapsto> []]"
proof -
  obtain r where create: "in_process_call (mem_server plain_hashing (\<lambda>_. 5)) (ReqCreate ROOT 7 ''a'' KFile) memfs_new = (r, demo_mem)"
    by (metis demo_mem_def prod.collapse)
  then have "is_ok r"
    by (auto simp: mem_server_def map_ok_def ready_def mem_create_def mem_valid_name_def memfs_new_def mem_node_of_def
        put_file_def mem_next_generation_def put_file_at_generation_def bind_file_root_def ks_op_defs ks_new_def
        Let_def is_ok_def split: option.splits sum.splits prod.splits)
  moreover have "mem_fresh plain_hashing memfs_new (ReqCreate ROOT 7 ''a'' KFile)"
    by (simp add: fresh_new memfs_new_def)
  ultimately have "mem_abs plain_hashing demo_mem = (mem_abs plain_hashing memfs_new)(''a'' \<mapsto> [])"
    using mem_call_held [OF mem_held_new create] by simp
  moreover have "mem_abs plain_hashing memfs_new = Map.empty"
    by (rule ext) (simp add: mem_abs_def view_def memfs_new_def)
  ultimately show ?thesis by simp
qed

theorem memfs_refines_documents_witness:
  "\<exists>r s'. in_process_call (mem_server plain_hashing (\<lambda>_. 5)) (ReqRemove 7) demo_mem = (r, s') \<and>
     mem_materialize plain_hashing demo_mem ''a'' = Ok [] \<and>
     mem_abs plain_hashing s' = mem_spec demo_mem (ReqRemove 7) (is_ok r) [''a'' \<mapsto> []]"
proof -
  obtain r s' where call: "in_process_call (mem_server plain_hashing (\<lambda>_. 5)) (ReqRemove 7) demo_mem = (r, s')"
    by (metis prod.exhaust)
  from memfs_refines_documents [OF demo_mem_reachable call] call show ?thesis
    by (auto simp: demo_mem_abs)
qed

section \<open>A stale writer never overwrites\<close>

text \<open>A fid is stale when the file it was walked to is gone, or is another incarnation by now.\<close>

definition mem_stale :: "mem_state \<Rightarrow> fid \<Rightarrow> bool" where
  "mem_stale s fid \<longleftrightarrow> (\<exists>f name g. ms_fids s fid = Some f \<and> mfid_node f = MemFile name \<and> mfid_file_generation f = Some g \<and>
     (\<forall>file. bt_get (ms_files s) name = Some file \<longrightarrow> mf_generation file \<noteq> g))"

definition mem_gens :: "mem_state \<Rightarrow> bool" where
  "mem_gens s \<longleftrightarrow>
     (\<forall>name file. bt_get (ms_files s) name = Some file \<longrightarrow> mf_generation file < ms_next_file_generation s) \<and>
     (\<forall>fid f g. ms_fids s fid = Some f \<longrightarrow> mfid_file_generation f = Some g \<longrightarrow> g < ms_next_file_generation s) \<and>
     ms_fids s ROOT = None"

lemma mem_gens_new [simp]: "mem_gens memfs_new"
  by (simp add: mem_gens_def memfs_new_def)

text \<open>How one request moves generations: they are only ever issued from the counter.\<close>

definition gen_step :: "mem_state \<Rightarrow> mem_state \<Rightarrow> bool" where
  "gen_step s s' \<longleftrightarrow>
     ms_next_file_generation s' \<in> {ms_next_file_generation s, ms_next_file_generation s + 1} \<and>
     (\<forall>name file. bt_get (ms_files s') name = Some file \<longrightarrow>
       (\<exists>old. bt_get (ms_files s) name = Some old \<and> mf_generation old = mf_generation file) \<or>
       mf_generation file = ms_next_file_generation s \<and> ms_next_file_generation s' = ms_next_file_generation s + 1) \<and>
     (\<forall>fid f. ms_fids s' fid = Some f \<longrightarrow>
       (case ms_fids s fid of
          Some old \<Rightarrow> mfid_node old = mfid_node f \<and> mfid_file_generation old = mfid_file_generation f
        | None \<Rightarrow> fid \<noteq> ROOT \<and> (\<forall>g. mfid_file_generation f = Some g \<longrightarrow>
            (\<exists>name file. bt_get (ms_files s') name = Some file \<and> mf_generation file = g))))"

lemma gen_step_refl [simp]: "gen_step s s"
  by (auto simp: gen_step_def)

lemma gen_step_walk: "gen_step s (snd (mem_walk hasher f n ns s))"
  by (auto simp: gen_step_def mem_walk_def mem_fid_at_def mem_generation_of_def ok_or_def
      split: sum.splits option.splits mem_node.splits if_splits)

lemma gen_step_open: "gen_step s (snd (mem_open hs hasher f m s))"
  by (auto simp: gen_step_def mem_open_def split: sum.splits option.splits if_splits)

lemma gen_step_write: "gen_step s (snd (mem_write f off d s))"
  by (auto simp: gen_step_def mem_write_def split: sum.splits option.splits if_splits)

lemma gen_step_create:
  assumes held: "mem_held hs s"
  shows "gen_step s (snd (mem_create hs hasher fid newfid name kind s))"
proof (cases "bt_get (ms_files s) name")
  case None
  obtain r1 s1 where put: "put_file hs hasher name [] s = (r1, s1)" by (metis prod.exhaust)
  note ok = put_file_ok [OF held put None] and fids = put_file_eq_fids(1) [OF put]
  from ok fids None show ?thesis
    by (auto simp: gen_step_def mem_create_def put mem_fid_at_def split: if_splits sum.splits mem_node.splits option.splits)
qed (auto simp: mem_create_def split: if_splits sum.splits mem_node.splits)

lemma gen_step_remove: "gen_step s (snd (mem_remove hasher fid s))"
  by (auto simp: gen_step_def mem_remove_def Let_def split: sum.splits option.splits mem_node.splits prod.splits if_splits)

lemma gen_step_clunk:
  assumes held: "mem_held hs s"
  shows "gen_step s (snd (mem_clunk hs hasher fid s))"
proof -
  let ?s = "s\<lparr>ms_fids := (ms_fids s)(fid := None)\<rparr>"
  have drop: "gen_step s ?s" by (auto simp: gen_step_def split: option.splits)
  have held': "mem_held hs ?s" using held mem_abs_cong(2) [of ?s s] by simp
  have "gen_step s (snd (put_existing_file hs hasher name g bs ?s))" for name g bs
  proof -
    obtain r s' where put: "put_existing_file hs hasher name g bs ?s = (r, s')" by (metis prod.exhaust)
    from put_existing_file_ok [OF held' put] put_file_eq_fids(2) [OF put] drop show ?thesis
      by (auto simp: gen_step_def put split: if_splits option.splits)
  qed
  with drop show ?thesis
    by (auto simp: mem_clunk_def Let_def split: option.split mem_node.split)
qed

lemma gen_step_call: "mem_held hs s \<Longrightarrow> gen_step s (snd (in_process_call (mem_server hs hasher) req s))"
  by (cases req) (auto simp: mem_server_def ready_def mem_fids_only gen_step_walk gen_step_open gen_step_write
      gen_step_create gen_step_remove gen_step_clunk)

lemma word_less_succ:
  fixes n :: u64
  assumes "n + 1 \<noteq> 0"
  shows "n < n + 1" "g < n \<Longrightarrow> g < n + 1"
  using unatSuc [of n] assms by (simp_all add: word_less_nat_alt add.commute)

lemma gen_step_gens:
  assumes step: "gen_step s s'" and gens: "mem_gens s" and nowrap: "ms_next_file_generation s + 1 \<noteq> 0"
  shows "mem_gens s'"
proof -
  have grow: "g < ms_next_file_generation s'" if "g < ms_next_file_generation s" for g
    using step that word_less_succ(2) [OF nowrap] by (auto simp: gen_step_def)
  have mfs: "mf_generation mf < ms_next_file_generation s'" if mf: "bt_get (ms_files s') name = Some mf" for name mf
  proof -
    consider old where "bt_get (ms_files s) name = Some old" "mf_generation old = mf_generation mf"
      | "mf_generation mf = ms_next_file_generation s" "ms_next_file_generation s' = ms_next_file_generation s + 1"
      using step mf unfolding gen_step_def by blast
    then show ?thesis
    proof cases
      case 1
      then have "mf_generation old < ms_next_file_generation s" using gens unfolding mem_gens_def by blast
      with grow 1(2) show ?thesis by simp
    qed (use word_less_succ(1) [OF nowrap] in simp)
  qed
  have fids: "g < ms_next_file_generation s'" if f: "ms_fids s' fid = Some f" "mfid_file_generation f = Some g" for fid f g
  proof (cases "ms_fids s fid")
    case None
    then obtain name mf where "bt_get (ms_files s') name = Some mf" "mf_generation mf = g"
      using step f by (fastforce simp: gen_step_def)
    then show ?thesis using mfs by blast
  next
    case (Some old)
    then have "mfid_file_generation old = Some g" using step f by (fastforce simp: gen_step_def)
    then show ?thesis using gens Some grow by (auto simp: mem_gens_def)
  qed
  have "ms_fids s' ROOT = None"
  proof (rule ccontr)
    assume "ms_fids s' ROOT \<noteq> None"
    then show False using step gens by (fastforce simp: gen_step_def mem_gens_def)
  qed
  with mfs fids show ?thesis by (auto simp: mem_gens_def)
qed

lemma gen_step_stale:
  assumes step: "gen_step s s'" and gens: "mem_gens s" and stale: "mem_stale s fid" and bound: "ms_fids s' fid \<noteq> None"
  shows "mem_stale s' fid"
proof -
  obtain f name g where f: "ms_fids s fid = Some f" "mfid_node f = MemFile name" "mfid_file_generation f = Some g"
    and old: "\<And>mf. bt_get (ms_files s) name = Some mf \<Longrightarrow> mf_generation mf \<noteq> g"
    using stale by (auto simp: mem_stale_def)
  obtain f' where f': "ms_fids s' fid = Some f'" "mfid_node f' = MemFile name" "mfid_file_generation f' = Some g"
    using step bound f by (fastforce simp: gen_step_def)
  have "g < ms_next_file_generation s" using gens f by (auto simp: mem_gens_def)
  then have "mf_generation mf \<noteq> g" if "bt_get (ms_files s') name = Some mf" for mf
    using step old that by (fastforce simp: gen_step_def)
  with f' show ?thesis by (auto simp: mem_stale_def)
qed

lemma run_gens:
  assumes "mem_held hs s" "mem_gens s" "unat (ms_next_file_generation s) + length reqs < 2 ^ 64"
  shows "mem_held hs (snd (in_process_run (mem_server hs hasher) reqs s)) \<and>
    mem_gens (snd (in_process_run (mem_server hs hasher) reqs s)) \<and>
    unat (ms_next_file_generation (snd (in_process_run (mem_server hs hasher) reqs s))) \<le>
      unat (ms_next_file_generation s) + length reqs \<and>
    (mem_stale s fid \<longrightarrow> (\<forall>req \<in> set reqs. releases_fid req \<noteq> Some fid) \<longrightarrow>
      mem_stale (snd (in_process_run (mem_server hs hasher) reqs s)) fid)"
  using assms
proof (induction reqs arbitrary: s)
  case (Cons req reqs)
  let ?s = "snd (in_process_call (mem_server hs hasher) req s)"
  have held: "mem_held hs ?s" using mem_call_held [OF Cons.prems(1) prod.collapse [symmetric]] by simp
  have step: "gen_step s ?s" by (rule gen_step_call [OF Cons.prems(1)])
  have nowrap: "ms_next_file_generation s + 1 \<noteq> 0"
    using Cons.prems(3) by (auto simp: unat_eq_0 [symmetric] unat_word_ariths)
  have gens: "mem_gens ?s" by (rule gen_step_gens [OF step Cons.prems(2) nowrap])
  have bound: "unat (ms_next_file_generation ?s) \<le> Suc (unat (ms_next_file_generation s))"
    using step unatSuc [of "ms_next_file_generation s"] nowrap by (auto simp: gen_step_def add.commute)
  have stale: "mem_stale ?s fid" if "mem_stale s fid" "releases_fid req \<noteq> Some fid"
  proof -
    have "fid \<in> mem_live s" using that(1) Cons.prems(2) by (auto simp: mem_stale_def mem_live_def mem_gens_def)
    then have "fid \<in> mem_live ?s" using mem.run_keeps [of fid s "[req]" hs hasher] that(2) by simp
    then show ?thesis by (intro gen_step_stale [OF step Cons.prems(2) that(1)]) (auto simp: mem_live_def)
  qed
  have "unat (ms_next_file_generation ?s) + length reqs < 2 ^ 64" using bound Cons.prems(3) by simp
  from Cons.IH [OF held gens this] bound stale show ?case by auto
qed simp

text \<open>
  (C24) A stale writer never overwrites: once the file a fid was walked to has been removed or
  replaced, whatever requests follow, clunking the fid changes no file and no stored content, and
  fails with NotFound if anything was written through it (while fewer than 2^64 generations have
  been issued).
\<close>

theorem stale_writer_never_overwrites:
  assumes "s = snd (in_process_run (mem_server hs hasher) before memfs_new)" "mem_stale s fid"
    "s' = snd (in_process_run (mem_server hs hasher) reqs s)" "\<forall>req \<in> set reqs. releases_fid req \<noteq> Some fid"
    "length before + length reqs < 2 ^ 64 - 1" "mem_clunk hs hasher fid s' = (r, s'')"
  shows "ms_files s'' = ms_files s' \<and> ms_store s'' = ms_store s' \<and>
    (\<forall>f. ms_fids s' fid = Some f \<longrightarrow> mfid_wrote f \<longrightarrow> r = Err NotFound)"
proof -
  have start: "unat (ms_next_file_generation memfs_new) = 1" by (simp add: memfs_new_def)
  have run: "mem_held hs s" "mem_gens s" "unat (ms_next_file_generation s) \<le> 1 + length before"
    using run_gens [OF mem_held_new mem_gens_new, of before hs hasher] assms(1,5) start by auto
  have "unat (ms_next_file_generation s) + length reqs < 2 ^ 64" using run(3) assms(5) by simp
  then have run': "mem_gens s'" "mem_stale s' fid" using run_gens [OF run(1,2)] assms(2-4) by auto
  have "fid \<noteq> ROOT" using run' by (auto simp: mem_stale_def mem_gens_def)
  with run'(2) assms(6) show ?thesis
    by (auto simp: mem_clunk_def mem_stale_def put_existing_file_def Let_def split: option.splits if_splits)
qed

lemmas mem_eval = mem_server_def map_ok_def ready_def mem_op_defs mem_valid_name_def memfs_new_def mem_node_of_def
  put_file_def mem_next_generation_def put_file_at_generation_def bind_file_root_def ks_op_defs ks_new_def
  mem_walk_target_def mem_generation_of_def mem_fid_at_def mem_root_name_def plain_hashing_def bt_remove_def

definition demo_stale :: mem_state where
  "demo_stale = snd (in_process_run (mem_server plain_hashing (\<lambda>_. 5))
     [ReqCreate ROOT 7 ''a'' KFile, ReqWalk ROOT 2 [''a''], ReqRemove 7] memfs_new)"

lemma demo_stale_stale: "mem_stale demo_stale 2"
  unfolding demo_stale_def by (simp add: mem_eval mem_stale_def Let_def)

theorem stale_writer_never_overwrites_witness:
  "\<exists>r s''. mem_clunk plain_hashing (\<lambda>_. 5) 2
       (snd (in_process_run (mem_server plain_hashing (\<lambda>_. 5)) [ReqCreate ROOT 3 ''a'' KFile] demo_stale)) = (r, s'') \<and>
     ms_files s'' = ms_files (snd (in_process_run (mem_server plain_hashing (\<lambda>_. 5)) [ReqCreate ROOT 3 ''a'' KFile] demo_stale))"
proof -
  let ?s = "snd (in_process_run (mem_server plain_hashing (\<lambda>_. 5)) [ReqCreate ROOT 3 ''a'' KFile] demo_stale)"
  obtain r s'' where clunk: "mem_clunk plain_hashing (\<lambda>_. 5) 2 ?s = (r, s'')" by (metis prod.exhaust)
  have "ms_files s'' = ms_files ?s"
    by (rule stale_writer_never_overwrites [OF demo_stale_def demo_stale_stale refl _ _ clunk, THEN conjunct1]) simp_all
  with clunk show ?thesis by blast
qed

text \<open>The generation guards only writes: a stale fid can still remove the file that took the name.\<close>

lemma stale_remove_deletes_recreated:
  "let s = snd (in_process_run (mem_server plain_hashing (\<lambda>_. 5)) [ReqCreate ROOT 3 ''a'' KFile] demo_stale) in
   mem_stale s 2 \<and> fst (mem_remove (\<lambda>_. 5) 2 s) = Ok () \<and> bt_get (ms_files (snd (mem_remove (\<lambda>_. 5) 2 s))) ''a'' = None"
  unfolding demo_stale_def by (simp add: mem_eval mem_stale_def Let_def)

end
