(* ===== verification/Reference_Fs.thy ===== *)
theory Reference_Fs
  imports AP_Server
begin

text \<open>
  The reference in-memory server of the protocol crate (\<open>crates/ap/src/reference.rs\<close>): nodes in a
  vector, directories naming them by index, clone-via-open and a commit-on-clunk document. Indexing
  the vector out of range panics in the source; here an operation is then \<open>None\<close>, so that absence of
  panics is a statement about the model. Whether bytes parse as JSON (\<open>serde_json\<close>) is the parameter
  \<open>json_ok\<close>.
\<close>

section \<open>State\<close>

type_synonym node_id = nat

datatype ref_node =
    RefDir "(string, node_id) btree"
  | RefBytes bytes
  | RefClone u64
  | RefDoc

record ref_fid =
  rf_node :: node_id
  rf_mode :: "open_mode option"
  rf_write_buf :: bytes
  rf_clone_name :: "string option"

definition ref_fid_at :: "node_id \<Rightarrow> ref_fid" where
  "ref_fid_at node = \<lparr>rf_node = node, rf_mode = None, rf_write_buf = [], rf_clone_name = None\<rparr>"

record ref_state =
  rs_nodes :: "ref_node list"
  rs_fids :: "fid \<rightharpoonup> ref_fid"
  rs_versions :: version_table

definition ref_max_doc_bytes :: nat where
  "ref_max_doc_bytes = 2 ^ 20"

text \<open>\<open>nodes[i]\<close>, which panics out of range.\<close>

definition ref_index :: "ref_state \<Rightarrow> node_id \<Rightarrow> ref_node option" where
  "ref_index s i = (if i < length (rs_nodes s) then Some (rs_nodes s ! i) else None)"

definition ref_push :: "ref_node \<Rightarrow> ref_state \<Rightarrow> node_id \<times> ref_state" where
  "ref_push node s = (length (rs_nodes s), s\<lparr>rs_nodes := rs_nodes s @ [node]\<rparr>)"

fun ref_kind :: "ref_node \<Rightarrow> file_kind" where
  "ref_kind (RefDir _) = KDir"
| "ref_kind (RefBytes _) = KFile"
| "ref_kind (RefClone _) = KClone"
| "ref_kind RefDoc = KFile"

definition ref_qid :: "ref_state \<Rightarrow> node_id \<Rightarrow> qid option" where
  "ref_qid s node = map_option (\<lambda>n. \<lparr>qid_kind = ref_kind n,
     qid_version = vt_get (rs_versions s) (of_nat node), qid_path = of_nat node\<rparr>) (ref_index s node)"

definition ref_dir_entry :: "ref_state \<Rightarrow> node_id \<Rightarrow> string \<Rightarrow> node_id res option" where
  "ref_dir_entry s dir name =
     map_option (\<lambda>n. case n of RefDir es \<Rightarrow> ok_or (bt_get es name) NotFound | _ \<Rightarrow> Err NotDirectory) (ref_index s dir)"

fun ref_serviceable :: "ref_node \<Rightarrow> open_mode \<Rightarrow> bool" where
  "ref_serviceable RefDoc mode = (mode = OpenWrite)"
| "ref_serviceable (RefBytes _) mode = (mode = OpenRead)"
| "ref_serviceable (RefDir _) mode = (mode = OpenRead)"
| "ref_serviceable (RefClone _) mode = (mode = OpenRead)"

text \<open>\<open>if let Node::Dir(entries) = &mut nodes[0] { entries.insert(name, id) }\<close>.\<close>

definition ref_insert_root :: "string \<Rightarrow> node_id \<Rightarrow> ref_state \<Rightarrow> ref_state option" where
  "ref_insert_root name node s =
     map_option (\<lambda>root. case root of
         RefDir es \<Rightarrow> s\<lparr>rs_nodes := (rs_nodes s)[0 := RefDir (bt_insert name node es)]\<rparr>
       | _ \<Rightarrow> s) (ref_index s 0)"

section \<open>Construction\<close>

definition ref_empty_root :: ref_state where
  "ref_empty_root = \<lparr>rs_nodes = [RefDir []], rs_fids = Map.empty, rs_versions = vt_new\<rparr>"

definition ref_bind_root_fid :: "ref_state \<Rightarrow> ref_state" where
  "ref_bind_root_fid s = s\<lparr>rs_fids := (rs_fids s)(ROOT \<mapsto> ref_fid_at 0)\<rparr>"

definition ref_new :: ref_state where
  "ref_new = ref_bind_root_fid (ref_empty_root\<lparr>rs_nodes :=
     [RefDir (bt_insert ''submit'' 3 (bt_insert ''clone'' 2 (bt_insert ''greeting'' 1 []))),
      RefBytes ''hi'', RefClone 0, RefDoc]\<rparr>)"

fun ref_add_files :: "(string \<times> bytes) list \<Rightarrow> ref_state \<Rightarrow> ref_state option" where
  "ref_add_files [] s = Some s"
| "ref_add_files ((name, bs) # files) s =
     (if name = [] \<or> CHR ''/'' \<in> set name then None
      else
        (let (node, s1) = ref_push (RefBytes bs) s in
         Option.bind (ref_insert_root name node s1) (ref_add_files files)))"

definition with_read_only_files :: "(string \<times> bytes) list \<Rightarrow> ref_state option" where
  "with_read_only_files files = map_option ref_bind_root_fid (ref_add_files files ref_empty_root)"

section \<open>The file server\<close>

fun ref_walk_names :: "ref_state \<Rightarrow> node_id \<Rightarrow> string list \<Rightarrow> node_id res option" where
  "ref_walk_names s node [] = Some (Ok node)"
| "ref_walk_names s node (name # names) =
     (case ref_dir_entry s node name of
        None \<Rightarrow> None
      | Some (Inl e) \<Rightarrow> Some (Err e)
      | Some (Inr next_node) \<Rightarrow> ref_walk_names s next_node names)"

definition ref_walk :: "fid \<Rightarrow> fid \<Rightarrow> string list \<Rightarrow> ref_state \<Rightarrow> (qid res \<times> ref_state) option" where
  "ref_walk fid newfid names s =
     (if newfid = ROOT \<or> rs_fids s newfid \<noteq> None then Some (Err BadRequest, s)
      else
        (case rs_fids s fid of
           None \<Rightarrow> Some (Err NotFound, s)
         | Some f \<Rightarrow>
             (case ref_walk_names s (rf_node f) names of
                None \<Rightarrow> None
              | Some (Inl e) \<Rightarrow> Some (Err e, s)
              | Some (Inr node) \<Rightarrow>
                  map_option (\<lambda>q. (Ok q, s\<lparr>rs_fids := (rs_fids s)(newfid \<mapsto> ref_fid_at node)\<rparr>)) (ref_qid s node))))"

text \<open>Clone-via-open: a fresh connection directory under the root.\<close>

definition ref_allocate :: "node_id \<Rightarrow> u64 \<Rightarrow> ref_state \<Rightarrow> (string \<times> ref_state) option" where
  "ref_allocate node n s =
     (let name = ''conn-'' @ show_nat (unat n);
          s1 = s\<lparr>rs_nodes := (rs_nodes s)[node := RefClone (n + 1)]\<rparr>;
          (id_file, s2) = ref_push (RefBytes name) s1;
          (conn_dir, s3) = ref_push (RefDir (bt_insert ''id'' id_file [])) s2
      in map_option (\<lambda>s4. (name, s4\<lparr>rs_versions := vt_bump 0 (rs_versions s4)\<rparr>)) (ref_insert_root name conn_dir s3))"

definition ref_clone_name :: "node_id \<Rightarrow> ref_node \<Rightarrow> ref_state \<Rightarrow> (string option \<times> ref_state) option" where
  "ref_clone_name node n s =
     (case n of
        RefClone k \<Rightarrow> map_option (\<lambda>(name, s'). (Some name, s')) (ref_allocate node k s)
      | _ \<Rightarrow> Some (None, s))"

definition ref_open :: "fid \<Rightarrow> open_mode \<Rightarrow> ref_state \<Rightarrow> (qid res \<times> ref_state) option" where
  "ref_open fid mode s =
     (case rs_fids s fid of
        None \<Rightarrow> Some (Err NotFound, s)
      | Some f \<Rightarrow>
          if rf_mode f \<noteq> None then Some (Err BadRequest, s)
          else
            (case ref_index s (rf_node f) of
               None \<Rightarrow> None
             | Some n \<Rightarrow>
                 if \<not> ref_serviceable n mode then Some (Err NoAccess, s)
                 else
                   (case ref_clone_name (rf_node f) n s of
                      None \<Rightarrow> None
                    | Some (clone_name, s1) \<Rightarrow>
                        map_option (\<lambda>q. (Ok q, s1\<lparr>rs_fids := (rs_fids s1)(fid \<mapsto>
                           f\<lparr>rf_mode := Some mode, rf_clone_name := clone_name\<rparr>)\<rparr>)) (ref_qid s1 (rf_node f)))))"

definition ref_bytes :: "ref_fid \<Rightarrow> ref_state \<Rightarrow> bytes res option" where
  "ref_bytes f s =
     (case rf_clone_name f of
        Some name \<Rightarrow> Some (Ok name)
      | None \<Rightarrow>
          map_option (\<lambda>n. case n of
              RefBytes b \<Rightarrow> Ok b
            | RefDir es \<Rightarrow> Ok (join_with [newline] (bt_keys es))
            | _ \<Rightarrow> Err Unsupported) (ref_index s (rf_node f)))"

definition ref_read :: "fid \<Rightarrow> offset \<Rightarrow> u32 \<Rightarrow> ref_state \<Rightarrow> (bytes res \<times> ref_state) option" where
  "ref_read fid offset count s =
     (case rs_fids s fid of
        None \<Rightarrow> Some (Err NotFound, s)
      | Some f \<Rightarrow>
          if \<not> opened_for_read (rf_mode f) then Some (Err NoAccess, s)
          else map_option (\<lambda>r. (map_sum id (\<lambda>bs. slice bs offset count) r, s)) (ref_bytes f s))"

definition ref_write :: "fid \<Rightarrow> offset \<Rightarrow> bytes \<Rightarrow> ref_state \<Rightarrow> (u32 res \<times> ref_state) option" where
  "ref_write fid offset data s =
     (case rs_fids s fid of
        None \<Rightarrow> Some (Err NotFound, s)
      | Some f \<Rightarrow>
          map_option (\<lambda>n.
            if n \<noteq> RefDoc then (Err Unsupported, s)
            else if \<not> opened_for_write (rf_mode f) then (Err NoAccess, s)
            else
              (case doc_write ref_max_doc_bytes offset data (rf_write_buf f) of
                 Inl e \<Rightarrow> (Err e, s)
               | Inr buf \<Rightarrow>
                   (Ok (of_nat (length data)), s\<lparr>rs_fids := (rs_fids s)(fid \<mapsto> f\<lparr>rf_write_buf := buf\<rparr>)\<rparr>)))
            (ref_index s (rf_node f)))"

definition ref_stat :: "fid \<Rightarrow> ref_state \<Rightarrow> (stat res \<times> ref_state) option" where
  "ref_stat fid s =
     (case rs_fids s fid of
        None \<Rightarrow> Some (Err NotFound, s)
      | Some f \<Rightarrow>
          (case (ref_qid s (rf_node f), ref_index s (rf_node f)) of
             (Some q, Some n) \<Rightarrow>
               Some (Ok \<lparr>stat_name = [], stat_qid = q,
                 stat_length = (case n of RefBytes b \<Rightarrow> of_nat (length b) | _ \<Rightarrow> 0),
                 stat_executable = False, stat_writable = opened_for_write (rf_mode f)\<rparr>, s)
           | _ \<Rightarrow> None))"

definition ref_create ::
  "fid \<Rightarrow> fid \<Rightarrow> string \<Rightarrow> file_kind \<Rightarrow> ref_state \<Rightarrow> (qid res \<times> ref_state) option" where
  "ref_create fid newfid name kind s = Some (Err Unsupported, s)"

definition ref_remove :: "fid \<Rightarrow> ref_state \<Rightarrow> (unit res \<times> ref_state) option" where
  "ref_remove fid s = Some (Err Unsupported, s)"

definition ref_clunk :: "(bytes \<Rightarrow> bool) \<Rightarrow> fid \<Rightarrow> ref_state \<Rightarrow> (unit res \<times> ref_state) option" where
  "ref_clunk json_ok fid s =
     (if fid = ROOT then
        Some (Ok (), s\<lparr>rs_fids := (rs_fids s)(ROOT := map_option (\<lambda>root. root\<lparr>rf_mode := None,
          rf_clone_name := None, rf_write_buf := []\<rparr>) (rs_fids s ROOT))\<rparr>)
      else
        (case rs_fids s fid of
           None \<Rightarrow> Some (Err NotFound, s)
         | Some f \<Rightarrow>
             (let s1 = s\<lparr>rs_fids := (rs_fids s)(fid := None)\<rparr> in
              map_option (\<lambda>n.
                if n = RefDoc \<and> opened_for_write (rf_mode f) \<and> \<not> json_ok (rf_write_buf f)
                then (Err BadRequest, s1) else (Ok (), s1))
                (ref_index s (rf_node f)))))"

text \<open>A panicking call never answers: for the transport it stays parked, with the fid of a clunk
  already gone.\<close>

definition unwound :: "ref_state \<Rightarrow> ('a res \<times> ref_state) option \<Rightarrow> 'a poll \<times> ref_state" where
  "unwound s r = (case r of None \<Rightarrow> (None, s) | Some p \<Rightarrow> ready p)"

definition ref_server :: "(bytes \<Rightarrow> bool) \<Rightarrow> ref_state file_server" where
  "ref_server json_ok =
     \<lparr>fs_walk = (\<lambda>f n ns s. unwound s (ref_walk f n ns s)), fs_open = (\<lambda>f m s. unwound s (ref_open f m s)),
      fs_read = (\<lambda>f off c s. unwound s (ref_read f off c s)), fs_write = (\<lambda>f off d s. unwound s (ref_write f off d s)),
      fs_stat = (\<lambda>f s. unwound s (ref_stat f s)), fs_create = (\<lambda>f n nm k s. unwound s (ref_create f n nm k s)),
      fs_remove = (\<lambda>f s. unwound s (ref_remove f s)), fs_clunk = (\<lambda>f s. unwound (s\<lparr>rs_fids := (rs_fids s)(f := None)\<rparr>) (ref_clunk json_ok f s))\<rparr>"

lemmas ref_op_defs = ref_walk_def ref_open_def ref_read_def ref_write_def ref_stat_def ref_create_def
  ref_remove_def ref_clunk_def

section \<open>Fids\<close>

lemma ref_insert_root_fids: "ref_insert_root name node s = Some s' \<Longrightarrow> rs_fids s' = rs_fids s"
  by (cases "ref_index s 0"; cases "the (ref_index s 0)") (auto simp: ref_insert_root_def)

lemma ref_clone_name_fids: "ref_clone_name node n s = Some (c, s') \<Longrightarrow> rs_fids s' = rs_fids s"
  by (auto simp: ref_clone_name_def ref_allocate_def ref_push_def Let_def dest!: ref_insert_root_fids split: ref_node.splits)

definition ref_live :: "ref_state \<Rightarrow> fid set" where
  "ref_live s = dom (rs_fids s) - {ROOT}"

interpretation ref: fid_server "ref_server json_ok" ref_live
proof
  fix f m s
  show "ref_live (snd (fs_open (ref_server json_ok) f m s)) = ref_live s"
    by (auto simp: ref_server_def ref_live_def ref_open_def unwound_def dest!: ref_clone_name_fids
        split: option.splits if_splits)
qed (auto simp: ref_server_def ref_live_def ref_op_defs unwound_def Let_def split: option.splits sum.splits if_splits)

section \<open>Every index is in range\<close>

fun node_ok :: "nat \<Rightarrow> ref_node \<Rightarrow> bool" where
  "node_ok len (RefDir es) = (\<forall>name i. bt_get es name = Some i \<longrightarrow> i < len)"
| "node_ok len _ = True"

definition ref_inv :: "ref_state \<Rightarrow> bool" where
  "ref_inv s \<longleftrightarrow> rs_nodes s \<noteq> [] \<and> (\<forall>n \<in> set (rs_nodes s). node_ok (length (rs_nodes s)) n) \<and>
     (\<forall>fid f. rs_fids s fid = Some f \<longrightarrow> rf_node f < length (rs_nodes s))"

lemma node_ok_mono: "node_ok len n \<Longrightarrow> len \<le> len' \<Longrightarrow> node_ok len' n"
  by (cases n) fastforce+

lemma ref_index_fid: "ref_inv s \<Longrightarrow> rs_fids s fid = Some f \<Longrightarrow> ref_index s (rf_node f) = Some (rs_nodes s ! rf_node f)"
  by (auto simp: ref_inv_def ref_index_def)

lemma ref_dir_entry_ok:
  assumes "ref_inv s" "dir < length (rs_nodes s)"
  shows "\<exists>r. ref_dir_entry s dir name = Some r \<and> (\<forall>i. r = Inr i \<longrightarrow> i < length (rs_nodes s))"
proof -
  have "node_ok (length (rs_nodes s)) (rs_nodes s ! dir)" using assms by (auto simp: ref_inv_def)
  then show ?thesis using assms(2)
    by (cases "rs_nodes s ! dir") (auto simp: ref_dir_entry_def ref_index_def ok_or_def split: option.splits)
qed

lemma ref_walk_names_ok:
  "ref_inv s \<Longrightarrow> node < length (rs_nodes s) \<Longrightarrow>
     \<exists>r. ref_walk_names s node names = Some r \<and> (\<forall>i. r = Inr i \<longrightarrow> i < length (rs_nodes s))"
proof (induction names arbitrary: node)
  case (Cons name names)
  then obtain r where r: "ref_dir_entry s node name = Some r" "\<And>i. r = Inr i \<Longrightarrow> i < length (rs_nodes s)"
    using ref_dir_entry_ok by metis
  then show ?case using Cons by (cases r) auto
qed simp

lemma ref_walk_safe:
  assumes "ref_inv s"
  shows "\<exists>r s'. ref_walk fid newfid names s = Some (r, s') \<and> ref_inv s'"
proof (cases "newfid = ROOT \<or> rs_fids s newfid \<noteq> None \<or> rs_fids s fid = None")
  case False
  then obtain f where f: "rs_fids s fid = Some f" by blast
  then have "rf_node f < length (rs_nodes s)" using assms by (auto simp: ref_inv_def)
  then obtain r where r: "ref_walk_names s (rf_node f) names = Some r" "\<And>i. r = Inr i \<Longrightarrow> i < length (rs_nodes s)"
    using ref_walk_names_ok [OF assms] by metis
  then show ?thesis using assms f False
    by (cases r) (auto simp: ref_walk_def ref_qid_def ref_index_def ref_inv_def ref_fid_at_def)
qed (use assms in \<open>auto simp: ref_walk_def\<close>)

lemma ball_set_update: "\<forall>m \<in> set xs. P m \<Longrightarrow> P x \<Longrightarrow> \<forall>m \<in> set (xs[i := x]). P m"
  by (auto dest!: set_update_subset_insert [THEN subsetD])

lemma ref_allocate_safe:
  assumes inv: "ref_inv s" and clone: "rs_nodes s ! node = RefClone n" and node: "node < length (rs_nodes s)"
  shows "\<exists>name s'. ref_allocate node n s = Some (name, s') \<and> ref_inv s' \<and> node < length (rs_nodes s') \<and> rs_fids s' = rs_fids s"
proof -
  let ?len = "length (rs_nodes s)"
  let ?nodes = "(rs_nodes s)[node := RefClone (n + 1)] @ [RefBytes (''conn-'' @ show_nat (unat n)), RefDir (bt_insert ''id'' ?len [])]"
  have nodes_ok: "node_ok (?len + 2) m" if "m \<in> set ?nodes" for m
  proof -
    have "\<forall>m \<in> set (rs_nodes s). node_ok (?len + 2) m" using inv node_ok_mono [of ?len] by (auto simp: ref_inv_def)
    then show ?thesis using that by (auto dest!: set_update_subset_insert [THEN subsetD])
  qed
  have nonempty: "?nodes \<noteq> []" "0 < length ?nodes" by simp_all
  have root_ok: "node_ok (?len + 2) (?nodes ! 0)" by (rule nodes_ok) (rule nth_mem, simp)
  have fids: "rf_node f < ?len + 2" if "rs_fids s fid = Some f" for fid f
    using inv that by (fastforce simp: ref_inv_def)
  show ?thesis
  proof (cases "?nodes ! 0")
    case (RefDir es)
    let ?es = "bt_insert (''conn-'' @ show_nat (unat n)) (Suc ?len) es"
    have "node_ok (?len + 2) (RefDir ?es)" using root_ok RefDir by auto
    then have "\<forall>m \<in> set (?nodes[0 := RefDir ?es]). node_ok (?len + 2) m"
      using nodes_ok by (intro ball_set_update) blast+
    then show ?thesis using RefDir node fids
      by (simp add: ref_allocate_def ref_push_def ref_insert_root_def ref_index_def ref_inv_def Let_def)
  qed (use node fids nodes_ok in \<open>simp_all add: ref_allocate_def ref_push_def ref_insert_root_def ref_index_def ref_inv_def Let_def\<close>)
qed

lemma ref_open_safe:
  assumes "ref_inv s"
  shows "\<exists>r s'. ref_open fid mode s = Some (r, s') \<and> ref_inv s'"
proof (cases "rs_fids s fid")
  case (Some f)
  let ?n = "rs_nodes s ! rf_node f"
  have len: "rf_node f < length (rs_nodes s)" using assms Some by (auto simp: ref_inv_def)
  have "\<exists>c s1. ref_clone_name (rf_node f) ?n s = Some (c, s1) \<and> ref_inv s1 \<and> rf_node f < length (rs_nodes s1) \<and> rs_fids s1 = rs_fids s"
    using ref_allocate_safe [OF assms _ len] assms len by (cases ?n) (fastforce simp: ref_clone_name_def)+
  then obtain c s1 where "ref_clone_name (rf_node f) ?n s = Some (c, s1)" "ref_inv s1" "rf_node f < length (rs_nodes s1)"
    by blast
  then show ?thesis using assms Some ref_index_fid [OF assms Some]
    by (auto simp: ref_open_def ref_qid_def ref_index_def ref_inv_def)
qed (use assms in \<open>simp add: ref_open_def\<close>)

lemma ref_rest_safe:
  assumes "ref_inv s"
  shows "\<exists>r. ref_read fid off c s = Some (r, s)" "\<exists>r s'. ref_write fid off d s = Some (r, s') \<and> ref_inv s'"
    "\<exists>r. ref_stat fid s = Some (r, s)" "\<exists>r s'. ref_clunk json_ok fid s = Some (r, s') \<and> ref_inv s'"
  using assms ref_index_fid [OF assms]
  by (auto simp: ref_op_defs ref_bytes_def ref_qid_def ref_inv_def Let_def split: option.splits sum.splits if_splits)

lemma ref_call_safe:
  assumes "ref_inv s"
  shows "ref_inv (snd (in_process_call (ref_server json_ok) req s)) \<and> fst (in_process_call (ref_server json_ok) req s) \<noteq> None"
proof (cases req)
  case (ReqWalk f n ns)
  then show ?thesis using ref_walk_safe [OF assms, of f n ns] by (auto simp: ref_server_def map_ok_def unwound_def)
next
  case (ReqOpen f m)
  then show ?thesis using ref_open_safe [OF assms, of f m] by (auto simp: ref_server_def map_ok_def unwound_def)
next
  case (ReqRead f off c)
  then show ?thesis using assms ref_rest_safe(1) [OF assms, of f off c] by (auto simp: ref_server_def map_ok_def unwound_def)
next
  case (ReqWrite f off d)
  then show ?thesis using ref_rest_safe(2) [OF assms, of f off d] by (auto simp: ref_server_def map_ok_def unwound_def)
next
  case (ReqStat f)
  then show ?thesis using assms ref_rest_safe(3) [OF assms, of f] by (auto simp: ref_server_def map_ok_def unwound_def)
next
  case (ReqClunk f)
  then show ?thesis using ref_rest_safe(4) [OF assms, of json_ok f] by (auto simp: ref_server_def map_ok_def unwound_def)
qed (use assms in \<open>auto simp: ref_server_def map_ok_def unwound_def ref_create_def ref_remove_def\<close>)

lemma ref_inv_new: "ref_inv ref_new"
  by (auto simp: ref_inv_def ref_new_def ref_bind_root_fid_def ref_empty_root_def ref_fid_at_def split: if_splits)

lemma ref_run_safe:
  "ref_inv s \<Longrightarrow> ref_inv (snd (in_process_run (ref_server json_ok) reqs s)) \<and>
     None \<notin> set (fst (in_process_run (ref_server json_ok) reqs s))"
proof (induction reqs arbitrary: s)
  case (Cons req reqs)
  obtain r s1 where call: "in_process_call (ref_server json_ok) req s = (r, s1)" by (metis prod.exhaust)
  then have "ref_inv s1" "r \<noteq> None" using ref_call_safe [OF Cons.prems, of json_ok req] by auto
  then show ?case using Cons.IH [OF \<open>ref_inv s1\<close>]
    by (auto simp: in_process_run.simps(2) call case_prod_beta Let_def)
qed simp

text \<open>
  (C25) The reference server never indexes out of range: started as the code builds it, it answers
  every request of every session, and every node a fid or a directory names exists.
\<close>

theorem reference_never_panics:
  "None \<notin> set (fst (in_process_run (ref_server json_ok) reqs ref_new)) \<and>
   ref_inv (snd (in_process_run (ref_server json_ok) reqs ref_new))"
  using ref_run_safe [OF ref_inv_new] by blast

end
