(* ===== verification/Proc_Fs.thy ===== *)
theory Proc_Fs
  imports Process_Table Mount_Fs
begin

text \<open>
  The \<open>/proc\<close> device (\<open>crates/kernel/src/procfs.rs\<close> and \<open>procfs/file_server.rs\<close>): the process table
  as files, process creation by clone-via-open with commit-on-clunk, process IO streams and their
  event log. A view carries the spawn context of one process; all views share one state. A mounted
  tree is an external server or another view of \<open>/proc\<close>, so namespaces and views nest. Live
  namespaces are shared handles, kept in a heap. The JSON reader of exec specs and the JSON writer
  of descriptor tables (\<open>serde_json\<close>) are parameters; the runner of a process is user space, and
  appears as the step that reports its outcome.
\<close>

unbundle bit_operations_syntax

section \<open>Nodes and fids\<close>

datatype proc_node =
    PRoot | PClone | PSelfProc pid | PSelfNamespace | PProc pid | PStatus pid | PParent pid
  | PCredentials pid | PExit pid | PCtl pid | PIoDir pid | PInput pid | POutput pid | PIoEvents pid
  | PNamespaceInfo pid | PDescriptors pid

record proc_fid =
  pf_node :: proc_node
  pf_mode :: "open_mode option"
  pf_clone_pid :: "pid option"
  pf_write_buf :: bytes
  pf_wrote :: bool
  pf_write_failed :: bool

definition proc_fid_at :: "proc_node \<Rightarrow> proc_fid" where
  "proc_fid_at node = \<lparr>pf_node = node, pf_mode = None, pf_clone_pid = None, pf_write_buf = [],
     pf_wrote = False, pf_write_failed = False\<rparr>"

definition buffer_write :: "offset \<Rightarrow> bytes \<Rightarrow> nat \<Rightarrow> proc_fid \<Rightarrow> u32 res \<times> proc_fid" where
  "buffer_write offset data limit f =
     (case doc_write limit offset data (pf_write_buf f) of
        Inl e \<Rightarrow> (Err e, f\<lparr>pf_write_failed := True\<rparr>)
      | Inr buf \<Rightarrow> (Ok (of_nat (length data)), f\<lparr>pf_write_buf := buf, pf_wrote := True\<rparr>))"

section \<open>Views\<close>

type_synonym live_id = nat

datatype 't namespace_source = Snapshot "'t namespace" | Live live_id

datatype 't spawn_context =
  SpawnContext (sc_parent: "pid option") (sc_namespace: "'t namespace_source") (sc_credentials: credentials)

datatype 't proc_fs =
  ProcFs (pv_view_id: u64) (pv_root_node: proc_node) (pv_spawn: "'t spawn_context") (pv_runner: bool)

datatype 'x ktree = Server 'x | ProcTree "'x ktree proc_fs"

section \<open>State\<close>

datatype process_event = EvInput u32 | EvOutput u32 | EvStatus string

datatype io_event_kind = IoInput | IoOutput

type_synonym sink = nat

datatype delivery =
    InputAppended sink string u32
  | OutputAppended sink string u32
  | IoAppended sink string io_event_kind u32
  | EventDelivered sink string process_event

record 'x invocation =
  inv_pid :: pid
  inv_parent :: "pid option"
  inv_credentials :: credentials
  inv_namespace :: "'x ktree namespace"
  inv_exec :: exec_spec

text \<open>The shared state, with the process-wide counter of view ids, the heap of live namespaces, the
  invocations of running tasks and the log of calls made to observers.\<close>

record 'x proc_state =
  ps_table :: "'x ktree process_table"
  ps_fids :: "u64 \<times> fid \<rightharpoonup> proc_fid"
  ps_live_namespaces :: "pid \<rightharpoonup> live_id"
  ps_inputs :: "pid \<rightharpoonup> stream"
  ps_outputs :: "pid \<rightharpoonup> stream"
  ps_io_events :: "pid \<rightharpoonup> stream"
  ps_event_history :: "pid \<rightharpoonup> process_event list"
  ps_event_observers :: "pid \<Rightarrow> sink list"
  ps_io_observers :: "pid \<Rightarrow> sink list"
  ps_input_observers :: "pid \<Rightarrow> sink list"
  ps_output_observers :: "pid \<Rightarrow> sink list"
  ps_runner_tasks :: "pid \<rightharpoonup> 'x invocation"
  ps_next_view_id :: u64
  ps_heap :: "live_id \<Rightarrow> 'x ktree live_namespace"
  ps_deliveries :: "delivery list"

definition proc_state_new :: "(live_id \<Rightarrow> 'x ktree live_namespace) \<Rightarrow> u64 \<Rightarrow> 'x proc_state" where
  "proc_state_new heap next_view =
     \<lparr>ps_table = process_table_new, ps_fids = Map.empty, ps_live_namespaces = Map.empty, ps_inputs = Map.empty,
      ps_outputs = Map.empty, ps_io_events = Map.empty, ps_event_history = Map.empty,
      ps_event_observers = (\<lambda>_. []), ps_io_observers = (\<lambda>_. []), ps_input_observers = (\<lambda>_. []),
      ps_output_observers = (\<lambda>_. []), ps_runner_tasks = Map.empty, ps_next_view_id = next_view,
      ps_heap = heap, ps_deliveries = []\<rparr>"

definition next_view_id :: "'x proc_state \<Rightarrow> u64 \<times> 'x proc_state" where
  "next_view_id s = (ps_next_view_id s, s\<lparr>ps_next_view_id := ps_next_view_id s + 1\<rparr>)"

definition procfs_new ::
  "(live_id \<Rightarrow> 'x ktree live_namespace) \<Rightarrow> u64 \<Rightarrow> 'x ktree proc_fs \<times> 'x proc_state" where
  "procfs_new heap next_view =
     (let (id, s) = next_view_id (proc_state_new heap next_view) in
      (ProcFs id PRoot (SpawnContext None (Snapshot namespace_new) credentials_system) False, s))"

definition with_runner :: "'t proc_fs \<Rightarrow> 't proc_fs" where
  "with_runner v = ProcFs (pv_view_id v) (pv_root_node v) (pv_spawn v) True"

definition for_spawner ::
  "'x ktree proc_fs \<Rightarrow> pid option \<Rightarrow> 'x ktree namespace \<Rightarrow> credentials \<Rightarrow> u64 \<Rightarrow> 'x ktree proc_fs \<times> u64" where
  "for_spawner v parent ns credentials next_view =
     (ProcFs next_view PRoot (SpawnContext parent (Snapshot ns) credentials) (pv_runner v), next_view + 1)"

definition for_live_spawner ::
  "'x ktree proc_fs \<Rightarrow> pid option \<Rightarrow> live_id \<Rightarrow> credentials \<Rightarrow> u64 \<Rightarrow> 'x ktree proc_fs \<times> u64" where
  "for_live_spawner v parent live credentials next_view =
     (ProcFs next_view PRoot (SpawnContext parent (Live live) credentials) (pv_runner v), next_view + 1)"

definition clone_file_for_spawner ::
  "'x ktree proc_fs \<Rightarrow> pid option \<Rightarrow> 'x ktree namespace \<Rightarrow> credentials \<Rightarrow> u64 \<Rightarrow> 'x ktree proc_fs \<times> u64" where
  "clone_file_for_spawner v parent ns credentials next_view =
     (let (view, next) = for_spawner v parent ns credentials next_view in
      (ProcFs (pv_view_id view) PClone (pv_spawn view) (pv_runner view), next))"

section \<open>Namespaces of children\<close>

definition source_snapshot_with_generation ::
  "(live_id \<Rightarrow> 't live_namespace) \<Rightarrow> 't namespace_source \<Rightarrow> 't namespace \<times> u32" where
  "source_snapshot_with_generation heap src =
     (case src of Snapshot ns \<Rightarrow> (ns, 0) | Live l \<Rightarrow> snapshot_with_generation (heap l))"

definition source_snapshot :: "(live_id \<Rightarrow> 't live_namespace) \<Rightarrow> 't namespace_source \<Rightarrow> 't namespace" where
  "source_snapshot heap src = fst (source_snapshot_with_generation heap src)"

definition source_generation :: "(live_id \<Rightarrow> 't live_namespace) \<Rightarrow> 't namespace_source \<Rightarrow> u32" where
  "source_generation heap src = (case src of Snapshot _ \<Rightarrow> 0 | Live l \<Rightarrow> ln_generation (heap l))"

definition source_child ::
  "(live_id \<Rightarrow> 't live_namespace) \<Rightarrow> 't namespace_source \<Rightarrow> string \<Rightarrow> string \<Rightarrow> 't namespace \<times> u32" where
  "source_child heap src placeholder pid =
     (let (ns, generation) = source_snapshot_with_generation heap src in
      (child_with_path_substitution placeholder pid ns, generation))"

definition CHILD_PID_PLACEHOLDER :: string where
  "CHILD_PID_PLACEHOLDER = ''<child-pid>''"

definition mount_access_at :: "'t namespace \<Rightarrow> string \<Rightarrow> access option" where
  "mount_access_at ns path = (case rev (union_at ns path) of [] \<Rightarrow> None | r # _ \<Rightarrow> Some (res_access r))"

definition rebind_proc_spawners ::
  "'x ktree proc_fs \<Rightarrow> 'x ktree namespace \<Rightarrow> pid \<Rightarrow> u64 \<Rightarrow> 'x ktree namespace \<times> u64" where
  "rebind_proc_spawners v ns pid next_view =
     (let credentials = sc_credentials (pv_spawn v);
          (ns1, next1) =
            (case mount_access_at ns ''/proc'' of
               None \<Rightarrow> (ns, next_view)
             | Some access \<Rightarrow>
                 (let (child_proc, next) = for_spawner v (Some pid) ns credentials next_view in
                  (namespace_mount ''/proc'' (ProcTree child_proc) access (namespace_unmount ''/proc'' ns), next)))
      in case mount_access_at ns1 ''/proc/clone'' of
           None \<Rightarrow> (ns1, next1)
         | Some access \<Rightarrow>
             (let (child_clone, next) = clone_file_for_spawner v (Some pid) ns1 credentials next1 in
              (namespace_mount ''/proc/clone'' (ProcTree child_clone) access (namespace_unmount ''/proc/clone'' ns1), next)))"

definition child_namespace_for_spawn ::
  "(live_id \<Rightarrow> 'x ktree live_namespace) \<Rightarrow> 'x ktree proc_fs \<Rightarrow> pid \<Rightarrow> u64 \<Rightarrow> ('x ktree namespace \<times> u32) \<times> u64" where
  "child_namespace_for_spawn heap v pid next_view =
     (let (ns, generation) = source_child heap (sc_namespace (pv_spawn v)) CHILD_PID_PLACEHOLDER (show_nat (unat pid));
          (ns', next) = rebind_proc_spawners v ns pid next_view
      in ((ns', generation), next))"

section \<open>Events\<close>

definition deliver :: "delivery list \<Rightarrow> 'x proc_state \<Rightarrow> 'x proc_state" where
  "deliver ds s = s\<lparr>ps_deliveries := ps_deliveries s @ ds\<rparr>"

definition history_of :: "'x proc_state \<Rightarrow> pid \<Rightarrow> process_event list" where
  "history_of s pid = (case ps_event_history s pid of None \<Rightarrow> [] | Some es \<Rightarrow> es)"

definition event_deliveries :: "'x proc_state \<Rightarrow> pid \<Rightarrow> process_event \<Rightarrow> delivery list" where
  "event_deliveries s pid event =
     (let name = show_nat (unat pid) in
      (case event of
         EvInput count \<Rightarrow> map (\<lambda>o'. InputAppended o' name count) (ps_input_observers s pid) @
           map (\<lambda>o'. IoAppended o' name IoInput count) (ps_io_observers s pid)
       | EvOutput count \<Rightarrow> map (\<lambda>o'. OutputAppended o' name count) (ps_output_observers s pid) @
           map (\<lambda>o'. IoAppended o' name IoOutput count) (ps_io_observers s pid)
       | EvStatus _ \<Rightarrow> []) @
      map (\<lambda>o'. EventDelivered o' name event) (ps_event_observers s pid))"

definition publish_process_event :: "pid \<Rightarrow> process_event \<Rightarrow> 'x proc_state \<Rightarrow> 'x proc_state" where
  "publish_process_event pid event s =
     deliver (event_deliveries s pid event)
       (s\<lparr>ps_event_history := (ps_event_history s)(pid \<mapsto> history_of s pid @ [event])\<rparr>)"

definition append_io_event :: "string \<Rightarrow> u32 \<Rightarrow> stream \<Rightarrow> stream" where
  "append_io_event kind count events = stream_append (kind @ '':'' @ show_nat (unat count) @ [newline]) events"

definition parse_pid :: "string \<Rightarrow> pid option" where
  "parse_pid name = map_option of_nat (parse_u64 name)"

fun subscriber_replay_output :: "process_event \<Rightarrow> u32 list" where
  "subscriber_replay_output (EvOutput count) = [count]"
| "subscriber_replay_output _ = []"

fun subscriber_replay_input :: "process_event \<Rightarrow> u32 list" where
  "subscriber_replay_input (EvInput count) = [count]"
| "subscriber_replay_input _ = []"

fun subscriber_replay_io :: "process_event \<Rightarrow> (io_event_kind \<times> u32) list" where
  "subscriber_replay_io (EvInput count) = [(IoInput, count)]"
| "subscriber_replay_io (EvOutput count) = [(IoOutput, count)]"
| "subscriber_replay_io (EvStatus _) = []"

definition with_process ::
  "string \<Rightarrow> 'x proc_state \<Rightarrow> (pid \<Rightarrow> 'x proc_state) \<Rightarrow> unit res \<times> 'x proc_state" where
  "with_process name s f =
     (case parse_pid name of
        None \<Rightarrow> (Err BadRequest, s)
      | Some pid \<Rightarrow> if pt_get (ps_table s) pid = None then (Err NotFound, s) else (Ok (), f pid))"

definition subscribe_process_output :: "string \<Rightarrow> sink \<Rightarrow> 'x proc_state \<Rightarrow> unit res \<times> 'x proc_state" where
  "subscribe_process_output name sink s = with_process name s (\<lambda>pid.
     deliver (map (OutputAppended sink (show_nat (unat pid))) (concat (map subscriber_replay_output (history_of s pid))))
       (s\<lparr>ps_output_observers := (ps_output_observers s)(pid := ps_output_observers s pid @ [sink])\<rparr>))"

definition subscribe_process_input :: "string \<Rightarrow> sink \<Rightarrow> 'x proc_state \<Rightarrow> unit res \<times> 'x proc_state" where
  "subscribe_process_input name sink s = with_process name s (\<lambda>pid.
     deliver (map (InputAppended sink (show_nat (unat pid))) (concat (map subscriber_replay_input (history_of s pid))))
       (s\<lparr>ps_input_observers := (ps_input_observers s)(pid := ps_input_observers s pid @ [sink])\<rparr>))"

definition subscribe_process_io :: "string \<Rightarrow> sink \<Rightarrow> 'x proc_state \<Rightarrow> unit res \<times> 'x proc_state" where
  "subscribe_process_io name sink s = with_process name s (\<lambda>pid.
     deliver (map (\<lambda>(kind, count). IoAppended sink (show_nat (unat pid)) kind count)
         (concat (map subscriber_replay_io (history_of s pid))))
       (s\<lparr>ps_io_observers := (ps_io_observers s)(pid := ps_io_observers s pid @ [sink])\<rparr>))"

definition subscribe_process_events :: "string \<Rightarrow> sink \<Rightarrow> 'x proc_state \<Rightarrow> unit res \<times> 'x proc_state" where
  "subscribe_process_events name sink s = with_process name s (\<lambda>pid.
     deliver (map (EventDelivered sink (show_nat (unat pid))) (history_of s pid))
       (s\<lparr>ps_event_observers := (ps_event_observers s)(pid := ps_event_observers s pid @ [sink])\<rparr>))"

section \<open>The host side\<close>

definition bind_live_namespace :: "pid \<Rightarrow> live_id \<Rightarrow> 'x proc_state \<Rightarrow> 'x proc_state" where
  "bind_live_namespace pid live s =
     (if pt_get (ps_table s) pid \<noteq> None then
        s\<lparr>ps_heap := (ps_heap s)(live := mark_authority_bound (ps_heap s live)),
          ps_live_namespaces := (ps_live_namespaces s)(pid \<mapsto> live),
          ps_table := bump_generation pid (ps_table s)\<rparr>
      else s)"

definition record_exit :: "pid \<Rightarrow> int \<Rightarrow> 'x proc_state \<Rightarrow> 'x proc_state" where
  "record_exit pid exit_code s =
     (let transitioned = (case pt_get (ps_table s) pid of Some p \<Rightarrow> proc_status p \<noteq> Exited | None \<Rightarrow> False);
          s1 = s\<lparr>ps_runner_tasks := (ps_runner_tasks s)(pid := None), ps_table := pt_exit pid exit_code (ps_table s)\<rparr>
      in if transitioned then publish_process_event pid (EvStatus ''exited'') s1 else s1)"

record process_file_snapshot =
  pfs_status :: status
  pfs_exit_code :: "int option"
  pfs_output :: bytes
  pfs_output_offset :: u64
  pfs_io_events_offset :: u64

text \<open>The reading loop of \<open>observe_process_files\<close>; \<open>None\<close> is a loop that never returns.\<close>

partial_function (option) observe_read :: "stream \<Rightarrow> u64 \<Rightarrow> u64 \<Rightarrow> bytes \<Rightarrow> bytes option" where
  "observe_read stream offset end bs =
     (if offset < end then
        (case stream_read stream offset (of_nat (min (unat (end - offset)) (2 ^ 32 - 1))) of
           None \<Rightarrow> None
         | Some chunk \<Rightarrow>
             if chunk = [] then Some bs
             else observe_read stream (offset + of_nat (length chunk)) end (bs @ chunk))
      else Some bs)"

definition observe_process_files :: "pid \<Rightarrow> 'x proc_state \<Rightarrow> process_file_snapshot option option" where
  "observe_process_files pid s =
     (case pt_get (ps_table s) pid of
        None \<Rightarrow> Some None
      | Some p \<Rightarrow>
          (let output_offset = (case ps_outputs s pid of Some st \<Rightarrow> stream_len st | None \<Rightarrow> 0);
               output = (case ps_outputs s pid of Some st \<Rightarrow> observe_read st 0 output_offset [] | None \<Rightarrow> Some [])
           in map_option (\<lambda>bs. Some \<lparr>pfs_status = proc_status p, pfs_exit_code = proc_exit_code p, pfs_output = bs,
                pfs_output_offset = output_offset,
                pfs_io_events_offset = (case ps_io_events s pid of Some st \<Rightarrow> stream_len st | None \<Rightarrow> 0)\<rparr>) output))"

definition try_observe_process_lifecycle ::
  "bool \<Rightarrow> pid \<Rightarrow> 'x proc_state \<Rightarrow> (status \<times> int option) option" where
  "try_observe_process_lifecycle busy pid s =
     (if busy then None else map_option (\<lambda>p. (proc_status p, proc_exit_code p)) (pt_get (ps_table s) pid))"

section \<open>Identities\<close>

definition MAX_EXEC_SPEC_BYTES :: nat where
  "MAX_EXEC_SPEC_BYTES = 2 ^ 16"

definition MAX_PROCESS_INPUT_BYTES :: nat where
  "MAX_PROCESS_INPUT_BYTES = 2 ^ 20"

definition tagged_identity :: "u64 \<Rightarrow> u64 \<Rightarrow> u64" where
  "tagged_identity tag ident = (push_bit 48 tag OR ident)"

fun proc_node_identity :: "proc_node \<Rightarrow> file_kind \<times> u64" where
  "proc_node_identity PRoot = (KDir, 0)"
| "proc_node_identity PClone = (KClone, 1)"
| "proc_node_identity (PSelfProc _) = (KDir, 0)"
| "proc_node_identity PSelfNamespace = (KFile, 0)"
| "proc_node_identity (PProc p) = (KDir, tagged_identity 1 p)"
| "proc_node_identity (PIoDir p) = (KDir, tagged_identity 2 p)"
| "proc_node_identity (POutput p) = (KStream, tagged_identity 3 p)"
| "proc_node_identity (PStatus p) = (KFile, tagged_identity 4 p)"
| "proc_node_identity (PParent p) = (KFile, tagged_identity 5 p)"
| "proc_node_identity (PCredentials p) = (KFile, tagged_identity 6 p)"
| "proc_node_identity (PExit p) = (KFile, tagged_identity 7 p)"
| "proc_node_identity (PCtl p) = (KFile, tagged_identity 8 p)"
| "proc_node_identity (PNamespaceInfo p) = (KFile, tagged_identity 9 p)"
| "proc_node_identity (PInput p) = (KStream, tagged_identity 10 p)"
| "proc_node_identity (PIoEvents p) = (KStream, tagged_identity 11 p)"
| "proc_node_identity (PDescriptors p) = (KFile, tagged_identity 12 p)"

definition fid_key :: "'t proc_fs \<Rightarrow> fid \<Rightarrow> u64 \<times> fid" where
  "fid_key v fid = (pv_view_id v, fid)"

definition proc_node_of :: "'x proc_state \<Rightarrow> u64 \<times> fid \<Rightarrow> proc_node \<Rightarrow> proc_node res" where
  "proc_node_of s key root_node =
     (if snd key = ROOT then Ok root_node else ok_or (map_option pf_node (ps_fids s key)) NotFound)"

fun proc_version :: "'x proc_state \<Rightarrow> 'x ktree namespace_source \<Rightarrow> proc_node \<Rightarrow> u32" where
  "proc_version s src PRoot = listing_generation (ps_table s)"
| "proc_version s src PClone = 0"
| "proc_version s src (POutput _) = 0"
| "proc_version s src (PInput _) = 0"
| "proc_version s src (PIoEvents _) = 0"
| "proc_version s src (PNamespaceInfo p) =
     (case ps_live_namespaces s p of None \<Rightarrow> 0 | Some l \<Rightarrow> ln_generation (ps_heap s l))"
| "proc_version s src PSelfNamespace = source_generation (ps_heap s) src"
| "proc_version s src (PSelfProc p) = process_generation (ps_table s) p"
| "proc_version s src (PProc p) = process_generation (ps_table s) p"
| "proc_version s src (PIoDir p) = process_generation (ps_table s) p"
| "proc_version s src (PStatus p) = process_generation (ps_table s) p"
| "proc_version s src (PParent p) = process_generation (ps_table s) p"
| "proc_version s src (PCredentials p) = process_generation (ps_table s) p"
| "proc_version s src (PExit p) = process_generation (ps_table s) p"
| "proc_version s src (PCtl p) = process_generation (ps_table s) p"
| "proc_version s src (PDescriptors p) = process_generation (ps_table s) p"

definition proc_qid :: "'x proc_state \<Rightarrow> proc_node \<Rightarrow> u64 \<Rightarrow> 'x ktree namespace_source \<Rightarrow> qid" where
  "proc_qid s node view_id src =
     (let (kind, path) = proc_node_identity node in
      \<lparr>qid_kind = kind, qid_version = proc_version s src node,
       qid_path = (case node of
           PSelfProc _ \<Rightarrow> tagged_identity 13 view_id
         | PSelfNamespace \<Rightarrow> tagged_identity 14 view_id
         | _ \<Rightarrow> path)\<rparr>)"

section \<open>Walking and reading\<close>

definition proc_dir_child :: "pid \<Rightarrow> proc_node \<Rightarrow> string \<Rightarrow> proc_node res" where
  "proc_dir_child pid namespace_node name =
     (if name = ''status'' then Ok (PStatus pid)
      else if name = ''parent'' then Ok (PParent pid)
      else if name = ''credentials'' then Ok (PCredentials pid)
      else if name = ''exit'' then Ok (PExit pid)
      else if name = ''ctl'' then Ok (PCtl pid)
      else if name = ''io'' then Ok (PIoDir pid)
      else if name = ''namespace'' then Ok namespace_node
      else if name = ''descriptors'' then Ok (PDescriptors pid)
      else Err NotFound)"

definition known_pid :: "'x proc_state \<Rightarrow> pid option \<Rightarrow> pid option" where
  "known_pid s p = (case p of Some pid \<Rightarrow> if pt_get (ps_table s) pid \<noteq> None then Some pid else None | None \<Rightarrow> None)"

definition proc_child :: "'x proc_state \<Rightarrow> proc_node \<Rightarrow> string \<Rightarrow> pid option \<Rightarrow> proc_node res" where
  "proc_child s node name current_pid =
     (case node of
        PRoot \<Rightarrow>
          if name = ''clone'' then Ok PClone
          else if name = ''self'' then map_sum id PSelfProc (ok_or (known_pid s current_pid) NotFound)
          else map_sum id PProc (ok_or (known_pid s (parse_pid name)) NotFound)
      | PProc pid \<Rightarrow> proc_dir_child pid (PNamespaceInfo pid) name
      | PSelfProc pid \<Rightarrow> proc_dir_child pid PSelfNamespace name
      | PIoDir pid \<Rightarrow>
          if name = ''input'' then Ok (PInput pid)
          else if name = ''output'' then Ok (POutput pid)
          else if name = ''events'' then Ok (PIoEvents pid)
          else Err NotFound
      | _ \<Rightarrow> Err NotDirectory)"

fun proc_walk_names :: "'x proc_state \<Rightarrow> proc_node \<Rightarrow> string list \<Rightarrow> pid option \<Rightarrow> proc_node res" where
  "proc_walk_names s node [] current = Ok node"
| "proc_walk_names s node (name # names) current =
     (case proc_child s node name current of
        Inl e \<Rightarrow> Err e
      | Inr node' \<Rightarrow> proc_walk_names s node' names current)"

definition rights_text :: "access \<Rightarrow> string" where
  "rights_text access = (case access of ReadOnly \<Rightarrow> ''ro'' | ReadWrite \<Rightarrow> ''rw'')"

definition mounts_text :: "(string \<times> access) list \<Rightarrow> bytes" where
  "mounts_text mounts = join_with [newline] (map (\<lambda>(path, access). path @ '' '' @ rights_text access) mounts)"

definition namespace_bytes :: "'t namespace \<Rightarrow> bytes" where
  "namespace_bytes ns = mounts_text (describe ns)"

definition lines_text :: "string list \<Rightarrow> bytes" where
  "lines_text names = join_with [newline] names"

definition process_bytes :: "'x proc_state \<Rightarrow> pid \<Rightarrow> ('x ktree process \<Rightarrow> bytes) \<Rightarrow> bytes res" where
  "process_bytes s pid f = map_sum id f (ok_or (pt_get (ps_table s) pid) NotFound)"

fun file_bytes ::
  "((u32, string) btree \<Rightarrow> bytes option) \<Rightarrow> 'x proc_state \<Rightarrow> proc_node \<Rightarrow> pid option \<Rightarrow>
     'x ktree namespace_source \<Rightarrow> bytes res" where
  "file_bytes json s PRoot current src =
     Ok (lines_text ([''clone''] @ (if known_pid s current \<noteq> None then [''self''] else []) @
       map (\<lambda>p. show_nat (unat p)) (pt_list (ps_table s))))"
| "file_bytes json s (PSelfProc _) current src =
     Ok (lines_text [''status'', ''parent'', ''credentials'', ''exit'', ''ctl'', ''io'', ''namespace'', ''descriptors''])"
| "file_bytes json s (PProc _) current src =
     Ok (lines_text [''status'', ''parent'', ''credentials'', ''exit'', ''ctl'', ''io'', ''namespace'', ''descriptors''])"
| "file_bytes json s (PIoDir _) current src = Ok (lines_text [''input'', ''output'', ''events''])"
| "file_bytes json s (PStatus pid) current src =
     process_bytes s pid (\<lambda>p. (case proc_status p of Running \<Rightarrow> ''running'' | Exited \<Rightarrow> ''exited'') @ [newline])"
| "file_bytes json s (PParent pid) current src =
     process_bytes s pid (\<lambda>p. case proc_parent p of Some pp \<Rightarrow> show_nat (unat pp) | None \<Rightarrow> [])"
| "file_bytes json s (PCredentials pid) current src = process_bytes s pid (\<lambda>p. cred_uname (proc_credentials p))"
| "file_bytes json s (PExit pid) current src =
     process_bytes s pid (\<lambda>p. case proc_exit_code p of Some c \<Rightarrow> show_int c | None \<Rightarrow> [])"
| "file_bytes json s (PNamespaceInfo pid) current src =
     process_bytes s pid (\<lambda>p. mounts_text (case ps_live_namespaces s pid of
         Some l \<Rightarrow> live_describe (ps_heap s l)
       | None \<Rightarrow> describe (proc_namespace p)))"
| "file_bytes json s PSelfNamespace current src = Ok (namespace_bytes (source_snapshot (ps_heap s) src))"
| "file_bytes json s (PDescriptors pid) current src =
     (case pt_get (ps_table s) pid of
        None \<Rightarrow> Err NotFound
      | Some p \<Rightarrow> ok_or (json (exec_descriptors (proc_exec p))) Io)"
| "file_bytes json s _ current src = Err Unsupported"

definition proc_walk ::
  "'x ktree proc_fs \<Rightarrow> fid \<Rightarrow> fid \<Rightarrow> string list \<Rightarrow> 'x proc_state \<Rightarrow> qid res \<times> 'x proc_state" where
  "proc_walk v fid newfid names s =
     (if newfid = ROOT \<or> ps_fids s (fid_key v newfid) \<noteq> None then (Err BadRequest, s)
      else
        (case proc_node_of s (fid_key v fid) (pv_root_node v) of
           Inl e \<Rightarrow> (Err e, s)
         | Inr start \<Rightarrow>
             (case proc_walk_names s start names (sc_parent (pv_spawn v)) of
                Inl e \<Rightarrow> (Err e, s)
              | Inr node \<Rightarrow>
                  (Ok (proc_qid s node (pv_view_id v) (sc_namespace (pv_spawn v))),
                   s\<lparr>ps_fids := (ps_fids s)(fid_key v newfid \<mapsto> proc_fid_at node)\<rparr>))))"

text \<open>Clone-via-open: a pending slot with the spawner's parent, credentials and child namespace.\<close>

definition proc_open_clone ::
  "'x ktree proc_fs \<Rightarrow> fid \<Rightarrow> open_mode \<Rightarrow> 'x proc_state \<Rightarrow> qid res \<times> 'x proc_state" where
  "proc_open_clone v fid mode s =
     (if \<not> write_intent mode then (Err NoAccess, s)
      else
        (let build = (\<lambda>pid. child_namespace_for_spawn (ps_heap s) v pid (ps_next_view_id s));
             next = snd (build (pt_next (ps_table s)))
         in case clone_begin_with_namespace_generation (sc_parent (pv_spawn v)) (sc_credentials (pv_spawn v))
                   (\<lambda>pid. fst (build pid)) (ps_table s) of
              (None, table) \<Rightarrow> (Err Io, s\<lparr>ps_table := table, ps_next_view_id := next\<rparr>)
            | (Some slot, table) \<Rightarrow>
                (let f = (case ps_fids s (fid_key v fid) of Some f \<Rightarrow> f | None \<Rightarrow> proc_fid_at PClone);
                     s1 = s\<lparr>ps_table := table, ps_next_view_id := next,
                       ps_fids := (ps_fids s)(fid_key v fid \<mapsto> f\<lparr>pf_clone_pid := Some slot, pf_mode := Some mode\<rparr>)\<rparr>
                 in (Ok (proc_qid s1 PClone (pv_view_id v) (sc_namespace (pv_spawn v))), s1))))"

definition proc_open ::
  "'x ktree proc_fs \<Rightarrow> fid \<Rightarrow> open_mode \<Rightarrow> 'x proc_state \<Rightarrow> qid res \<times> 'x proc_state" where
  "proc_open v fid mode s =
     (case proc_node_of s (fid_key v fid) (pv_root_node v) of
        Inl e \<Rightarrow> (Err e, s)
      | Inr node \<Rightarrow>
          if fid = ROOT \<and> node \<noteq> PClone
          then (Ok (proc_qid s node (pv_view_id v) (sc_namespace (pv_spawn v))), s)
          else if already_open pf_mode (ps_fids s (fid_key v fid)) then (Err BadRequest, s)
          else if node = PClone then proc_open_clone v fid mode s
          else
            (case ps_fids s (fid_key v fid) of
               None \<Rightarrow> (Err NotFound, s)
             | Some f \<Rightarrow>
                 (Ok (proc_qid s node (pv_view_id v) (sc_namespace (pv_spawn v))),
                  s\<lparr>ps_fids := (ps_fids s)(fid_key v fid \<mapsto> f\<lparr>pf_mode := Some mode\<rparr>)\<rparr>)))"

text \<open>The stream a node is served from, if it is a stream node.\<close>

definition proc_stream :: "'x proc_state \<Rightarrow> proc_node \<Rightarrow> stream res option" where
  "proc_stream s node =
     (case node of
        PInput pid \<Rightarrow> Some (ok_or (ps_inputs s pid) NotFound)
      | POutput pid \<Rightarrow> Some (ok_or (ps_outputs s pid) NotFound)
      | PIoEvents pid \<Rightarrow> Some (ok_or (ps_io_events s pid) NotFound)
      | _ \<Rightarrow> None)"

definition proc_read ::
  "((u32, string) btree \<Rightarrow> bytes option) \<Rightarrow> 'x ktree proc_fs \<Rightarrow> fid \<Rightarrow> offset \<Rightarrow> u32 \<Rightarrow> 'x proc_state \<Rightarrow>
     bytes poll \<times> 'x proc_state" where
  "proc_read json v fid offset count s =
     (case Option.bind (ps_fids s (fid_key v fid)) pf_clone_pid of
        Some pid \<Rightarrow> (Some (Ok (slice (show_nat (unat pid)) offset count)), s)
      | None \<Rightarrow>
          (case proc_node_of s (fid_key v fid) (pv_root_node v) of
             Inl e \<Rightarrow> (Some (Err e), s)
           | Inr node \<Rightarrow>
               (case proc_stream s node of
                  Some (Inl e) \<Rightarrow> (Some (Err e), s)
                | Some (Inr stream) \<Rightarrow> (map_option Ok (stream_read stream offset count), s)
                | None \<Rightarrow>
                    (Some (map_sum id (\<lambda>bs. slice bs offset count)
                       (file_bytes json s node (sc_parent (pv_spawn v)) (sc_namespace (pv_spawn v)))), s))))"

section \<open>Writing\<close>

definition proc_write_intent :: "'x proc_state \<Rightarrow> u64 \<times> fid \<Rightarrow> bool" where
  "proc_write_intent s key \<longleftrightarrow> (case ps_fids s key of Some f \<Rightarrow> opened_for_write (pf_mode f) | None \<Rightarrow> False)"

definition proc_buffer_write ::
  "u64 \<times> fid \<Rightarrow> offset \<Rightarrow> bytes \<Rightarrow> nat \<Rightarrow> (proc_fid \<Rightarrow> bool) \<Rightarrow> 'x proc_state \<Rightarrow> u32 res \<times> 'x proc_state" where
  "proc_buffer_write key offset data limit refused s =
     (case ps_fids s key of
        None \<Rightarrow> (Err NotFound, s)
      | Some f \<Rightarrow>
          if refused f then (Err BadRequest, s)
          else (let (r, f') = buffer_write offset data limit f in (r, s\<lparr>ps_fids := (ps_fids s)(key \<mapsto> f')\<rparr>)))"

definition proc_write_ctl :: "pid \<Rightarrow> bytes \<Rightarrow> 'x proc_state \<Rightarrow> u32 res \<times> 'x proc_state" where
  "proc_write_ctl pid data s =
     (if data = ''cancel'' \<or> data = ''interrupt'' then
        (let s1 = s\<lparr>ps_runner_tasks := (ps_runner_tasks s)(pid := None), ps_table := pt_exit pid 130 (ps_table s)\<rparr>
         in (Ok (of_nat (length data)), publish_process_event pid (EvStatus ''exited'') s1))
      else (Err BadRequest, s))"

text \<open>Append to an IO stream, log the event and publish it.\<close>

definition append_output :: "pid \<Rightarrow> bytes \<Rightarrow> 'x proc_state \<Rightarrow> 'x proc_state" where
  "append_output pid data s =
     (let count = of_nat (length data) in
      publish_process_event pid (EvOutput count)
        (s\<lparr>ps_outputs := (ps_outputs s)(pid := map_option (stream_append data) (ps_outputs s pid)),
           ps_io_events := (ps_io_events s)(pid := map_option (append_io_event ''output'' count) (ps_io_events s pid))\<rparr>))"

definition proc_write_output :: "pid \<Rightarrow> bytes \<Rightarrow> 'x proc_state \<Rightarrow> u32 res \<times> 'x proc_state" where
  "proc_write_output pid data s =
     (if ps_outputs s pid = None \<or> ps_io_events s pid = None then (Err NotFound, s)
      else (Ok (of_nat (length data)), append_output pid data s))"

definition proc_write ::
  "'x ktree proc_fs \<Rightarrow> fid \<Rightarrow> offset \<Rightarrow> bytes \<Rightarrow> 'x proc_state \<Rightarrow> u32 res \<times> 'x proc_state" where
  "proc_write v fid offset data s =
     (case proc_node_of s (fid_key v fid) (pv_root_node v) of
        Inl e \<Rightarrow> (Err e, s)
      | Inr node \<Rightarrow>
          (let guarded = (\<lambda>r. if proc_write_intent s (fid_key v fid) then r else (Err NoAccess, s)) in
           case node of
             PClone \<Rightarrow> guarded (proc_buffer_write (fid_key v fid) offset data MAX_EXEC_SPEC_BYTES (\<lambda>f. pf_clone_pid f = None) s)
           | PCtl pid \<Rightarrow> guarded (proc_write_ctl pid data s)
           | PInput _ \<Rightarrow> guarded (proc_buffer_write (fid_key v fid) offset data MAX_PROCESS_INPUT_BYTES (\<lambda>_. False) s)
           | POutput pid \<Rightarrow> guarded (proc_write_output pid data s)
           | _ \<Rightarrow> (Err Unsupported, s)))"

section \<open>The other operations\<close>

fun proc_is_writable :: "proc_node \<Rightarrow> bool" where
  "proc_is_writable PClone = True"
| "proc_is_writable (PCtl _) = True"
| "proc_is_writable (PInput _) = True"
| "proc_is_writable (POutput _) = True"
| "proc_is_writable _ = False"

definition proc_stat_length ::
  "((u32, string) btree \<Rightarrow> bytes option) \<Rightarrow> 'x ktree proc_fs \<Rightarrow> proc_node \<Rightarrow> 'x proc_state \<Rightarrow> u64" where
  "proc_stat_length json v node s =
     (case proc_stream s node of
        Some (Inr stream) \<Rightarrow> stream_len stream
      | Some (Inl _) \<Rightarrow> 0
      | None \<Rightarrow>
          (case node of
             PClone \<Rightarrow> 0
           | PCtl _ \<Rightarrow> 0
           | _ \<Rightarrow>
               (case file_bytes json s node (sc_parent (pv_spawn v)) (sc_namespace (pv_spawn v)) of
                  Inr bs \<Rightarrow> of_nat (length bs)
                | Inl _ \<Rightarrow> 0)))"

definition proc_stat ::
  "((u32, string) btree \<Rightarrow> bytes option) \<Rightarrow> 'x ktree proc_fs \<Rightarrow> fid \<Rightarrow> 'x proc_state \<Rightarrow> stat res \<times> 'x proc_state" where
  "proc_stat json v fid s =
     (map_sum id (\<lambda>node. \<lparr>stat_name = [], stat_qid = proc_qid s node (pv_view_id v) (sc_namespace (pv_spawn v)),
        stat_length = proc_stat_length json v node s, stat_executable = False,
        stat_writable = proc_is_writable node\<rparr>) (proc_node_of s (fid_key v fid) (pv_root_node v)), s)"

definition proc_create ::
  "'x ktree proc_fs \<Rightarrow> fid \<Rightarrow> fid \<Rightarrow> string \<Rightarrow> file_kind \<Rightarrow> 'x proc_state \<Rightarrow> qid res \<times> 'x proc_state" where
  "proc_create v fid newfid name kind s = (Err Unsupported, s)"

definition proc_remove :: "'x ktree proc_fs \<Rightarrow> fid \<Rightarrow> 'x proc_state \<Rightarrow> unit res \<times> 'x proc_state" where
  "proc_remove v fid s = (Err Unsupported, s)"

section \<open>Commit on clunk\<close>

definition valid_descriptor_path :: "string \<Rightarrow> bool" where
  "valid_descriptor_path path \<longleftrightarrow>
     take 1 path = ''/'' \<and> \<not> list_ex (\<lambda>c. c = ''.'' \<or> c = ''..'') (split_on (CHR ''/'') path)"

definition descriptors_valid :: "'t namespace \<Rightarrow> (u32, string) btree \<Rightarrow> bool" where
  "descriptors_valid ns descriptors \<longleftrightarrow>
     list_all (\<lambda>(number, path). 3 \<le> number \<and> valid_descriptor_path path \<and> resolve ns path \<noteq> None) descriptors"

definition proc_discard :: "pid \<Rightarrow> 'x proc_state \<Rightarrow> 'x proc_state" where
  "proc_discard pid s = s\<lparr>ps_table := pt_discard pid (ps_table s)\<rparr>"

text \<open>The namespace of the pending slot, narrowed by the manifest and rebound for the child.\<close>

definition narrowed_namespace ::
  "'x ktree proc_fs \<Rightarrow> pid \<Rightarrow> exec_spec \<Rightarrow> 'x proc_state \<Rightarrow> ('x ktree namespace \<times> u64) option" where
  "narrowed_namespace v pid exec s =
     (case pending_namespace (ps_table s) pid of
        None \<Rightarrow> None
      | Some ns \<Rightarrow>
          map_option (\<lambda>narrowed. rebind_proc_spawners v narrowed pid (ps_next_view_id s))
            (namespace_subset_from (exec_namespace exec) ns))"

definition started_state :: "pid \<Rightarrow> 'x proc_state \<Rightarrow> 'x proc_state" where
  "started_state pid s =
     s\<lparr>ps_inputs := (ps_inputs s)(pid \<mapsto> stream_new), ps_outputs := (ps_outputs s)(pid \<mapsto> stream_new),
       ps_io_events := (ps_io_events s)(pid \<mapsto> stream_new), ps_event_history := (ps_event_history s)(pid \<mapsto> [])\<rparr>"

definition commit_process ::
  "'x ktree proc_fs \<Rightarrow> pid \<Rightarrow> exec_spec \<Rightarrow> 'x proc_state \<Rightarrow> 'x invocation res \<times> 'x proc_state" where
  "commit_process v pid exec s =
     (if pending_namespace_generation (ps_table s) pid \<noteq> Some (enm_generation (exec_namespace exec))
      then (Err BadRequest, proc_discard pid s)
      else
        (case narrowed_namespace v pid exec s of
           None \<Rightarrow> (Err BadRequest, proc_discard pid s)
         | Some (ns, next) \<Rightarrow>
             (let s1 = s\<lparr>ps_next_view_id := next\<rparr> in
              case replace_pending_namespace pid ns (ps_table s1) of
                (None, table) \<Rightarrow> (Err BadRequest, proc_discard pid (s1\<lparr>ps_table := table\<rparr>))
              | (Some _, table) \<Rightarrow>
                  (let s2 = s1\<lparr>ps_table := table\<rparr> in
                   case pending_namespace table pid of
                     None \<Rightarrow> (Err BadRequest, proc_discard pid s2)
                   | Some pending \<Rightarrow>
                       if \<not> descriptors_valid pending (exec_descriptors exec) then (Err BadRequest, proc_discard pid s2)
                       else
                         (case pt_commit pid exec table of
                            (None, table') \<Rightarrow> (Err BadRequest, s2\<lparr>ps_table := table'\<rparr>)
                          | (Some committed, table') \<Rightarrow>
                              (let s3 = s2\<lparr>ps_table := table'\<rparr> in
                               case pt_get table' committed of
                                 None \<Rightarrow> (Err Io, s3)
                               | Some p \<Rightarrow>
                                   (Ok \<lparr>inv_pid = proc_pid p, inv_parent = proc_parent p,
                                        inv_credentials = proc_credentials p, inv_namespace = proc_namespace p,
                                        inv_exec = proc_exec p\<rparr>,
                                    started_state committed s3)))))))"

definition commit_input :: "pid \<Rightarrow> bytes \<Rightarrow> 'x proc_state \<Rightarrow> unit res \<times> 'x proc_state" where
  "commit_input pid buf s =
     (if ps_inputs s pid = None \<or> ps_io_events s pid = None then (Err NotFound, s)
      else
        (let count = of_nat (length buf); framed = show_nat (length buf) @ [newline] @ buf in
         (Ok (), publish_process_event pid (EvInput count)
            (s\<lparr>ps_inputs := (ps_inputs s)(pid := map_option (stream_append framed) (ps_inputs s pid)),
               ps_io_events := (ps_io_events s)(pid := map_option (append_io_event ''input'' count) (ps_io_events s pid))\<rparr>))))"

text \<open>The process is announced, then its task is registered if the view has a runner.\<close>

definition launch :: "'x ktree proc_fs \<Rightarrow> 'x invocation \<Rightarrow> 'x proc_state \<Rightarrow> 'x proc_state" where
  "launch v invocation s =
     (let s1 = publish_process_event (inv_pid invocation) (EvStatus ''running'') s in
      if pv_runner v then s1\<lparr>ps_runner_tasks := (ps_runner_tasks s1)(inv_pid invocation \<mapsto> invocation)\<rparr> else s1)"

definition proc_clunk_fid ::
  "(bytes \<Rightarrow> exec_spec option) \<Rightarrow> 'x ktree proc_fs \<Rightarrow> proc_fid \<Rightarrow> 'x proc_state \<Rightarrow> unit res \<times> 'x proc_state" where
  "proc_clunk_fid parse_exec v f s =
     (if pf_write_failed f then
        (Err BadRequest, (case pf_clone_pid f of Some pid \<Rightarrow> proc_discard pid s | None \<Rightarrow> s))
      else
        (case pf_clone_pid f of
           Some pid \<Rightarrow>
             (case parse_exec (pf_write_buf f) of
                None \<Rightarrow> (Err BadRequest, proc_discard pid s)
              | Some exec \<Rightarrow>
                  (case commit_process v pid exec s of
                     (Inl e, s1) \<Rightarrow> (Err e, s1)
                   | (Inr invocation, s1) \<Rightarrow> (Ok (), launch v invocation s1)))
         | None \<Rightarrow>
             (case pf_node f of
                PInput pid \<Rightarrow> if pf_wrote f then commit_input pid (pf_write_buf f) s else (Ok (), s)
              | _ \<Rightarrow> (Ok (), s))))"

definition proc_clunk ::
  "(bytes \<Rightarrow> exec_spec option) \<Rightarrow> 'x ktree proc_fs \<Rightarrow> fid \<Rightarrow> 'x proc_state \<Rightarrow> unit res \<times> 'x proc_state" where
  "proc_clunk parse_exec v fid s =
     (if fid = ROOT \<and> pv_root_node v \<noteq> PClone then (Ok (), s)
      else
        (case ps_fids s (fid_key v fid) of
           None \<Rightarrow> (Err NotFound, s)
         | Some f \<Rightarrow> proc_clunk_fid parse_exec v f (s\<lparr>ps_fids := (ps_fids s)(fid_key v fid := None)\<rparr>)))"

text \<open>The runner's task reports its outcome, unless it was aborted.\<close>

record process_outcome =
  po_output :: bytes
  po_exit_code :: int

definition runner_finish :: "pid \<Rightarrow> process_outcome \<Rightarrow> 'x proc_state \<Rightarrow> 'x proc_state" where
  "runner_finish pid outcome s =
     (case ps_runner_tasks s pid of
        None \<Rightarrow> s
      | Some invocation \<Rightarrow>
          (let s1 = (if po_output outcome = [] then s else append_output (inv_pid invocation) (po_output outcome) s);
               s2 = s1\<lparr>ps_runner_tasks := (ps_runner_tasks s1)(inv_pid invocation := None),
                 ps_table := pt_exit (inv_pid invocation) (po_exit_code outcome) (ps_table s1)\<rparr>
           in publish_process_event (inv_pid invocation) (EvStatus ''exited'') s2))"

definition proc_server ::
  "((u32, string) btree \<Rightarrow> bytes option) \<Rightarrow> (bytes \<Rightarrow> exec_spec option) \<Rightarrow> 'x ktree proc_fs \<Rightarrow> 'x proc_state file_server" where
  "proc_server json parse_exec v =
     \<lparr>fs_walk = (\<lambda>f n ns s. ready (proc_walk v f n ns s)), fs_open = (\<lambda>f m s. ready (proc_open v f m s)),
      fs_read = (\<lambda>f off c s. proc_read json v f off c s), fs_write = (\<lambda>f off d s. ready (proc_write v f off d s)),
      fs_stat = (\<lambda>f s. ready (proc_stat json v f s)), fs_create = (\<lambda>f n nm k s. ready (proc_create v f n nm k s)),
      fs_remove = (\<lambda>f s. ready (proc_remove v f s)), fs_clunk = (\<lambda>f s. ready (proc_clunk parse_exec v f s))\<rparr>"

section \<open>What leaves the process table and the fids alone\<close>

lemma publish_simps [simp]:
  "ps_table (publish_process_event pid e s) = ps_table s"
  "ps_fids (publish_process_event pid e s) = ps_fids s"
  "ps_heap (publish_process_event pid e s) = ps_heap s"
  "ps_runner_tasks (publish_process_event pid e s) = ps_runner_tasks s"
  "ps_outputs (publish_process_event pid e s) = ps_outputs s"
  by (simp_all add: publish_process_event_def deliver_def)

lemma append_output_simps [simp]:
  "ps_table (append_output pid d s) = ps_table s" "ps_fids (append_output pid d s) = ps_fids s"
  by (simp_all add: append_output_def Let_def)

lemma launch_simps [simp]:
  "ps_table (launch v i s) = ps_table s" "ps_fids (launch v i s) = ps_fids s"
  by (simp_all add: launch_def Let_def)

lemma started_simps [simp]:
  "ps_table (started_state pid s) = ps_table s" "ps_fids (started_state pid s) = ps_fids s"
  by (simp_all add: started_state_def)

lemma proc_discard_simps [simp]:
  "ps_table (proc_discard pid s) = pt_discard pid (ps_table s)" "ps_fids (proc_discard pid s) = ps_fids s"
  by (simp_all add: proc_discard_def)

lemma commit_input_simps [simp]:
  "ps_table (snd (commit_input pid buf s)) = ps_table s" "ps_fids (snd (commit_input pid buf s)) = ps_fids s"
  by (simp_all add: commit_input_def Let_def)

lemma commit_process_fids: "commit_process v pid exec s = (r, s') \<Longrightarrow> ps_fids s' = ps_fids s"
  by (auto simp: commit_process_def Let_def split: if_splits option.splits prod.splits)

lemma proc_clunk_fid_fids [simp]: "ps_fids (snd (proc_clunk_fid parse_exec v f s)) = ps_fids s"
  by (auto simp: proc_clunk_fid_def dest!: commit_process_fids
      split: option.split proc_node.split prod.split sum.split)

lemma proc_write_ctl_fids [simp]: "ps_fids (snd (proc_write_ctl pid d s)) = ps_fids s"
  by (simp add: proc_write_ctl_def Let_def)

lemma proc_write_output_fids [simp]: "ps_fids (snd (proc_write_output pid d s)) = ps_fids s"
  by (simp add: proc_write_output_def)

definition proc_live :: "'x ktree proc_fs \<Rightarrow> 'x proc_state \<Rightarrow> fid set" where
  "proc_live v s = {fid. ps_fids s (fid_key v fid) \<noteq> None} - {ROOT}"

lemma fid_key_inj [simp]: "fid_key v a = fid_key v b \<longleftrightarrow> a = b"
  by (simp add: fid_key_def)

lemma proc_buffer_write_live [simp]: "proc_live v (snd (proc_buffer_write key off d l g s)) = proc_live v s"
  by (auto simp: proc_live_def proc_buffer_write_def Let_def split: option.splits prod.splits)

lemma proc_node_of_bound:
  "fid \<noteq> ROOT \<Longrightarrow> proc_node_of s (fid_key v fid) root = Ok node \<Longrightarrow> \<exists>f. ps_fids s (fid_key v fid) = Some f \<and> pf_node f = node"
  by (auto simp: proc_node_of_def ok_or_def fid_key_def split: option.splits)

lemma proc_write_live: "proc_live v (snd (proc_write v f off d s)) = proc_live v s"
proof -
  have "proc_live v (snd (proc_write_ctl pid d s)) = proc_live v s"
    "proc_live v (snd (proc_write_output pid d s)) = proc_live v s" for pid
    by (simp_all add: proc_live_def)
  then show ?thesis by (simp add: proc_write_def Let_def split: sum.split proc_node.split)
qed

lemma proc_open_live: "proc_live v (snd (proc_open v f m s)) = proc_live v s"
proof (cases "proc_node_of s (fid_key v f) (pv_root_node v)")
  case (Inr node)
  then show ?thesis using proc_node_of_bound [of f s v "pv_root_node v" node]
    by (cases "f = ROOT")
      (auto simp: proc_live_def proc_open_def proc_open_clone_def Let_def
        split: option.splits prod.splits if_splits)
qed (simp add: proc_open_def)

interpretation proc: fid_server "proc_server json parse_exec v" "proc_live v"
proof
  fix f m s
  show "proc_live v (snd (fs_open (proc_server json parse_exec v) f m s)) = proc_live v s"
    by (simp add: proc_server_def ready_def proc_open_live)
next
  fix f off d s
  show "proc_live v (snd (fs_write (proc_server json parse_exec v) f off d s)) = proc_live v s"
    by (simp add: proc_server_def ready_def proc_write_live)
next
  fix f s
  show "proc_live v (snd (fs_clunk (proc_server json parse_exec v) f s)) = proc_live v s - {f}"
    by (auto simp: proc_server_def ready_def proc_live_def proc_clunk_def split: option.splits if_splits)
qed (auto simp: proc_server_def ready_def proc_live_def proc_walk_def proc_read_def proc_stat_def proc_create_def proc_remove_def
    split: option.splits sum.splits if_splits)

section \<open>Pending slots and the fids that hold them\<close>

definition slots :: "'x proc_state \<Rightarrow> pid \<Rightarrow> 'x ktree pending_process option" where
  "slots s = bt_get (pt_pending (ps_table s))"

definition holders :: "'x proc_state \<Rightarrow> u64 \<times> fid \<Rightarrow> pid option" where
  "holders s key = Option.bind (ps_fids s key) pf_clone_pid"

definition holders_open :: "'x proc_state \<Rightarrow> bool" where
  "holders_open s \<longleftrightarrow> (\<forall>key f. ps_fids s key = Some f \<longrightarrow> pf_clone_pid f \<noteq> None \<longrightarrow> pf_mode f \<noteq> None)"

definition slots_owned :: "'x proc_state \<Rightarrow> bool" where
  "slots_owned s \<longleftrightarrow> owns (holders s) (dom (slots s))"

definition proc_inv :: "'x proc_state \<Rightarrow> bool" where
  "proc_inv s \<longleftrightarrow> pt_inv (ps_table s) \<and> holders_open s \<and> slots_owned s"

text \<open>The three things an operation can do to the pending slots: nothing, one more slot for a fid
  that held none, or one fid gives up whatever it held.\<close>

inductive spawn_effect :: "(u64 \<times> fid) option \<Rightarrow> 'x proc_state \<Rightarrow> 'x proc_state \<Rightarrow> bool" where
  quiet: "slots s' = slots s \<Longrightarrow> holders s' = holders s \<Longrightarrow> pt_next (ps_table s') = pt_next (ps_table s) \<Longrightarrow>
    spawn_effect None s s'"
| alloc: "holders s key = None \<Longrightarrow> slots s' = (slots s)(pt_next (ps_table s) \<mapsto> p) \<Longrightarrow>
    holders s' = (holders s)(key \<mapsto> pt_next (ps_table s)) \<Longrightarrow>
    pt_next (ps_table s') = pt_next (ps_table s) + 1 \<Longrightarrow> spawn_effect None s s'"
| release: "holders s' = (holders s)(key := None) \<Longrightarrow>
    slots s' = (case holders s key of None \<Rightarrow> slots s | Some pid \<Rightarrow> (slots s)(pid := None)) \<Longrightarrow>
    pt_next (ps_table s') = pt_next (ps_table s) \<Longrightarrow> spawn_effect (Some key) s s'"

lemma pt_inv_next_free: "pt_inv t \<Longrightarrow> bt_get (pt_pending t) (pt_next t) = None"
  unfolding pt_inv_def by (meson order.irrefl)

lemma spawn_effect_owned:
  assumes "spawn_effect k s s'" "pt_inv (ps_table s)" "slots_owned s"
  shows "slots_owned s'"
  using assms
proof (induction rule: spawn_effect.induct)
  case (alloc s key s' p)
  have "pt_next (ps_table s) \<notin> dom (slots s)" using pt_inv_next_free [OF alloc.prems(1)] by (auto simp: slots_def)
  then show ?case using alloc by (simp add: slots_owned_def owns_acquire)
next
  case (release s' s key)
  then show ?case by (cases "holders s key") (simp_all add: slots_owned_def owns_drop owns_release)
qed (simp add: slots_owned_def)

lemma commit_process_cases:
  assumes "commit_process v pid exec s = (r, s')"
  obtains (failed) e t where "r = Err e" "ps_table s' = pt_discard pid t"
      "t = ps_table s \<or> (\<exists>ns. t = snd (replace_pending_namespace pid ns (ps_table s)))"
    | (committed) pend ns nx where "slots s pid = Some pend"
      "pend_generation pend = enm_generation (exec_namespace exec)"
      "narrowed_namespace v pid exec s = Some (ns, nx)" "descriptors_valid ns (exec_descriptors exec)"
      "r = Ok \<lparr>inv_pid = pid, inv_parent = pend_parent pend, inv_credentials = pend_credentials pend,
         inv_namespace = ns, inv_exec = exec\<rparr>"
      "ps_table s' = snd (pt_commit pid exec (snd (replace_pending_namespace pid ns (ps_table s))))"
proof (cases "slots s pid")
  case None
  then show ?thesis using assms failed [of BadRequest "ps_table s"]
    by (auto simp: commit_process_def pending_namespace_generation_def slots_def)
next
  case (Some pend)
  have gen: "pending_namespace_generation (ps_table s) pid = Some (pend_generation pend)"
    using Some by (simp add: pending_namespace_generation_def slots_def)
  consider (gen) "pend_generation pend \<noteq> enm_generation (exec_namespace exec)" | (narrow) "narrowed_namespace v pid exec s = None"
    | (ok) ns nx where "pend_generation pend = enm_generation (exec_namespace exec)" "narrowed_namespace v pid exec s = Some (ns, nx)"
    by (metis not_None_eq prod.exhaust)
  then show ?thesis
  proof cases
    case gen
    then show ?thesis using assms failed [of BadRequest "ps_table s"] \<open>pending_namespace_generation _ _ = _\<close>
      by (auto simp: commit_process_def)
  next
    case narrow
    then show ?thesis using assms failed [of BadRequest "ps_table s"] by (auto simp: commit_process_def split: if_splits)
  next
    case ok
    note True = ok(1) and ns = ok(2)
    obtain t where rep: "replace_pending_namespace pid ns (ps_table s) = (Some (), t)"
      and pend: "pending_namespace t pid = Some ns" "bt_get (pt_pending t) pid = Some (pend\<lparr>pend_namespace := ns\<rparr>)"
      using Some by (simp add: replace_pending_namespace_def pending_namespace_def slots_def)
    show ?thesis
    proof (cases "descriptors_valid ns (exec_descriptors exec)")
      case False
      then have "r = Err BadRequest" "ps_table s' = pt_discard pid t"
        using assms True ns rep pend(1) by (auto simp: commit_process_def gen Let_def)
      moreover have "t = snd (replace_pending_namespace pid ns (ps_table s))" by (simp add: rep)
      ultimately show ?thesis using failed [of BadRequest t] by blast
    next
      case valid: True
      obtain t' where com: "pt_commit pid exec t = (Some pid, t')"
        and get: "pt_get t' pid = Some \<lparr>proc_pid = pid, proc_parent = pend_parent pend,
           proc_credentials = pend_credentials pend, proc_namespace = ns, proc_exec = exec,
           proc_status = Running, proc_exit_code = None\<rparr>"
        using pend(2) by (simp add: pt_commit_def pt_get_def)
      have "r = Ok \<lparr>inv_pid = pid, inv_parent = pend_parent pend, inv_credentials = pend_credentials pend,
         inv_namespace = ns, inv_exec = exec\<rparr>" "ps_table s' = t'"
        using assms True ns rep pend(1) valid com get by (auto simp: commit_process_def gen Let_def)
      moreover have "t' = snd (pt_commit pid exec (snd (replace_pending_namespace pid ns (ps_table s))))"
        by (simp add: rep com)
      ultimately show ?thesis using committed [OF Some True ns valid] by blast
    qed
  qed
qed

lemma pending_after:
  "bt_get (pt_pending (pt_discard pid t)) = (bt_get (pt_pending t))(pid := None)"
  "(bt_get (pt_pending (snd (replace_pending_namespace pid ns t))))(pid := None) = (bt_get (pt_pending t))(pid := None)"
  "bt_get (pt_pending (snd (pt_commit pid exec t))) = (bt_get (pt_pending t))(pid := None)"
  by (auto simp: pt_discard_def replace_pending_namespace_def pt_commit_def fun_eq_iff split: option.splits)

lemma commit_process_effect:
  assumes "commit_process v pid exec s = (r, s')"
  shows "bt_get (pt_pending (ps_table s')) = (bt_get (pt_pending (ps_table s)))(pid := None)"
    "pt_next (ps_table s') = pt_next (ps_table s)" "pt_inv (ps_table s) \<Longrightarrow> pt_inv (ps_table s')"
  using assms by (cases rule: commit_process_cases; auto simp: pending_after pt_inv_discard pt_inv_commit pt_inv_replace)+

section \<open>Effects of the operations\<close>

lemma spawn_quiet:
  "ps_table s' = ps_table s \<Longrightarrow> holders s' = holders s \<Longrightarrow> spawn_effect None s s'"
  by (rule quiet) (simp_all add: slots_def)

lemma pt_exit_pending [simp]: "pt_pending (pt_exit pid code t) = pt_pending t"
  by (auto simp: pt_exit_def split: option.split)

lemma holders_fids: "ps_fids s' = ps_fids s \<Longrightarrow> holders s' = holders s"
  by (rule ext) (simp add: holders_def)

lemma proc_walk_effect: "spawn_effect None s (snd (proc_walk v fid newfid names s))"
  by (rule spawn_quiet) (auto simp: proc_walk_def holders_def proc_fid_at_def split: sum.splits)

lemma proc_write_effect: "spawn_effect None s (snd (proc_write v fid off d s))"
proof (cases "proc_node_of s (fid_key v fid) (pv_root_node v)")
  case (Inr node)
  have buf: "spawn_effect None s (snd (proc_buffer_write key off d l g s))" for key l g
    by (rule spawn_quiet)
      (auto simp: proc_buffer_write_def buffer_write_def holders_def Let_def split: option.splits prod.splits sum.splits)
  have ctl: "spawn_effect None s (snd (proc_write_ctl pid d s))" for pid
    by (rule quiet [OF _ holders_fids]) (simp_all add: proc_write_ctl_def slots_def Let_def)
  have out: "spawn_effect None s (snd (proc_write_output pid d s))" for pid
    by (rule spawn_quiet [OF _ holders_fids]) (simp_all add: proc_write_output_def)
  have "spawn_effect None s s" by (rule spawn_quiet) simp_all
  with Inr buf ctl out show ?thesis by (simp add: proc_write_def Let_def split: proc_node.split)
qed (simp add: proc_write_def spawn_quiet)

lemma proc_open_effect:
  assumes "holders_open s"
  shows "spawn_effect None s (snd (proc_open v fid mode s))"
proof (cases "proc_node_of s (fid_key v fid) (pv_root_node v)")
  case (Inr node)
  let ?key = "fid_key v fid"
  have same: "spawn_effect None s s" by (rule spawn_quiet) simp_all
  show ?thesis
  proof (cases "node = PClone \<and> \<not> (\<exists>f. ps_fids s ?key = Some f \<and> pf_mode f \<noteq> None) \<and> write_intent mode")
    case True
    have free: "holders s ?key = None"
    proof (cases "ps_fids s ?key")
      case (Some f)
      then have "pf_mode f = None" using True by auto
      then have "pf_clone_pid f = None" using assms Some unfolding holders_open_def by blast
      with Some show ?thesis by (simp add: holders_def)
    qed (simp add: holders_def)
    show ?thesis
      by (rule alloc [OF free])
        (use True Inr in \<open>auto simp: proc_open_def proc_open_clone_def slots_def holders_def Let_def case_prod_beta fun_eq_iff
          clone_begin_with_namespace_generation_def alloc_pid_def split: option.splits\<close>)
  next
    case False
    show ?thesis
    proof (rule spawn_quiet)
      show "ps_table (snd (proc_open v fid mode s)) = ps_table s"
        using Inr False by (auto simp: proc_open_def proc_open_clone_def split: option.split)
      show "holders (snd (proc_open v fid mode s)) = holders s"
        using Inr False by (auto simp: proc_open_def proc_open_clone_def holders_def split: option.split)
    qed
  qed
qed (simp add: proc_open_def spawn_quiet)

lemma proc_clunk_fid_effect:
  "bt_get (pt_pending (ps_table (snd (proc_clunk_fid parse_exec v f s)))) =
     (case pf_clone_pid f of None \<Rightarrow> bt_get (pt_pending (ps_table s)) | Some pid \<Rightarrow> (bt_get (pt_pending (ps_table s)))(pid := None))"
  "pt_next (ps_table (snd (proc_clunk_fid parse_exec v f s))) = pt_next (ps_table s)"
  "pt_inv (ps_table s) \<Longrightarrow> pt_inv (ps_table (snd (proc_clunk_fid parse_exec v f s)))"
  by (auto simp: proc_clunk_fid_def pending_after pt_inv_discard dest: commit_process_effect
      split: option.split prod.split sum.split proc_node.split)

lemma proc_clunk_effect: "\<exists>k. k \<in> {None, Some (fid_key v fid)} \<and> spawn_effect k s (snd (proc_clunk parse_exec v fid s))"
proof (cases "(fid = ROOT \<and> pv_root_node v \<noteq> PClone) \<or> ps_fids s (fid_key v fid) = None")
  case True
  then have "snd (proc_clunk parse_exec v fid s) = s" by (auto simp: proc_clunk_def)
  then show ?thesis using spawn_quiet [of s s] by auto
next
  case False
  then obtain f where f: "ps_fids s (fid_key v fid) = Some f" by blast
  let ?s = "s\<lparr>ps_fids := (ps_fids s)(fid_key v fid := None)\<rparr>"
  have clunk: "proc_clunk parse_exec v fid s = proc_clunk_fid parse_exec v f ?s"
    using False f by (auto simp: proc_clunk_def)
  have "spawn_effect (Some (fid_key v fid)) s (snd (proc_clunk parse_exec v fid s))"
    unfolding clunk
    by (rule release)
      (auto simp: holders_def [abs_def] fun_eq_iff slots_def proc_clunk_fid_effect f split: option.split)
  then show ?thesis by blast
qed

section \<open>Runs of the device\<close>

datatype 'x proc_op =
    PCall "'x ktree proc_fs" request
  | PRecordExit pid int
  | PBindLive pid live_id
  | PRunnerFinish pid process_outcome
  | PSubscribeOutput string sink
  | PSubscribeInput string sink
  | PSubscribeIo string sink
  | PSubscribeEvents string sink
  | PLiveMount live_id string "'x ktree" access
  | PLiveReplace live_id string "'x ktree" access
  | PLiveUnmount live_id string

type_synonym exec_json = "((u32, string) btree \<Rightarrow> bytes option) \<times> (bytes \<Rightarrow> exec_spec option)"

fun proc_apply :: "exec_json \<Rightarrow> 'x proc_op \<Rightarrow> 'x proc_state \<Rightarrow> 'x proc_state" where
  "proc_apply js (PCall v req) s = snd (in_process_call (proc_server (fst js) (snd js) v) req s)"
| "proc_apply js (PRecordExit pid code) s = record_exit pid code s"
| "proc_apply js (PBindLive pid live) s = bind_live_namespace pid live s"
| "proc_apply js (PRunnerFinish pid outcome) s = runner_finish pid outcome s"
| "proc_apply js (PSubscribeOutput name sink) s = snd (subscribe_process_output name sink s)"
| "proc_apply js (PSubscribeInput name sink) s = snd (subscribe_process_input name sink s)"
| "proc_apply js (PSubscribeIo name sink) s = snd (subscribe_process_io name sink s)"
| "proc_apply js (PSubscribeEvents name sink) s = snd (subscribe_process_events name sink s)"
| "proc_apply js (PLiveMount l at tree access) s = s\<lparr>ps_heap := (ps_heap s)(l := live_mount at tree access (ps_heap s l))\<rparr>"
| "proc_apply js (PLiveReplace l at tree access) s =
     s\<lparr>ps_heap := (ps_heap s)(l := live_replace_mount at tree access (ps_heap s l))\<rparr>"
| "proc_apply js (PLiveUnmount l at) s = s\<lparr>ps_heap := (ps_heap s)(l := live_unmount at (ps_heap s l))\<rparr>"

definition proc_run :: "exec_json \<Rightarrow> 'x proc_op list \<Rightarrow> 'x proc_state \<Rightarrow> 'x proc_state" where
  "proc_run js ops s = fold (proc_apply js) ops s"

fun op_releases :: "'x proc_op \<Rightarrow> (u64 \<times> fid) option" where
  "op_releases (PCall v (ReqClunk fid)) = Some (fid_key v fid)"
| "op_releases _ = None"

lemmas subscribe_defs = subscribe_process_output_def subscribe_process_input_def subscribe_process_io_def
  subscribe_process_events_def with_process_def deliver_def

lemma bump_generation_pending [simp]: "pt_pending (bump_generation pid t) = pt_pending t"
  by (simp add: bump_generation_def)

text \<open>Host-side operations, and mounts into live namespaces, touch neither fids nor pending slots.\<close>

lemma host_op_simps:
  assumes "\<nexists>v req. op = PCall v req"
  shows "ps_fids (proc_apply js op s) = ps_fids s" "pt_pending (ps_table (proc_apply js op s)) = pt_pending (ps_table s)"
    "pt_next (ps_table (proc_apply js op s)) = pt_next (ps_table s)"
    "pt_inv (ps_table s) \<Longrightarrow> pt_inv (ps_table (proc_apply js op s))"
  using assms
  by (cases op; simp add: record_exit_def bind_live_namespace_def runner_finish_def subscribe_defs Let_def
      pt_inv_exit pt_inv_bump split: option.split)+

lemma proc_call_effect:
  assumes "holders_open s"
  shows "\<exists>k. k \<in> {None, op_releases (PCall v req)} \<and> spawn_effect k s (proc_apply js (PCall v req) s)"
proof (cases req)
  case (ReqClunk f)
  then show ?thesis using proc_clunk_effect [of v f s "snd js"] by (simp add: proc_server_def ready_def)
qed (use assms in \<open>simp_all add: proc_server_def ready_def proc_walk_effect proc_write_effect proc_open_effect
    proc_read_def proc_stat_def proc_create_def proc_remove_def spawn_quiet split: option.split sum.split\<close>)

lemma proc_apply_effect:
  assumes "holders_open s"
  shows "\<exists>k. k \<in> {None, op_releases op} \<and> spawn_effect k s (proc_apply js op s)"
proof (cases "\<exists>v req. op = PCall v req")
  case False
  have "spawn_effect None s (proc_apply js op s)"
    by (rule quiet [OF _ holders_fids]) (simp_all add: slots_def host_op_simps [OF False])
  then show ?thesis by blast
qed (use proc_call_effect [OF assms] in blast)

lemma holders_open_upd:
  "holders_open s \<Longrightarrow> ps_fids s' = (ps_fids s)(key := f) \<Longrightarrow>
     (\<And>g. f = Some g \<Longrightarrow> pf_clone_pid g \<noteq> None \<Longrightarrow> pf_mode g \<noteq> None) \<Longrightarrow> holders_open s'"
  unfolding holders_open_def by (metis fun_upd_apply)

lemma holders_open_same: "holders_open s \<Longrightarrow> ps_fids s' = ps_fids s \<Longrightarrow> holders_open s'"
  by (simp add: holders_open_def)

lemma buffer_write_same:
  "pf_clone_pid (snd (buffer_write off d l f)) = pf_clone_pid f" "pf_mode (snd (buffer_write off d l f)) = pf_mode f"
  by (simp_all add: buffer_write_def split: sum.split)

lemma proc_write_fids:
  "ps_fids (snd (proc_write v fid off d s)) = ps_fids s \<or>
   (\<exists>f l. ps_fids s (fid_key v fid) = Some f \<and>
     ps_fids (snd (proc_write v fid off d s)) = (ps_fids s)(fid_key v fid \<mapsto> snd (buffer_write off d l f)))"
proof -
  have buf: "ps_fids (snd (proc_buffer_write key off d l g s)) = ps_fids s \<or>
    (\<exists>f l'. ps_fids s key = Some f \<and>
      ps_fids (snd (proc_buffer_write key off d l g s)) = (ps_fids s)(key \<mapsto> snd (buffer_write off d l' f)))" for key l g
    by (auto simp: proc_buffer_write_def Let_def case_prod_beta split: option.split)
  show ?thesis
    using buf [of "fid_key v fid" MAX_EXEC_SPEC_BYTES "\<lambda>f. pf_clone_pid f = None"]
      buf [of "fid_key v fid" MAX_PROCESS_INPUT_BYTES "\<lambda>_. False"]
    by (simp add: proc_write_def Let_def split: sum.split proc_node.split)
qed

lemma proc_call_open_fids:
  assumes "holders_open s"
  shows "holders_open (proc_apply js (PCall v req) s)"
proof (cases req)
  case (ReqWalk f n ns)
  then show ?thesis using assms
    by (auto simp: proc_server_def ready_def proc_walk_def proc_fid_at_def intro: holders_open_upd [OF assms] split: sum.split)
next
  case (ReqOpen f m)
  then show ?thesis using assms
    by (auto simp: proc_server_def ready_def proc_open_def proc_open_clone_def Let_def case_prod_beta
        intro: holders_open_upd [OF assms] split: sum.split option.split)
next
  case (ReqWrite f off d)
  have "holders_open (snd (proc_write v f off d s))"
    using proc_write_fids [of v f off d s]
  proof
    assume "\<exists>g l. ps_fids s (fid_key v f) = Some g \<and>
      ps_fids (snd (proc_write v f off d s)) = (ps_fids s)(fid_key v f \<mapsto> snd (buffer_write off d l g))"
    then obtain g l where g: "ps_fids s (fid_key v f) = Some g"
      "ps_fids (snd (proc_write v f off d s)) = (ps_fids s)(fid_key v f \<mapsto> snd (buffer_write off d l g))" by blast
    have "pf_clone_pid g \<noteq> None \<Longrightarrow> pf_mode g \<noteq> None" using assms g(1) unfolding holders_open_def by blast
    then show ?thesis
      using buffer_write_same [of off d l g] by (intro holders_open_upd [OF assms g(2)]) auto
  qed (rule holders_open_same [OF assms])
  then show ?thesis by (simp add: ReqWrite proc_server_def ready_def)
next
  case (ReqClunk f)
  have "ps_fids (snd (proc_clunk (snd js) v f s)) = ps_fids s \<or>
      ps_fids (snd (proc_clunk (snd js) v f s)) = (ps_fids s)(fid_key v f := None)"
    by (auto simp: proc_clunk_def split: option.split)
  then have "holders_open (snd (proc_clunk (snd js) v f s))"
    using holders_open_same [OF assms] holders_open_upd [OF assms] by blast
  then show ?thesis by (simp add: ReqClunk proc_server_def ready_def)
qed (use assms in \<open>simp_all add: proc_server_def ready_def proc_read_def proc_stat_def proc_create_def proc_remove_def
    split: option.split sum.split\<close>)

lemma proc_apply_pt_inv:
  assumes "pt_inv (ps_table s)" "pt_next (ps_table s) \<noteq> - 1"
  shows "pt_inv (ps_table (proc_apply js op s))"
proof (cases op)
  case (PCall v req)
  show ?thesis
  proof (cases req)
    case (ReqOpen f m)
    have "ps_table (snd (proc_open v f m s)) = ps_table s \<or>
        (\<exists>parent cred build. ps_table (snd (proc_open v f m s)) =
          snd (clone_begin_with_namespace_generation parent cred build (ps_table s)))"
      by (auto simp: proc_open_def proc_open_clone_def Let_def case_prod_beta split: sum.split option.split)
    then show ?thesis using assms pt_inv_clone_begin [OF assms] by (auto simp: PCall ReqOpen proc_server_def ready_def)
  next
    case (ReqWrite f off d)
    have "pt_inv (ps_table (snd (proc_write v f off d s)))"
      using assms by (auto simp: proc_write_def Let_def proc_buffer_write_def proc_write_ctl_def proc_write_output_def
          pt_inv_exit case_prod_beta split: sum.split proc_node.split option.split)
    then show ?thesis by (simp add: PCall ReqWrite proc_server_def ready_def)
  next
    case (ReqClunk f)
    have "pt_inv (ps_table (snd (proc_clunk (snd js) v f s)))"
      using assms by (auto simp: proc_clunk_def proc_clunk_fid_effect split: option.split)
    then show ?thesis by (simp add: PCall ReqClunk proc_server_def ready_def)
  qed (use assms in \<open>simp_all add: PCall proc_server_def ready_def proc_walk_def proc_read_def proc_stat_def
      proc_create_def proc_remove_def split: option.split sum.split\<close>)
qed (use assms host_op_simps(4) [of op s js] in simp_all)

lemma spawn_effect_next:
  "spawn_effect k s s' \<Longrightarrow> pt_next (ps_table s') \<in> {pt_next (ps_table s), pt_next (ps_table s) + 1}"
  by (induction rule: spawn_effect.induct) auto

text \<open>A slot stays with the fid that holds it until that fid is clunked.\<close>

lemma spawn_effect_keeps:
  assumes "spawn_effect k s s'" "proc_inv s" "holders s key = Some pid" "k \<noteq> Some key"
  shows "holders s' key = Some pid \<and> slots s' pid = slots s pid"
  using assms
proof (induction rule: spawn_effect.induct)
  case (alloc s key' s' p)
  have "slots s (pt_next (ps_table s)) = None"
    using alloc.prems(1) pt_inv_next_free [of "ps_table s"] by (simp add: proc_inv_def slots_def)
  moreover have "slots s pid \<noteq> None" using alloc.prems(1,2) by (auto simp: proc_inv_def slots_owned_def owns_def intro: ranI)
  ultimately have "pid \<noteq> pt_next (ps_table s)" by auto
  then show ?case using alloc by auto
next
  case (release s' s key')
  have "holders s key' \<noteq> Some pid"
    using release.prems owns_unique [of "holders s" "dom (slots s)" key' pid key] by (auto simp: proc_inv_def slots_owned_def)
  then show ?case using release by (auto split: option.split)
qed simp

lemma proc_apply_inv:
  assumes "proc_inv s" "pt_next (ps_table s) \<noteq> - 1"
  shows "proc_inv (proc_apply js op s)"
proof -
  have moded: "holders_open s" using assms(1) by (simp add: proc_inv_def)
  obtain k where "spawn_effect k s (proc_apply js op s)" using proc_apply_effect [OF moded] by blast
  then have "slots_owned (proc_apply js op s)" using assms(1) spawn_effect_owned by (auto simp: proc_inv_def)
  moreover have "holders_open (proc_apply js op s)"
  proof (cases "\<exists>v req. op = PCall v req")
    case False
    then show ?thesis using holders_open_same [OF moded] host_op_simps(1) by blast
  qed (use proc_call_open_fids [OF moded] in blast)
  ultimately show ?thesis using assms proc_apply_pt_inv [of s js op] by (simp add: proc_inv_def)
qed

lemma proc_run_inv:
  assumes "proc_inv s" "unat (pt_next (ps_table s)) + length ops < 2 ^ 64"
  shows "proc_inv (proc_run js ops s) \<and>
    unat (pt_next (ps_table (proc_run js ops s))) \<le> unat (pt_next (ps_table s)) + length ops \<and>
    (\<forall>key pid. holders s key = Some pid \<longrightarrow> (\<forall>op \<in> set ops. op_releases op \<noteq> Some key) \<longrightarrow>
      holders (proc_run js ops s) key = Some pid \<and> slots (proc_run js ops s) pid = slots s pid)"
  using assms
proof (induction ops arbitrary: s)
  case (Cons op ops)
  let ?s = "proc_apply js op s"
  have nx: "unat (pt_next (ps_table s) + 1) = unat (pt_next (ps_table s)) + 1" "pt_next (ps_table s) \<noteq> - 1"
    using Cons.prems(2) by (intro word_next; simp)+
  have inv: "proc_inv ?s" by (rule proc_apply_inv [OF Cons.prems(1) nx(2)])
  obtain k where k: "k \<in> {None, op_releases op}" "spawn_effect k s ?s"
    using proc_apply_effect [of s op js] Cons.prems(1) by (auto simp: proc_inv_def)
  have le: "unat (pt_next (ps_table ?s)) \<le> unat (pt_next (ps_table s)) + 1"
    using spawn_effect_next [OF k(2)] nx(1) by auto
  have "unat (pt_next (ps_table ?s)) + length ops < 2 ^ 64" using le Cons.prems(2) by simp
  note IH = Cons.IH [OF inv this]
  have keeps: "holders ?s key = Some pid \<and> slots ?s pid = slots s pid"
    if "holders s key = Some pid" "op_releases op \<noteq> Some key" for key pid
    using spawn_effect_keeps [OF k(2) Cons.prems(1) that(1)] k(1) that(2) by auto
  show ?case
  proof (intro conjI allI impI)
    show "proc_inv (proc_run js (op # ops) s)" using IH by (simp add: proc_run_def)
    show "unat (pt_next (ps_table (proc_run js (op # ops) s))) \<le> unat (pt_next (ps_table s)) + length (op # ops)"
      using IH le by (simp add: proc_run_def)
    fix key pid assume "holders s key = Some pid" and ops: "\<forall>o' \<in> set (op # ops). op_releases o' \<noteq> Some key"
    then have "holders ?s key = Some pid \<and> slots ?s pid = slots s pid" by (intro keeps) auto
    with IH [THEN conjunct2, THEN conjunct2, rule_format, of key pid] ops
    show "holders (proc_run js (op # ops) s) key = Some pid" "slots (proc_run js (op # ops) s) pid = slots s pid"
      by (simp_all add: proc_run_def)
  qed
qed (simp add: proc_run_def)

lemma proc_inv_new [simp]: "proc_inv (proc_state_new heap n)"
  by (simp add: proc_inv_def proc_state_new_def holders_open_def slots_owned_def slots_def holders_def
      process_table_new_def owns_def dom_def ran_def inj_on_def) (metis pt_inv_new process_table_new_def)

section \<open>A spawn leaks nothing\<close>

text \<open>A concrete spawner, with a device of its own and \<open>/proc\<close>, that spawns a child with the first alone.\<close>

definition demo_spawner :: "nat ktree proc_fs" where
  "demo_spawner = ProcFs 5 PRoot (SpawnContext None (Snapshot (Namespace
     [Mount [''proc''] (Server 0) ReadWrite, Mount [''dev''] (Server 1) ReadWrite])) credentials_system) False"

definition demo_json :: exec_json where
  "demo_json = (\<lambda>_. None, \<lambda>_. Some \<lparr>exec_executable = ''/dev/x'', exec_args = [],
     exec_namespace = \<lparr>enm_generation = 0, enm_mounts = [\<lparr>enm_path = ''/dev'', enm_access = ExecReadOnly\<rparr>]\<rparr>,
     exec_descriptors = []\<rparr>)"

definition demo_start :: "nat proc_state" where
  "demo_start = proc_state_new (\<lambda>_. live_new namespace_new) 6"

definition demo_walk :: "nat proc_op list" where
  "demo_walk = [PCall demo_spawner (ReqWalk ROOT 1 [''clone''])]"

definition demo_opened :: "nat proc_op list" where
  "demo_opened = demo_walk @ [PCall demo_spawner (ReqOpen 1 OpenWrite)]"

lemma processes_after:
  "pt_processes (pt_discard pid t) = pt_processes t"
  "pt_processes (snd (replace_pending_namespace pid ns t)) = pt_processes t"
  by (simp_all add: pt_discard_def replace_pending_namespace_def split: option.split)

lemma clunk_slot:
  assumes clunk: "proc_clunk parse_exec v fid s = (r, s')" and f: "ps_fids s (fid_key v fid) = Some f" "pf_clone_pid f = Some pid"
    "fid \<noteq> ROOT \<or> pv_root_node v = PClone"
  shows "slots s' pid = None \<and> (case r of
      Inl _ \<Rightarrow> pt_processes (ps_table s') = pt_processes (ps_table s)
    | Inr _ \<Rightarrow> \<exists>p. pt_get (ps_table s') pid = Some p \<and> proc_status p = Running)"
proof -
  let ?s = "s\<lparr>ps_fids := (ps_fids s)(fid_key v fid := None)\<rparr>"
  have eq: "proc_clunk_fid parse_exec v f ?s = (r, s')" using clunk f by (auto simp: proc_clunk_def)
  have "slots s' pid = None" using proc_clunk_fid_effect(1) [of parse_exec v f ?s] f(2) by (simp add: eq slots_def)
  moreover have "case r of
      Inl _ \<Rightarrow> pt_processes (ps_table s') = pt_processes (ps_table s)
    | Inr _ \<Rightarrow> \<exists>p. pt_get (ps_table s') pid = Some p \<and> proc_status p = Running"
  proof (cases "pf_write_failed f \<or> parse_exec (pf_write_buf f) = None")
    case True
    then show ?thesis using eq f(2) by (auto simp: proc_clunk_fid_def processes_after split: if_splits)
  next
    case False
    then obtain exec where exec: "parse_exec (pf_write_buf f) = Some exec" by blast
    obtain r1 s1 where commit: "commit_process v pid exec ?s = (r1, s1)" by (metis prod.exhaust)
    from commit show ?thesis
    proof (cases rule: commit_process_cases)
      case (failed e t)
      then show ?thesis using eq f(2) False exec commit by (auto simp: proc_clunk_fid_def processes_after)
    next
      case (committed pend ns nx)
      then have "bt_get (pt_pending (snd (replace_pending_namespace pid ns (ps_table ?s)))) pid = Some (pend\<lparr>pend_namespace := ns\<rparr>)"
        by (simp add: replace_pending_namespace_def slots_def)
      with committed show ?thesis using eq f(2) False exec commit
        by (auto simp: proc_clunk_fid_def pt_commit_def pt_get_def)
    qed
  qed
  ultimately show ?thesis by blast
qed

text \<open>
  (C27) A spawn leaks nothing: after any interleaving of requests through any views and of host
  operations, every pending slot is held by exactly one open clone fid and is not public; and
  clunking that fid always ends the slot: on success the process is public and running, and on
  any failure (unreadable spec, stale namespace generation, manifest that asks for more, bad
  descriptors, failed write) the public process table is exactly what it was.
\<close>

theorem spawn_leaks_nothing:
  assumes "length ops < 2 ^ 64 - 1" "s = proc_run js ops (proc_state_new heap n)"
  shows "(\<forall>pid. slots s pid \<noteq> None \<longleftrightarrow> (\<exists>!key. \<exists>f. ps_fids s key = Some f \<and> pf_clone_pid f = Some pid)) \<and>
    (\<forall>pid. slots s pid \<noteq> None \<longrightarrow> pt_get (ps_table s) pid = None) \<and>
    (\<forall>v fid f pid r s'. ps_fids s (fid_key v fid) = Some f \<longrightarrow> pf_clone_pid f = Some pid \<longrightarrow>
      fid \<noteq> ROOT \<or> pv_root_node v = PClone \<longrightarrow> proc_clunk (snd js) v fid s = (r, s') \<longrightarrow>
      slots s' pid = None \<and>
      (case r of
         Inl _ \<Rightarrow> pt_processes (ps_table s') = pt_processes (ps_table s)
       | Inr _ \<Rightarrow> \<exists>p. pt_get (ps_table s') pid = Some p \<and> proc_status p = Running))"
proof -
  have inv: "proc_inv s"
    using proc_run_inv [OF proc_inv_new, of heap n ops js] assms by (simp add: proc_state_new_def process_table_new_def)
  have hold: "holders s key = Some pid \<longleftrightarrow> (\<exists>f. ps_fids s key = Some f \<and> pf_clone_pid f = Some pid)" for key pid
    by (auto simp: holders_def split: Option.bind_splits)
  have one: "slots s pid \<noteq> None \<longleftrightarrow> (\<exists>!key. holders s key = Some pid)" for pid
    using inv owns_iff [of "holders s" "dom (slots s)" pid] by (simp add: proc_inv_def slots_owned_def domIff)
  have "pt_get (ps_table s) pid = None" if "slots s pid \<noteq> None" for pid
    using inv that by (auto simp: proc_inv_def pt_inv_def slots_def pt_get_def)
  moreover have "slots s' pid = None \<and> (case r of
        Inl _ \<Rightarrow> pt_processes (ps_table s') = pt_processes (ps_table s)
      | Inr _ \<Rightarrow> \<exists>p. pt_get (ps_table s') pid = Some p \<and> proc_status p = Running)"
    if f: "ps_fids s (fid_key v fid) = Some f" "pf_clone_pid f = Some pid" "fid \<noteq> ROOT \<or> pv_root_node v = PClone"
      and clunk: "proc_clunk (snd js) v fid s = (r, s')" for v fid f pid r s'
    by (rule clunk_slot [OF clunk f])
  ultimately show ?thesis using one hold by simp
qed

theorem spawn_leaks_nothing_witness:
  "length demo_opened < 2 ^ 64 - 1 \<and> slots (proc_run demo_json demo_opened demo_start) 1 \<noteq> None \<and>
   pt_get (ps_table (proc_run demo_json demo_opened demo_start)) 1 = None \<and>
   slots (snd (proc_clunk (snd demo_json) demo_spawner 1 (proc_run demo_json demo_opened demo_start))) 1 = None"
proof -
  let ?s = "proc_run demo_json demo_opened demo_start"
  have len: "length demo_opened < 2 ^ 64 - 1" by (simp add: demo_opened_def demo_walk_def)
  have slot: "slots ?s 1 \<noteq> None" and holder: "holders ?s (fid_key demo_spawner 1) = Some 1" by code_simp+
  obtain f where f: "ps_fids ?s (fid_key demo_spawner 1) = Some f" "pf_clone_pid f = Some 1"
    using holder by (auto simp: holders_def split: Option.bind_splits)
  have root: "(1 :: fid) \<noteq> ROOT \<or> pv_root_node demo_spawner = PClone" by code_simp
  note leak = spawn_leaks_nothing [OF len, of ?s demo_json "\<lambda>_. live_new namespace_new" 6, unfolded demo_start_def [symmetric], OF refl]
  have "pt_get (ps_table ?s) 1 = None" using leak slot by blast
  moreover have "slots (snd (proc_clunk (snd demo_json) demo_spawner 1 ?s)) 1 = None"
    using leak f root prod.collapse [of "proc_clunk (snd demo_json) demo_spawner 1 ?s", symmetric] by blast
  ultimately show ?thesis using len slot by blast
qed

section \<open>Authority of a spawned process\<close>

text \<open>
  What a spawn through the view \<open>v\<close> may give the child \<open>pid\<close> when the spawner holds the mounts \<open>B\<close>:
  one of those mounts with at most its access, or, where the spawner has \<open>/proc\<close> or \<open>/proc/clone\<close>,
  a view of it in which the child is the parent, the credentials are the spawner's and the
  namespace handed to grandchildren is again within what was given.
\<close>

inductive grants :: "'x ktree proc_fs \<Rightarrow> pid \<Rightarrow> 'x ktree mount set \<Rightarrow> 'x ktree mount \<Rightarrow> bool"
  for v :: "'x ktree proc_fs" and pid :: pid and B :: "'x ktree mount set" where
  inherited: "Mount prefix tree a \<in> B \<Longrightarrow> a' \<le> a \<Longrightarrow> grants v pid B (Mount prefix tree a')"
| rebound: "Mount prefix tree a \<in> B \<Longrightarrow> a' \<le> a \<Longrightarrow>
    (prefix, node) \<in> {([''proc''], PRoot), ([''proc'', ''clone''], PClone)} \<Longrightarrow>
    \<forall>m \<in> set (ns_mounts ns). grants v pid B m \<Longrightarrow>
    grants v pid B (Mount prefix
      (ProcTree (ProcFs i node (SpawnContext (Some pid) (Snapshot ns) (sc_credentials (pv_spawn v))) (pv_runner v))) a')"

lemma grants_base:
  "grants v pid B m \<Longrightarrow> \<exists>tree a. Mount (mount_prefix m) tree a \<in> B \<and> mount_access m \<le> a"
  by (erule grants.cases) (simp, blast)+

lemma grants_weaken: "grants v pid B m \<Longrightarrow> a \<le> mount_access m \<Longrightarrow> grants v pid B (Mount (mount_prefix m) (mount_tree m) a)"
proof (erule grants.cases)
  fix prefix tree b a' assume "a \<le> mount_access m" "m = Mount prefix tree a'" "Mount prefix tree b \<in> B" "a' \<le> b"
  then show ?thesis using inherited [of prefix tree b B a] by simp
next
  fix prefix tree b a' node ns i
  assume "a \<le> mount_access m" "m = Mount prefix (ProcTree (ProcFs i node
      (SpawnContext (Some pid) (Snapshot ns) (sc_credentials (pv_spawn v))) (pv_runner v))) a'"
    "Mount prefix tree b \<in> B" "a' \<le> b" "(prefix, node) \<in> {([''proc''], PRoot), ([''proc'', ''clone''], PClone)}"
    "\<forall>m \<in> set (ns_mounts ns). grants v pid B m"
  then show ?thesis using rebound [of prefix tree b B a node ns v pid i] by simp
qed

lemma mount_access_at_mount:
  "mount_access_at ns path = Some a \<Longrightarrow> \<exists>m \<in> set (ns_mounts ns). mount_prefix m = split_path path \<and> mount_access m = a"
proof -
  assume "mount_access_at ns path = Some a"
  then obtain r rs where r: "rev (union_at ns path) = r # rs" "a = res_access r"
    by (auto simp: mount_access_at_def split: list.splits)
  then have "r \<in> set (union_at ns path)" by (metis list.set_intros(1) set_rev)
  then show ?thesis using r(2) by (auto simp: union_at_def)
qed

lemma grants_rebind1:
  assumes "\<forall>m \<in> set (ns_mounts ns). grants v pid B m" "mount_access_at ns path = Some a"
    "(split_path path, node) \<in> {([''proc''], PRoot), ([''proc'', ''clone''], PClone)}"
  shows "\<forall>m \<in> set (ns_mounts (namespace_mount path
      (ProcTree (ProcFs i node (SpawnContext (Some pid) (Snapshot ns) (sc_credentials (pv_spawn v))) (pv_runner v))) a
      (namespace_unmount path ns))). grants v pid B m"
proof -
  obtain m where "m \<in> set (ns_mounts ns)" "mount_prefix m = split_path path" "mount_access m = a"
    using mount_access_at_mount [OF assms(2)] by blast
  then obtain tree b where "Mount (split_path path) tree b \<in> B" "a \<le> b" using assms(1) grants_base by metis
  then have "grants v pid B (Mount (split_path path)
      (ProcTree (ProcFs i node (SpawnContext (Some pid) (Snapshot ns) (sc_credentials (pv_spawn v))) (pv_runner v))) a)"
    using rebound [of "split_path path" tree b B a node ns v pid i] assms(1,3) by blast
  then show ?thesis using assms(1) by (auto simp: namespace_mount_def namespace_unmount_def)
qed

lemma proc_paths: "split_path ''/proc'' = [''proc'']" "split_path ''/proc/clone'' = [''proc'', ''clone'']"
  by code_simp+

lemma grants_rebind:
  assumes "\<forall>m \<in> set (ns_mounts ns). grants v pid B m"
  shows "\<forall>m \<in> set (ns_mounts (fst (rebind_proc_spawners v ns pid nx))). grants v pid B m"
proof -
  obtain ns1 nx1 where r: "(case mount_access_at ns ''/proc'' of None \<Rightarrow> (ns, nx)
     | Some access \<Rightarrow> (let (child_proc, nx') = for_spawner v (Some pid) ns (sc_credentials (pv_spawn v)) nx in
         (namespace_mount ''/proc'' (ProcTree child_proc) access (namespace_unmount ''/proc'' ns), nx'))) = (ns1, nx1)"
    (is "?r = _") by (metis prod.exhaust)
  have ns1: "\<forall>m \<in> set (ns_mounts ns1). grants v pid B m"
  proof (cases "mount_access_at ns ''/proc''")
    case (Some a)
    show ?thesis using r grants_rebind1 [OF assms Some, of PRoot nx] Some by (simp add: for_spawner_def proc_paths)
  qed (use r assms in simp)
  have eq: "rebind_proc_spawners v ns pid nx = (case mount_access_at ns1 ''/proc/clone'' of
      None \<Rightarrow> (ns1, nx1)
    | Some access \<Rightarrow> (namespace_mount ''/proc/clone'' (ProcTree (ProcFs nx1 PClone
        (SpawnContext (Some pid) (Snapshot ns1) (sc_credentials (pv_spawn v))) (pv_runner v))) access
        (namespace_unmount ''/proc/clone'' ns1), nx1 + 1))"
    unfolding rebind_proc_spawners_def Let_def [of "sc_credentials _"] r
    by (simp add: clone_file_for_spawner_def for_spawner_def split: option.split)
  show ?thesis
  proof (cases "mount_access_at ns1 ''/proc/clone''")
    case (Some a)
    show ?thesis using grants_rebind1 [OF ns1 Some, of PClone nx1] Some by (simp add: eq proc_paths)
  qed (use ns1 eq in simp)
qed

lemma grants_restrict:
  assumes "restrict_to_mounts ns req = Some ns'" "\<forall>m \<in> set (ns_mounts ns). grants v pid B m"
  shows "\<forall>m \<in> set (ns_mounts ns'). grants v pid B m"
proof
  fix m' assume "m' \<in> set (ns_mounts ns')"
  moreover obtain explicit where e: "explicit_ok (ns_mounts ns) explicit"
    "\<And>m'. m' \<in> set (ns_mounts ns') \<longleftrightarrow> (\<exists>i a. i < length (ns_mounts ns) \<and>
       restricted_access (ns_mounts ns) explicit i = Some a \<and>
       m' = Mount (mount_prefix (ns_mounts ns ! i)) (mount_tree (ns_mounts ns ! i)) a)"
    by (rule restrict_mounts [OF assms(1)]) blast
  ultimately obtain i a where i: "i < length (ns_mounts ns)" "restricted_access (ns_mounts ns) explicit i = Some a"
      "m' = Mount (mount_prefix (ns_mounts ns ! i)) (mount_tree (ns_mounts ns ! i)) a"
    by blast
  then show "grants v pid B m'"
    using grants_weaken [OF bspec [OF assms(2) nth_mem [OF i(1)]] restricted_access_le [OF e(1) i(1,2)]] by simp
qed

text \<open>The mounts of the spawner as a child sees them: its own pid is put for the placeholder.\<close>

definition spawner_mounts :: "'x ktree proc_fs \<Rightarrow> pid \<Rightarrow> 'x proc_state \<Rightarrow> 'x ktree mount set" where
  "spawner_mounts v pid s = set (ns_mounts (child_with_path_substitution CHILD_PID_PLACEHOLDER (show_nat (unat pid))
     (source_snapshot (ps_heap s) (sc_namespace (pv_spawn v)))))"

lemma grants_child:
  "\<forall>m \<in> set (ns_mounts (fst (fst (child_namespace_for_spawn (ps_heap s) v pid nx)))).
     grants v pid (spawner_mounts v pid s) m"
proof -
  let ?ns = "fst (source_child (ps_heap s) (sc_namespace (pv_spawn v)) CHILD_PID_PLACEHOLDER (show_nat (unat pid)))"
  have "set (ns_mounts ?ns) = spawner_mounts v pid s"
    by (simp add: spawner_mounts_def source_child_def source_snapshot_def case_prod_beta)
  then have "\<forall>m \<in> set (ns_mounts ?ns). grants v pid (spawner_mounts v pid s) m"
    by (metis inherited mount.collapse order_refl)
  from grants_rebind [OF this] show ?thesis by (simp add: child_namespace_for_spawn_def case_prod_beta Let_def)
qed

lemma open_clone_slot:
  assumes "proc_open v fid mode s = (Inr q, s')" "proc_node_of s (fid_key v fid) (pv_root_node v) = Inr PClone"
  shows "holders s' (fid_key v fid) = Some (pt_next (ps_table s))"
    "\<exists>p. slots s' (pt_next (ps_table s)) = Some p \<and> pend_parent p = sc_parent (pv_spawn v) \<and>
       pend_credentials p = sc_credentials (pv_spawn v) \<and>
       (\<forall>m \<in> set (ns_mounts (pend_namespace p)).
          grants v (pt_next (ps_table s)) (spawner_mounts v (pt_next (ps_table s)) s) m)"
  using assms grants_child [of s v "pt_next (ps_table s)" "ps_next_view_id s"]
  by (auto simp: proc_open_def proc_open_clone_def slots_def holders_def Let_def case_prod_beta
      clone_begin_with_namespace_generation_def alloc_pid_def split: if_splits)

lemma clunk_commits:
  assumes clunk: "proc_clunk parse_exec v fid s = (Inr (), s')" and "holders s (fid_key v fid) = Some pid"
    "fid \<noteq> ROOT \<or> pv_root_node v = PClone" and slot: "slots s pid = Some p"
    and ns: "\<forall>m \<in> set (ns_mounts (pend_namespace p)). grants v pid B m"
  shows "\<exists>proc. pt_get (ps_table s') pid = Some proc \<and> proc_parent proc = pend_parent p \<and>
    proc_credentials proc = pend_credentials p \<and> proc_status proc = Running \<and>
    (\<forall>m \<in> set (ns_mounts (proc_namespace proc)). grants v pid B m)"
proof -
  obtain f where f: "ps_fids s (fid_key v fid) = Some f" "pf_clone_pid f = Some pid"
    using assms(2) by (auto simp: holders_def split: Option.bind_splits)
  let ?s = "s\<lparr>ps_fids := (ps_fids s)(fid_key v fid := None)\<rparr>"
  have eq: "proc_clunk_fid parse_exec v f ?s = (Inr (), s')" using clunk f assms(3) by (auto simp: proc_clunk_def)
  then obtain exec inv s1 where exec: "parse_exec (pf_write_buf f) = Some exec"
      and commit: "commit_process v pid exec ?s = (Inr inv, s1)" and s': "s' = launch v inv s1"
    using f(2) by (auto simp: proc_clunk_fid_def split: if_splits option.splits prod.splits sum.splits)
  from commit show ?thesis
  proof (cases rule: commit_process_cases)
    case (committed pend ns' nx)
    then have p: "bt_get (pt_pending (ps_table s)) pid = Some p" "pend = p" using slot by (simp_all add: slots_def)
    obtain nar where nar: "restrict_to_mounts (pend_namespace p) (normalized_access_mounts (exec_namespace exec)) = Some nar"
        "ns' = fst (rebind_proc_spawners v nar pid (ps_next_view_id s))"
      using committed(3) p by (auto simp: narrowed_namespace_def pending_namespace_def namespace_subset_from_def)
    have "\<forall>m \<in> set (ns_mounts ns'). grants v pid B m"
      unfolding nar(2) by (rule grants_rebind [OF grants_restrict [OF nar(1) ns]])
    then show ?thesis using p committed s'
      by (simp add: replace_pending_namespace_def pt_commit_def pt_get_def)
  qed simp
qed

text \<open>
  (C26) Spawning never amplifies authority: whatever happens between the open of \<open>clone\<close> and its
  clunk, a successful clunk commits a process whose parent and credentials are those of the view's
  spawn context and whose every mount is one the spawner held when it opened \<open>clone\<close>, with at most
  that access; a rebound \<open>/proc\<close> names the child as parent, keeps the spawner's credentials, and
  can hand only such mounts on to grandchildren.
\<close>

theorem spawn_authority_confined:
  assumes "s0 = proc_run js before (proc_state_new heap n)"
    and "proc_node_of s0 (fid_key v fid) (pv_root_node v) = Inr PClone" "proc_open v fid mode s0 = (Inr q, s1)"
    and "\<forall>op \<in> set between. op_releases op \<noteq> Some (fid_key v fid)" "s2 = proc_run js between s1"
    and "length before + length between < 2 ^ 64 - 2"
    and "fid \<noteq> ROOT \<or> pv_root_node v = PClone" "proc_clunk (snd js) v fid s2 = (Inr (), s3)"
  shows "\<exists>pid proc. slots s1 pid \<noteq> None \<and> slots s0 pid = None \<and> pt_get (ps_table s3) pid = Some proc \<and>
    proc_parent proc = sc_parent (pv_spawn v) \<and> proc_credentials proc = sc_credentials (pv_spawn v) \<and>
    proc_status proc = Running \<and>
    (\<forall>m \<in> set (ns_mounts (proc_namespace proc)). grants v pid (spawner_mounts v pid s0) m)"
proof -
  let ?pid = "pt_next (ps_table s0)"
  have s0: "proc_inv s0" "unat ?pid \<le> 1 + length before"
    using proc_run_inv [OF proc_inv_new, of heap n before js] assms(1,6) by (simp_all add: proc_state_new_def process_table_new_def)
  have s1: "s1 = proc_apply js (PCall v (ReqOpen fid mode)) s0"
    using assms(3) by (simp add: proc_server_def ready_def)
  have small: "unat ?pid + 1 + length between < 2 ^ 64" using s0(2) assms(6) by simp
  then have nx: "unat (?pid + 1) = unat ?pid + 1" "?pid \<noteq> - 1" by (intro word_next; simp)+
  have inv1: "proc_inv s1" unfolding s1 by (rule proc_apply_inv [OF s0(1) nx(2)])
  obtain k where "spawn_effect k s0 s1"
    using proc_apply_effect [of s0 "PCall v (ReqOpen fid mode)" js] s0(1) s1 by (auto simp: proc_inv_def)
  then have "unat (pt_next (ps_table s1)) + length between < 2 ^ 64"
    using spawn_effect_next [of k s0 s1] nx(1) small by auto
  note run = proc_run_inv [OF inv1 this, of js, THEN conjunct2, THEN conjunct2, rule_format, of "fid_key v fid" ?pid]
  note slot = open_clone_slot [OF assms(3,2)]
  then obtain p where p: "slots s1 ?pid = Some p" "pend_parent p = sc_parent (pv_spawn v)"
      "pend_credentials p = sc_credentials (pv_spawn v)"
      "\<forall>m \<in> set (ns_mounts (pend_namespace p)). grants v ?pid (spawner_mounts v ?pid s0) m"
    by blast
  have s2: "holders s2 (fid_key v fid) = Some ?pid" "slots s2 ?pid = Some p" using run slot(1) assms(4,5) p(1) by simp_all
  have "slots s0 ?pid = None" using pt_inv_next_free [of "ps_table s0"] s0(1) by (simp add: proc_inv_def slots_def)
  with clunk_commits [OF assms(8) s2(1) assms(7) s2(2) p(4)] p show ?thesis by auto
qed

theorem spawn_authority_confined_witness:
  "\<exists>pid proc. pt_get (ps_table (snd (proc_clunk (snd demo_json) demo_spawner 1
       (proc_run demo_json demo_opened demo_start)))) pid = Some proc \<and>
     proc_credentials proc = credentials_system \<and> ns_mounts (proc_namespace proc) \<noteq> [] \<and>
     (\<forall>m \<in> set (ns_mounts (proc_namespace proc)).
        grants demo_spawner pid (spawner_mounts demo_spawner pid (proc_run demo_json demo_walk demo_start)) m)"
proof -
  let ?s0 = "proc_run demo_json demo_walk demo_start" and ?s1 = "proc_run demo_json demo_opened demo_start"
  let ?open = "proc_open demo_spawner 1 OpenWrite ?s0" and ?clunk = "proc_clunk (snd demo_json) demo_spawner 1 ?s1"
  have "\<not> isl (fst ?open)" by code_simp
  moreover have "snd ?open = ?s1"
    by (simp add: demo_opened_def proc_run_def proc_server_def ready_def)
  ultimately have opened: "?open = (Inr (projr (fst ?open)), ?s1)" by (metis prod.collapse sum.collapse(2))
  have clunked: "?clunk = (Inr (), snd ?clunk)" by (rule prod_eqI) (code_simp, simp)
  have node: "proc_node_of ?s0 (fid_key demo_spawner 1) (pv_root_node demo_spawner) = Inr PClone" by code_simp
  have root: "(1 :: fid) \<noteq> ROOT \<or> pv_root_node demo_spawner = PClone" by code_simp
  have s0: "?s0 = proc_run demo_json demo_walk (proc_state_new (\<lambda>_. live_new namespace_new) 6)" by (simp add: demo_start_def)
  have one: "list_all (\<lambda>(pid, p). length (ns_mounts (proc_namespace p)) = 1) (pt_processes (ps_table (snd ?clunk)))" by code_simp
  obtain pid proc where proc: "pt_get (ps_table (snd ?clunk)) pid = Some proc"
      "proc_credentials proc = sc_credentials (pv_spawn demo_spawner)"
      "\<forall>m \<in> set (ns_mounts (proc_namespace proc)). grants demo_spawner pid (spawner_mounts demo_spawner pid ?s0) m"
    using spawn_authority_confined [OF s0 node opened, of "[]" ?s1, OF _ _ _ root clunked]
    by (auto simp: proc_run_def demo_walk_def)
  moreover have "ns_mounts (proc_namespace proc) \<noteq> []"
    using one proc(1) by (auto simp: pt_get_def list_all_iff dest!: map_of_SomeD)
  ultimately show ?thesis by (auto simp: demo_spawner_def)
qed

section \<open>Observing a process\<close>

lemma observe_read_result:
  assumes "length (stream_buf st) < 2 ^ 64" "unat off \<le> length (stream_buf st)"
  shows "observe_read st off (stream_len st) bs = Some (bs @ drop (unat off) (stream_buf st))"
  using assms(2)
proof (induction "length (stream_buf st) - unat off" arbitrary: off bs rule: less_induct)
  case less
  let ?buf = "stream_buf st" and ?len = "length (stream_buf st)"
  have len: "unat (stream_len st) = ?len" using assms(1) by (simp add: stream_len_def unat_of_nat take_bit_eq_mod)
  show ?case
  proof (cases "off < stream_len st")
    case True
    then have lt: "unat off < ?len" by (simp add: len word_less_nat_alt)
    define n where "n = min (?len - unat off) (2 ^ 32 - 1)"
    have "unat (stream_len st - off) = unat (stream_len st) - unat off"
      using True by (simp add: unat_sub order_less_imp_le)
    then have n: "unat (stream_len st - off) = ?len - unat off" "0 < n" "n \<le> ?len - unat off" "n < 2 ^ 32"
      using lt by (auto simp: n_def len)
    have cnt: "unat (of_nat n :: 32 word) = n" using n(4) by (simp add: unat_of_nat take_bit_eq_mod)
    let ?chunk = "take n (drop (unat off) ?buf)"
    have chunk: "stream_read st off (of_nat (min (unat (stream_len st - off)) (2 ^ 32 - 1))) = Some ?chunk"
      unfolding n(1) n_def [symmetric] using lt cnt by (simp add: stream_read_alt)
    have clen: "length ?chunk = n" "?chunk \<noteq> []" using n(2,3) lt by auto
    have off': "unat (off + of_nat (length ?chunk)) = unat off + n"
      unfolding clen(1) using n(3) lt assms(1) by (subst unat_add_lem [THEN iffD1]) (simp_all add: unat_of_nat take_bit_eq_mod)
    have "observe_read st off (stream_len st) bs =
        observe_read st (off + of_nat (length ?chunk)) (stream_len st) (bs @ ?chunk)"
      using True chunk clen(2) by (subst observe_read.simps) simp
    also have "\<dots> = Some ((bs @ ?chunk) @ drop (unat (off + of_nat (length ?chunk))) ?buf)"
      by (rule less.hyps) (use off' n lt in auto)
    also have "(bs @ ?chunk) @ drop (unat (off + of_nat (length ?chunk))) ?buf = bs @ drop (unat off) ?buf"
      unfolding off' using append_take_drop_id [of n "drop (unat off) ?buf"] by (simp add: add.commute)
    finally show ?thesis .
  next
    case False
    then have "unat off = ?len" using less.prems len by (simp add: word_less_nat_alt)
    then show ?thesis using False by (subst observe_read.simps) simp
  qed
qed

text \<open>
  (C28) Observing a committed process always returns: the loop that reads the output stream in
  \<open>u32\<close>-sized chunks ends after finitely many reads, none of which parks, and yields the retained
  output byte for byte together with its length, the status and the exit code.
\<close>

theorem observation_terminates:
  assumes "pt_get (ps_table s) pid = Some p" "\<forall>st. ps_outputs s pid = Some st \<longrightarrow> length (stream_buf st) < 2 ^ 64"
  shows "\<exists>snap. observe_process_files pid s = Some (Some snap) \<and> pfs_status snap = proc_status p \<and>
    pfs_exit_code snap = proc_exit_code p \<and>
    pfs_output snap = (case ps_outputs s pid of None \<Rightarrow> [] | Some st \<Rightarrow> stream_buf st) \<and>
    unat (pfs_output_offset snap) = length (pfs_output snap)"
proof (cases "ps_outputs s pid")
  case (Some st)
  then have "observe_read st 0 (stream_len st) [] = Some (stream_buf st)" "unat (stream_len st) = length (stream_buf st)"
    using observe_read_result [of st 0 "[]"] assms(2) by (simp_all add: stream_len_def unat_of_nat take_bit_eq_mod)
  then show ?thesis using Some assms(1) by (simp add: observe_process_files_def)
qed (use assms(1) in \<open>simp add: observe_process_files_def\<close>)

theorem observation_terminates_witness:
  "\<exists>snap. observe_process_files 1 (append_output 1 ''hi'' (snd (proc_clunk (snd demo_json) demo_spawner 1
       (proc_run demo_json demo_opened demo_start)))) = Some (Some snap) \<and> pfs_output snap = ''hi'' \<and> pfs_status snap = Running"
proof -
  let ?s = "append_output 1 ''hi'' (snd (proc_clunk (snd demo_json) demo_spawner 1 (proc_run demo_json demo_opened demo_start)))"
  have out: "map_option stream_buf (ps_outputs ?s 1) = Some ''hi''" by code_simp
  have "map_option proc_status (pt_get (ps_table ?s) 1) = Some Running" by code_simp
  then obtain p where p: "pt_get (ps_table ?s) 1 = Some p" "proc_status p = Running" by blast
  show ?thesis using observation_terminates [OF p(1)] p(2) out by auto
qed

end
