(* ===== verification/Route_Fs.thy ===== *)
theory Route_Fs
  imports AP_Server "HOL-Library.Code_Target_Nat"
begin

text \<open>
  The message router (\<open>crates/routefs/src/lib.rs\<close>): messages written to \<open>send\<close> are matched against
  the rule files in name order when the fid is clunked, and the routed record is appended to the
  stream of the destination port and to the log. The JSON codec (\<open>serde_json\<close>) and the standard
  library's default hasher are parameters; a JSON value is only ever looked at through them.
\<close>

section \<open>Rules and messages\<close>

record rule_spec =
  rule_version :: u16
  rule_match_type :: "string option"
  rule_content_contains :: "string option"
  rule_port :: string
  rule_reason :: "string option"

record 'j message_document =
  msg_type :: string
  msg_content :: string
  msg_raw :: 'j

record 'j routed_record =
  rr_version :: u16
  rr_port :: string
  rr_rule :: string
  rr_reason :: "string option"
  rr_message :: 'j

record 'j route_json =
  rj_value :: "bytes \<Rightarrow> 'j option"
  rj_object :: "'j \<Rightarrow> (string \<rightharpoonup> 'j) option"
  rj_as_u64 :: "'j \<Rightarrow> u64 option"
  rj_as_str :: "'j \<Rightarrow> string option"
  rj_rule :: "bytes \<Rightarrow> rule_spec option"
  rj_rule_bytes :: "rule_spec \<Rightarrow> bytes option"
  rj_record_bytes :: "'j routed_record \<Rightarrow> bytes option"

definition DEAD_LETTER_PORT :: string where
  "DEAD_LETTER_PORT = ''dead-letter''"

definition route_max_doc_bytes :: nat where
  "route_max_doc_bytes = 2 ^ 20"

definition route_valid_name :: "string \<Rightarrow> bool" where
  "route_valid_name name \<longleftrightarrow> name \<noteq> [] \<and> CHR ''/'' \<notin> set name \<and> newline \<notin> set name"

definition for_type :: "string \<Rightarrow> string \<Rightarrow> rule_spec" where
  "for_type message_type port =
     \<lparr>rule_version = 1, rule_match_type = Some message_type, rule_content_contains = None,
      rule_port = port, rule_reason = None\<rparr>"

definition with_content_contains :: "string \<Rightarrow> rule_spec \<Rightarrow> rule_spec" where
  "with_content_contains content spec = spec\<lparr>rule_content_contains := Some content\<rparr>"

definition with_reason :: "string \<Rightarrow> rule_spec \<Rightarrow> rule_spec" where
  "with_reason reason spec = spec\<lparr>rule_reason := Some reason\<rparr>"

definition rule_validate :: "rule_spec \<Rightarrow> unit res" where
  "rule_validate spec =
     (if rule_version spec \<noteq> 1 \<or> \<not> route_valid_name (rule_port spec) then Err BadRequest
      else if rule_match_type spec = Some [] \<or> rule_content_contains spec = Some [] then Err BadRequest
      else Ok ())"

definition rule_matches :: "rule_spec \<Rightarrow> 'j message_document \<Rightarrow> bool" where
  "rule_matches spec message \<longleftrightarrow>
     (case rule_match_type spec of None \<Rightarrow> True | Some expected \<Rightarrow> expected = msg_type message) \<and>
     (case rule_content_contains spec of None \<Rightarrow> True | Some needle \<Rightarrow> str_contains (msg_content message) needle)"

definition message_parse :: "'j route_json \<Rightarrow> bytes \<Rightarrow> 'j message_document res" where
  "message_parse j bs =
     (case rj_value j bs of
        None \<Rightarrow> Err BadRequest
      | Some raw \<Rightarrow>
          (case rj_object j raw of
             None \<Rightarrow> Err BadRequest
           | Some obj \<Rightarrow>
               (case Option.bind (obj ''version'') (rj_as_u64 j) of
                  None \<Rightarrow> Err BadRequest
                | Some version \<Rightarrow>
                    if 2 ^ 16 \<le> unat version then Err BadRequest
                    else
                      (case Option.bind (obj ''type'') (rj_as_str j) of
                         None \<Rightarrow> Err BadRequest
                       | Some message_type \<Rightarrow>
                           (case Option.bind (obj ''content'') (rj_as_str j) of
                              None \<Rightarrow> Err BadRequest
                            | Some content \<Rightarrow>
                                if version \<noteq> 1 \<or> message_type = [] then Err BadRequest
                                else Ok \<lparr>msg_type = message_type, msg_content = content, msg_raw = raw\<rparr>)))))"

section \<open>State\<close>

record rule_entry =
  re_spec :: rule_spec
  re_source :: bytes

datatype route_node = RouteRoot | RouteSend | RulesDir | Rule string | PortsDir | Port string | RouteLog

record route_fid =
  rf_node :: route_node
  rf_mode :: "open_mode option"
  rf_write_buf :: bytes
  rf_wrote :: bool
  rf_pending_rule_create :: bool
  rf_observed_rule_version :: "u32 option"

record route_state =
  rs_rules :: "(string, rule_entry) btree"
  rs_pending_rules :: "string set"
  rs_ports :: "(string, stream) btree"
  rs_log :: stream
  rs_versions :: version_table
  rs_fids :: "fid \<rightharpoonup> route_fid"

definition routefs_new :: route_state where
  "routefs_new = \<lparr>rs_rules = [], rs_pending_rules = {}, rs_ports = [(DEAD_LETTER_PORT, stream_new)],
     rs_log = stream_new, rs_versions = vt_new, rs_fids = Map.empty\<rparr>"

definition route_fid_at :: "route_node \<Rightarrow> qid \<Rightarrow> route_fid" where
  "route_fid_at node qid =
     \<lparr>rf_node = node, rf_mode = None, rf_write_buf = [], rf_wrote = False, rf_pending_rule_create = False,
      rf_observed_rule_version = (case node of Rule _ \<Rightarrow> Some (qid_version qid) | _ \<Rightarrow> None)\<rparr>"

definition pending_rule_fid :: "route_node \<Rightarrow> route_fid" where
  "pending_rule_fid node =
     \<lparr>rf_node = node, rf_mode = None, rf_write_buf = [], rf_wrote = False, rf_pending_rule_create = True,
      rf_observed_rule_version = None\<rparr>"

fun route_node_identity :: "(string \<Rightarrow> u64) \<Rightarrow> route_node \<Rightarrow> file_kind \<times> u64" where
  "route_node_identity hasher RouteRoot = (KDir, hasher ''/'')"
| "route_node_identity hasher RouteSend = (KFile, hasher ''send'')"
| "route_node_identity hasher RulesDir = (KDir, hasher ''rules'')"
| "route_node_identity hasher (Rule name) = (KFile, hasher (''rules/'' @ name))"
| "route_node_identity hasher PortsDir = (KDir, hasher ''ports'')"
| "route_node_identity hasher (Port name) = (KStream, hasher (''ports/'' @ name))"
| "route_node_identity hasher RouteLog = (KStream, hasher ''log'')"

definition route_node_of :: "route_state \<Rightarrow> fid \<Rightarrow> route_node res" where
  "route_node_of s fid = (if fid = ROOT then Ok RouteRoot else ok_or (map_option rf_node (rs_fids s fid)) NotFound)"

definition route_qid :: "(string \<Rightarrow> u64) \<Rightarrow> route_state \<Rightarrow> route_node \<Rightarrow> qid" where
  "route_qid hasher s node =
     (let (kind, path) = route_node_identity hasher node in
      \<lparr>qid_kind = kind, qid_version = vt_get (rs_versions s) path, qid_path = path\<rparr>)"

definition route_child :: "route_state \<Rightarrow> route_node \<Rightarrow> string \<Rightarrow> route_node res" where
  "route_child s node name =
     (case node of
        RouteRoot \<Rightarrow>
          if name = ''send'' then Ok RouteSend
          else if name = ''rules'' then Ok RulesDir
          else if name = ''ports'' then Ok PortsDir
          else if name = ''log'' then Ok RouteLog
          else Err NotFound
      | RulesDir \<Rightarrow> if bt_has (rs_rules s) name then Ok (Rule name) else Err NotFound
      | PortsDir \<Rightarrow> if bt_has (rs_ports s) name then Ok (Port name) else Err NotFound
      | _ \<Rightarrow> Err NotDirectory)"

fun route_walk_names :: "route_state \<Rightarrow> route_node \<Rightarrow> string list \<Rightarrow> route_node res" where
  "route_walk_names s node [] = Ok node"
| "route_walk_names s node (name # names) =
     (case route_child s node name of Inl e \<Rightarrow> Err e | Inr child \<Rightarrow> route_walk_names s child names)"

definition route_computed_bytes :: "route_state \<Rightarrow> route_node \<Rightarrow> bytes res" where
  "route_computed_bytes s node =
     (case node of
        RouteRoot \<Rightarrow> Ok (join_with [newline] [''send'', ''rules'', ''ports'', ''log''])
      | RouteSend \<Rightarrow> Ok (''# routefs send: write one message JSON document, then clunk'' @ [newline])
      | RulesDir \<Rightarrow> Ok (join_with [newline] (bt_keys (rs_rules s)))
      | PortsDir \<Rightarrow> Ok (join_with [newline] (bt_keys (rs_ports s)))
      | Rule name \<Rightarrow> map_sum id re_source (ok_or (bt_get (rs_rules s) name) NotFound)
      | Port _ \<Rightarrow> Err Unsupported
      | RouteLog \<Rightarrow> Err Unsupported)"

definition route_stream_for :: "route_state \<Rightarrow> route_node \<Rightarrow> stream option" where
  "route_stream_for s node =
     (case node of Port name \<Rightarrow> bt_get (rs_ports s) name | RouteLog \<Rightarrow> Some (rs_log s) | _ \<Rightarrow> None)"

definition current_rule_version :: "(string \<Rightarrow> u64) \<Rightarrow> route_state \<Rightarrow> string \<Rightarrow> u32 option" where
  "current_rule_version hasher s name =
     (if bt_has (rs_rules s) name then Some (vt_get (rs_versions s) (snd (route_node_identity hasher (Rule name)))) else None)"

definition ensure_current_rule_fid :: "(string \<Rightarrow> u64) \<Rightarrow> route_state \<Rightarrow> route_fid \<Rightarrow> string \<Rightarrow> unit res" where
  "ensure_current_rule_fid hasher s f name =
     (if rf_pending_rule_create f then Ok ()
      else
        (case rf_observed_rule_version f of
           None \<Rightarrow> Err BadRequest
         | Some observed \<Rightarrow>
             (case current_rule_version hasher s name of
                None \<Rightarrow> Err NotFound
              | Some current \<Rightarrow> if observed \<noteq> current then Err BadRequest else Ok ())))"

definition ensure_port :: "(string \<Rightarrow> u64) \<Rightarrow> string \<Rightarrow> route_state \<Rightarrow> route_state" where
  "ensure_port hasher port s =
     (if bt_has (rs_ports s) port then s
      else s\<lparr>rs_ports := bt_insert port stream_new (rs_ports s),
             rs_versions := vt_bump (snd (route_node_identity hasher PortsDir)) (rs_versions s)\<rparr>)"

definition rule_source :: "'j route_json \<Rightarrow> rule_spec \<Rightarrow> bytes res" where
  "rule_source j spec = map_sum id (\<lambda>bs. bs @ [newline]) (ok_or (rj_rule_bytes j spec) BadRequest)"

definition routed_record_bytes :: "'j route_json \<Rightarrow> 'j routed_record \<Rightarrow> bytes res" where
  "routed_record_bytes j r = map_sum id (\<lambda>bs. bs @ [newline]) (ok_or (rj_record_bytes j r) BadRequest)"

definition install_rule ::
  "'j route_json \<Rightarrow> (string \<Rightarrow> u64) \<Rightarrow> string \<Rightarrow> rule_spec \<Rightarrow> route_state \<Rightarrow> unit res \<times> route_state" where
  "install_rule j hasher name spec s =
     (if \<not> route_valid_name name then (Err BadRequest, s)
      else if name \<in> rs_pending_rules s then (Err BadRequest, s)
      else
        (case rule_validate spec of
           Inl e \<Rightarrow> (Err e, s)
         | Inr _ \<Rightarrow>
             (case rule_source j spec of
                Inl e \<Rightarrow> (Err e, s)
              | Inr source \<Rightarrow>
                  (let s1 = s\<lparr>rs_rules := bt_insert name \<lparr>re_spec = spec, re_source = source\<rparr> (rs_rules s)\<rparr>;
                       s2 = ensure_port hasher (rule_port spec) s1
                   in (Ok (), s2\<lparr>rs_versions := vt_bump (snd (route_node_identity hasher (Rule name)))
                        (vt_bump (snd (route_node_identity hasher RulesDir)) (rs_versions s2))\<rparr>)))))"

text \<open>The first rule in name order that matches decides; unmatched messages go to the dead-letter port.\<close>

definition route_decision :: "route_state \<Rightarrow> 'j message_document \<Rightarrow> 'j routed_record" where
  "route_decision s message =
     (case find (\<lambda>(name, rule). rule_matches (re_spec rule) message) (rs_rules s) of
        Some (name, rule) \<Rightarrow>
          \<lparr>rr_version = 1, rr_port = rule_port (re_spec rule), rr_rule = name,
           rr_reason = rule_reason (re_spec rule), rr_message = msg_raw message\<rparr>
      | None \<Rightarrow>
          \<lparr>rr_version = 1, rr_port = DEAD_LETTER_PORT, rr_rule = ''dead-letter'',
           rr_reason = Some ''no matching rule'', rr_message = msg_raw message\<rparr>)"

definition route_message ::
  "'j route_json \<Rightarrow> (string \<Rightarrow> u64) \<Rightarrow> bytes \<Rightarrow> route_state \<Rightarrow> unit res \<times> route_state" where
  "route_message j hasher bs s =
     (case message_parse j bs of
        Inl e \<Rightarrow> (Err e, s)
      | Inr message \<Rightarrow>
          (let record = route_decision s message; s1 = ensure_port hasher (rr_port record) s in
           case routed_record_bytes j record of
             Inl e \<Rightarrow> (Err e, s1)
           | Inr line \<Rightarrow>
               (case bt_get (rs_ports s1) (rr_port record) of
                  None \<Rightarrow> (Err NotFound, s1)
                | Some st \<Rightarrow>
                    (Ok (), s1\<lparr>rs_ports := bt_insert (rr_port record) (stream_append line st) (rs_ports s1),
                       rs_log := stream_append line (rs_log s1)\<rparr>))))"

definition abandon_pending_rule :: "string \<Rightarrow> route_state \<Rightarrow> route_state" where
  "abandon_pending_rule name s = s\<lparr>rs_pending_rules := rs_pending_rules s - {name}\<rparr>"

definition commit_pending_rule ::
  "'j route_json \<Rightarrow> (string \<Rightarrow> u64) \<Rightarrow> string \<Rightarrow> rule_spec \<Rightarrow> route_state \<Rightarrow> unit res \<times> route_state" where
  "commit_pending_rule j hasher name spec s = install_rule j hasher name spec (abandon_pending_rule name s)"

section \<open>The file server\<close>

definition route_is_writable :: "route_node \<Rightarrow> bool" where
  "route_is_writable node \<longleftrightarrow> (case node of RouteSend \<Rightarrow> True | Rule _ \<Rightarrow> True | _ \<Rightarrow> False)"

definition route_walk ::
  "(string \<Rightarrow> u64) \<Rightarrow> fid \<Rightarrow> fid \<Rightarrow> string list \<Rightarrow> route_state \<Rightarrow> qid res \<times> route_state" where
  "route_walk hasher fid newfid names s =
     (if newfid = ROOT \<or> rs_fids s newfid \<noteq> None then (Err BadRequest, s)
      else
        (case route_node_of s fid of
           Inl e \<Rightarrow> (Err e, s)
         | Inr start \<Rightarrow>
             (case route_walk_names s start names of
                Inl e \<Rightarrow> (Err e, s)
              | Inr node \<Rightarrow>
                  (let qid = route_qid hasher s node in
                   (Ok qid, s\<lparr>rs_fids := (rs_fids s)(newfid \<mapsto> route_fid_at node qid)\<rparr>)))))"

text \<open>A write through a fid of an existing rule needs the version the fid was walked at.\<close>

definition ensure_rule_write :: "(string \<Rightarrow> u64) \<Rightarrow> route_state \<Rightarrow> fid \<Rightarrow> route_node \<Rightarrow> unit res" where
  "ensure_rule_write hasher s fid node =
     (case node of
        Rule name \<Rightarrow>
          (case rs_fids s fid of None \<Rightarrow> Err NotFound | Some f \<Rightarrow> ensure_current_rule_fid hasher s f name)
      | _ \<Rightarrow> Ok ())"

definition route_open ::
  "(string \<Rightarrow> u64) \<Rightarrow> fid \<Rightarrow> open_mode \<Rightarrow> route_state \<Rightarrow> qid res \<times> route_state" where
  "route_open hasher fid mode s =
     (case route_node_of s fid of
        Inl e \<Rightarrow> (Err e, s)
      | Inr node \<Rightarrow>
          if fid \<noteq> ROOT \<and> already_open rf_mode (rs_fids s fid) then (Err BadRequest, s)
          else if write_intent mode \<and> \<not> route_is_writable node then (Err NoAccess, s)
          else
            (case if write_intent mode then ensure_rule_write hasher s fid node else Ok () of
               Inl e \<Rightarrow> (Err e, s)
             | Inr _ \<Rightarrow>
                 if fid = ROOT then (Ok (route_qid hasher s node), s)
                 else
                   (case rs_fids s fid of
                      None \<Rightarrow> (Err NotFound, s)
                    | Some f \<Rightarrow>
                        (Ok (route_qid hasher s node), s\<lparr>rs_fids := (rs_fids s)(fid \<mapsto> f\<lparr>rf_mode := Some mode\<rparr>)\<rparr>))))"

definition route_read_allowed :: "route_state \<Rightarrow> fid \<Rightarrow> unit res" where
  "route_read_allowed s fid =
     (if fid = ROOT then Ok ()
      else
        (case rs_fids s fid of
           None \<Rightarrow> Err NotFound
         | Some f \<Rightarrow> if opened_for_read (rf_mode f) then Ok () else Err NoAccess))"

definition route_read :: "fid \<Rightarrow> offset \<Rightarrow> u32 \<Rightarrow> route_state \<Rightarrow> bytes poll \<times> route_state" where
  "route_read fid offset count s =
     (case route_read_allowed s fid of
        Inl e \<Rightarrow> (Some (Err e), s)
      | Inr _ \<Rightarrow>
          (case route_node_of s fid of
             Inl e \<Rightarrow> (Some (Err e), s)
           | Inr node \<Rightarrow>
               (case route_stream_for s node of
                  Some st \<Rightarrow> (map_option Ok (stream_read st offset count), s)
                | None \<Rightarrow> (Some (map_sum id (\<lambda>bs. slice bs offset count) (route_computed_bytes s node)), s))))"

definition route_write ::
  "(string \<Rightarrow> u64) \<Rightarrow> fid \<Rightarrow> offset \<Rightarrow> bytes \<Rightarrow> route_state \<Rightarrow> u32 res \<times> route_state" where
  "route_write hasher fid offset data s =
     (case route_node_of s fid of
        Inl e \<Rightarrow> (Err e, s)
      | Inr node \<Rightarrow>
          (case rs_fids s fid of
             None \<Rightarrow> (Err NotFound, s)
           | Some f \<Rightarrow>
               if \<not> opened_for_write (rf_mode f) then (Err NoAccess, s)
               else if \<not> route_is_writable node then (Err Unsupported, s)
               else
                 (case ensure_rule_write hasher s fid node of
                    Inl e \<Rightarrow> (Err e, s)
                  | Inr _ \<Rightarrow>
                      (case doc_write route_max_doc_bytes offset data (rf_write_buf f) of
                         Inl e \<Rightarrow> (Err e, s)
                       | Inr buf \<Rightarrow>
                           (Ok (of_nat (length data)),
                            s\<lparr>rs_fids := (rs_fids s)(fid \<mapsto> f\<lparr>rf_write_buf := buf, rf_wrote := True\<rparr>)\<rparr>)))))"

definition route_stat_length :: "route_state \<Rightarrow> route_node \<Rightarrow> u64 res" where
  "route_stat_length s node =
     (case node of
        Port _ \<Rightarrow> map_sum id stream_len (ok_or (route_stream_for s node) NotFound)
      | RouteLog \<Rightarrow> map_sum id stream_len (ok_or (route_stream_for s node) NotFound)
      | _ \<Rightarrow> map_sum id (\<lambda>bs. of_nat (length bs)) (route_computed_bytes s node))"

definition route_stat :: "(string \<Rightarrow> u64) \<Rightarrow> fid \<Rightarrow> route_state \<Rightarrow> stat res \<times> route_state" where
  "route_stat hasher fid s =
     (case route_node_of s fid of
        Inl e \<Rightarrow> (Err e, s)
      | Inr node \<Rightarrow>
          (map_sum id (\<lambda>len. \<lparr>stat_name = [], stat_qid = route_qid hasher s node, stat_length = len,
             stat_executable = False, stat_writable = route_is_writable node\<rparr>) (route_stat_length s node), s))"

definition route_create ::
  "(string \<Rightarrow> u64) \<Rightarrow> fid \<Rightarrow> fid \<Rightarrow> string \<Rightarrow> file_kind \<Rightarrow> route_state \<Rightarrow> qid res \<times> route_state" where
  "route_create hasher fid newfid name kind s =
     (if kind \<noteq> KFile \<or> \<not> route_valid_name name then (Err BadRequest, s)
      else if newfid = ROOT \<or> rs_fids s newfid \<noteq> None then (Err BadRequest, s)
      else
        (case route_node_of s fid of
           Inl e \<Rightarrow> (Err e, s)
         | Inr parent \<Rightarrow>
             if parent \<noteq> RulesDir \<or> bt_has (rs_rules s) name \<or> name \<in> rs_pending_rules s then (Err BadRequest, s)
             else
               (Ok (route_qid hasher s (Rule name)),
                s\<lparr>rs_pending_rules := insert name (rs_pending_rules s),
                  rs_fids := (rs_fids s)(newfid \<mapsto> pending_rule_fid (Rule name))\<rparr>)))"

definition route_remove :: "(string \<Rightarrow> u64) \<Rightarrow> fid \<Rightarrow> route_state \<Rightarrow> unit res \<times> route_state" where
  "route_remove hasher fid s =
     (case rs_fids s fid of
        None \<Rightarrow> (Err NotFound, s)
      | Some f \<Rightarrow>
          (case rf_node f of
             Rule name \<Rightarrow>
               (let removed = (\<lambda>s1. (Ok (), s1\<lparr>rs_versions := vt_bump (snd (route_node_identity hasher RulesDir)) (rs_versions s1),
                      rs_fids := (rs_fids s1)(fid := None)\<rparr>))
                in if rf_pending_rule_create f then
                     (if name \<in> rs_pending_rules s then removed (abandon_pending_rule name s) else (Err NotFound, s))
                   else
                     (case ensure_current_rule_fid hasher s f name of
                        Inl e \<Rightarrow> (Err e, s)
                      | Inr _ \<Rightarrow>
                          if bt_has (rs_rules s) name then removed (s\<lparr>rs_rules := bt_remove name (rs_rules s)\<rparr>)
                          else (Err NotFound, s)))
           | _ \<Rightarrow> (Err Unsupported, s)))"

definition route_clunk_rule ::
  "'j route_json \<Rightarrow> (string \<Rightarrow> u64) \<Rightarrow> route_fid \<Rightarrow> string \<Rightarrow> route_state \<Rightarrow> unit res \<times> route_state" where
  "route_clunk_rule j hasher f name s =
     (if rf_wrote f \<and> rf_pending_rule_create f then
        (case rj_rule j (rf_write_buf f) of
           None \<Rightarrow> (Err BadRequest, abandon_pending_rule name s)
         | Some spec \<Rightarrow> commit_pending_rule j hasher name spec s)
      else if rf_wrote f then
        (case ensure_current_rule_fid hasher s f name of
           Inl e \<Rightarrow> (Err e, s)
         | Inr _ \<Rightarrow>
             (case rj_rule j (rf_write_buf f) of
                None \<Rightarrow> (Err BadRequest, s)
              | Some spec \<Rightarrow> install_rule j hasher name spec s))
      else if rf_pending_rule_create f then (Ok (), abandon_pending_rule name s)
      else (Ok (), s))"

definition route_clunk ::
  "'j route_json \<Rightarrow> (string \<Rightarrow> u64) \<Rightarrow> fid \<Rightarrow> route_state \<Rightarrow> unit res \<times> route_state" where
  "route_clunk j hasher fid s =
     (if fid = ROOT then (Ok (), s)
      else
        (case rs_fids s fid of
           None \<Rightarrow> (Err NotFound, s)
         | Some f \<Rightarrow>
             (let s1 = s\<lparr>rs_fids := (rs_fids s)(fid := None)\<rparr> in
              case rf_node f of
                RouteSend \<Rightarrow> if rf_wrote f then route_message j hasher (rf_write_buf f) s1 else (Ok (), s1)
              | Rule name \<Rightarrow> route_clunk_rule j hasher f name s1
              | _ \<Rightarrow> (Ok (), s1))))"

definition route_server :: "'j route_json \<Rightarrow> (string \<Rightarrow> u64) \<Rightarrow> route_state file_server" where
  "route_server j hasher =
     \<lparr>fs_walk = (\<lambda>f n ns s. ready (route_walk hasher f n ns s)), fs_open = (\<lambda>f m s. ready (route_open hasher f m s)),
      fs_read = route_read, fs_write = (\<lambda>f off d s. ready (route_write hasher f off d s)),
      fs_stat = (\<lambda>f s. ready (route_stat hasher f s)),
      fs_create = (\<lambda>f n nm k s. ready (route_create hasher f n nm k s)),
      fs_remove = (\<lambda>f s. ready (route_remove hasher f s)), fs_clunk = (\<lambda>f s. ready (route_clunk j hasher f s))\<rparr>"

section \<open>Fids\<close>

definition route_live :: "route_state \<Rightarrow> fid set" where
  "route_live s = dom (rs_fids s) - {ROOT}"

lemma ensure_port_simps [simp]:
  "rs_fids (ensure_port hasher p s) = rs_fids s" "rs_rules (ensure_port hasher p s) = rs_rules s"
  "rs_pending_rules (ensure_port hasher p s) = rs_pending_rules s" "rs_log (ensure_port hasher p s) = rs_log s"
  by (simp_all add: ensure_port_def)

lemma install_rule_simps [simp]:
  "rs_fids (snd (install_rule j hasher name spec s)) = rs_fids s"
  "rs_pending_rules (snd (install_rule j hasher name spec s)) = rs_pending_rules s"
  "rs_log (snd (install_rule j hasher name spec s)) = rs_log s"
  by (simp_all add: install_rule_def Let_def split: sum.split)

lemma route_message_simps [simp]:
  "rs_fids (snd (route_message j hasher bs s)) = rs_fids s"
  "rs_rules (snd (route_message j hasher bs s)) = rs_rules s"
  "rs_pending_rules (snd (route_message j hasher bs s)) = rs_pending_rules s"
  by (simp_all add: route_message_def Let_def split: sum.split option.split)

lemma route_clunk_rule_fids [simp]: "rs_fids (snd (route_clunk_rule j hasher f name s)) = rs_fids s"
  by (simp add: route_clunk_rule_def commit_pending_rule_def abandon_pending_rule_def split: sum.split option.split)

lemma route_clunk_fids:
  "fid \<noteq> ROOT \<Longrightarrow> rs_fids (snd (route_clunk j hasher fid s)) = (rs_fids s)(fid := None)"
  by (auto simp: route_clunk_def Let_def split: option.split route_node.split)

interpretation route: fid_server "route_server j hasher" route_live
proof
  fix f s
  show "route_live (snd (fs_clunk (route_server j hasher) f s)) = route_live s - {f}"
    by (cases "f = ROOT") (auto simp: route_server_def route_live_def ready_def route_clunk_fids, simp_all add: route_clunk_def)
qed (auto simp: route_server_def route_live_def ready_def route_walk_def route_open_def route_read_def route_write_def
    route_stat_def route_create_def route_remove_def abandon_pending_rule_def Let_def
    split: option.splits sum.splits if_splits route_node.splits)

section \<open>The invariant\<close>

text \<open>The rule name a fid is creating.\<close>

definition rule_creator :: "route_state \<Rightarrow> fid \<Rightarrow> string option" where
  "rule_creator s fid =
     (case rs_fids s fid of
        None \<Rightarrow> None
      | Some f \<Rightarrow> if rf_pending_rule_create f then (case rf_node f of Rule name \<Rightarrow> Some name | _ \<Rightarrow> None) else None)"

text \<open>Every rule names a port that exists, and a rule name under creation belongs to exactly one fid
  and to no installed rule.\<close>

definition rule_ok :: "route_state \<Rightarrow> string \<times> rule_entry \<Rightarrow> bool" where
  "rule_ok s = (\<lambda>(name, e). route_valid_name name \<and> rule_validate (re_spec e) = Ok () \<and> bt_has (rs_ports s) (rule_port (re_spec e)))"

definition route_inv :: "route_state \<Rightarrow> bool" where
  "route_inv s \<longleftrightarrow> bt_inv (rs_rules s) \<and> bt_inv (rs_ports s) \<and> bt_has (rs_ports s) DEAD_LETTER_PORT \<and>
     (\<forall>r \<in> set (rs_rules s). rule_ok s r) \<and>
     rs_pending_rules s \<inter> set (bt_keys (rs_rules s)) = {} \<and> owns (rule_creator s) (rs_pending_rules s)"

lemma route_inv_new [simp]: "route_inv routefs_new"
proof -
  have "rule_creator routefs_new = (\<lambda>_. None)" by (rule ext) (simp add: rule_creator_def routefs_new_def)
  then show ?thesis by (simp add: route_inv_def routefs_new_def bt_has_def bt_inv_def)
qed

lemma ensure_port_has [simp]: "bt_has (rs_ports (ensure_port hasher p s)) q \<longleftrightarrow> q = p \<or> bt_has (rs_ports s) q"
  by (auto simp: ensure_port_def)

lemma rule_creator_same: "rs_fids s' = rs_fids s \<Longrightarrow> rule_creator s' = rule_creator s"
  by (rule ext) (simp add: rule_creator_def)

lemma rule_ok_ports: "rule_ok s r \<Longrightarrow> (\<And>p. bt_has (rs_ports s) p \<Longrightarrow> bt_has (rs_ports s') p) \<Longrightarrow> rule_ok s' r"
  by (auto simp: rule_ok_def)

lemma ensure_port_inv: "route_inv s \<Longrightarrow> bt_inv (rs_ports (ensure_port hasher p s))"
  by (simp add: ensure_port_def route_inv_def)

lemma install_rule_inv:
  assumes inv: "route_inv s"
  shows "route_inv (snd (install_rule j hasher name spec s))"
proof (cases "route_valid_name name \<and> name \<notin> rs_pending_rules s \<and> rule_validate spec = Ok () \<and> (\<exists>src. rule_source j spec = Ok src)")
  case True
  then obtain src where src: "rule_source j spec = Ok src" by blast
  let ?e = "\<lparr>re_spec = spec, re_source = src\<rparr>" and ?s = "snd (install_rule j hasher name spec s)"
  have rules: "rs_rules ?s = bt_insert name ?e (rs_rules s)" using True src by (simp add: install_rule_def Let_def)
  let ?s1 = "s\<lparr>rs_rules := bt_insert name ?e (rs_rules s)\<rparr>"
  have ports: "rs_ports ?s = rs_ports (ensure_port hasher (rule_port spec) ?s1)"
    using True src by (simp add: install_rule_def Let_def)
  have has: "bt_has (rs_ports ?s) q \<longleftrightarrow> q = rule_port spec \<or> bt_has (rs_ports s) q" for q unfolding ports by simp
  have "bt_inv (rs_ports ?s)" using inv unfolding ports by (simp add: ensure_port_def route_inv_def)
  moreover have "rule_ok ?s r" if "r \<in> set (rs_rules ?s)" for r
  proof (cases "r = (name, ?e)")
    case True
    then show ?thesis using \<open>_ \<and> name \<notin> _ \<and> _\<close> has by (simp add: rule_ok_def)
  next
    case False
    then have "r \<in> set (rs_rules s)" using that set_bt_insert [of name ?e "rs_rules s"] rules by auto
    then show ?thesis using inv has by (auto simp: route_inv_def intro: rule_ok_ports)
  qed
  moreover have "rule_creator ?s = rule_creator s" by (rule rule_creator_same) simp
  moreover have "rs_pending_rules s \<inter> set (bt_keys (bt_insert name ?e (rs_rules s))) = {}" "bt_inv (bt_insert name ?e (rs_rules s))"
    using inv True by (auto simp: route_inv_def)
  ultimately show ?thesis using inv has by (simp add: route_inv_def rules)
next
  case False
  then have "snd (install_rule j hasher name spec s) = s"
    by (auto simp: install_rule_def split: sum.split)
  with inv show ?thesis by simp
qed

lemma route_inv_fids:
  assumes "route_inv s" "rule_creator s' = rule_creator s" "rs_rules s' = rs_rules s" "rs_ports s' = rs_ports s"
    "rs_pending_rules s' = rs_pending_rules s"
  shows "route_inv s'"
  using assms by (simp add: route_inv_def rule_ok_def)

text \<open>The rules only name existing ports, so a message never meets a missing one.\<close>

lemma route_decision_port:
  assumes "route_inv s"
  shows "bt_has (rs_ports s) (rr_port (route_decision s m))"
proof (cases "find (\<lambda>(name, rule). rule_matches (re_spec rule) m) (rs_rules s)")
  case (Some r)
  then have "r \<in> set (rs_rules s)" by (metis find_Some_iff nth_mem)
  then have "rule_ok s r" using assms by (simp add: route_inv_def)
  then show ?thesis using Some by (auto simp: route_decision_def rule_ok_def split: prod.split)
qed (use assms in \<open>simp add: route_decision_def route_inv_def\<close>)

lemma route_message_effect:
  assumes inv: "route_inv s" and m: "message_parse j bs = Ok m" and l: "routed_record_bytes j (route_decision s m) = Ok line"
  obtains st where "bt_get (rs_ports s) (rr_port (route_decision s m)) = Some st"
    "route_message j hasher bs s = (Ok (), s\<lparr>rs_ports := bt_insert (rr_port (route_decision s m)) (stream_append line st) (rs_ports s),
       rs_log := stream_append line (rs_log s)\<rparr>)"
proof -
  let ?p = "rr_port (route_decision s m)"
  have has: "bt_has (rs_ports s) ?p" by (rule route_decision_port [OF inv])
  then obtain st where "bt_get (rs_ports s) ?p = Some st" by (auto simp: bt_has_def)
  then show ?thesis using that m l has by (simp add: route_message_def ensure_port_def)
qed

lemma route_message_fails:
  assumes inv: "route_inv s" and "\<nexists>m line. message_parse j bs = Ok m \<and> routed_record_bytes j (route_decision s m) = Ok line"
  shows "snd (route_message j hasher bs s) = s"
  using assms(2) route_decision_port [OF inv]
  by (auto simp: route_message_def ensure_port_def Let_def split: sum.split)

lemma route_message_inv:
  assumes inv: "route_inv s"
  shows "route_inv (snd (route_message j hasher bs s))"
proof (cases "\<exists>m line. message_parse j bs = Ok m \<and> routed_record_bytes j (route_decision s m) = Ok line")
  case True
  then obtain m line where m: "message_parse j bs = Ok m" "routed_record_bytes j (route_decision s m) = Ok line" by blast
  obtain st where "route_message j hasher bs s = (Ok (), s\<lparr>rs_ports := bt_insert (rr_port (route_decision s m)) (stream_append line st) (rs_ports s),
       rs_log := stream_append line (rs_log s)\<rparr>)"
    by (rule route_message_effect [OF inv m, of hasher])
  then have ports: "rs_ports (snd (route_message j hasher bs s)) =
      bt_insert (rr_port (route_decision s m)) (stream_append line st) (rs_ports s)"
    by simp
  have "rule_creator (snd (route_message j hasher bs s)) = rule_creator s" by (rule rule_creator_same) simp
  moreover have "\<And>q. bt_has (rs_ports s) q \<Longrightarrow> bt_has (rs_ports (snd (route_message j hasher bs s))) q" by (simp add: ports)
  moreover have "bt_inv (rs_ports (snd (route_message j hasher bs s)))" using inv by (simp add: ports route_inv_def)
  ultimately show ?thesis using inv rule_ok_ports [of s _ "snd (route_message j hasher bs s)"] by (simp add: route_inv_def)
next
  case False
  then show ?thesis using inv route_message_fails [OF inv, of j bs hasher] by simp
qed

lemma abandon_inv:
  assumes "route_inv s" "rule_creator s fid = Some name"
  shows "route_inv (abandon_pending_rule name (s\<lparr>rs_fids := (rs_fids s)(fid := None)\<rparr>))"
proof -
  let ?s = "abandon_pending_rule name (s\<lparr>rs_fids := (rs_fids s)(fid := None)\<rparr>)"
  have "rule_creator ?s = (rule_creator s)(fid := None)"
    by (rule ext) (simp add: rule_creator_def abandon_pending_rule_def)
  then have "owns (rule_creator ?s) (rs_pending_rules s - {name})"
    using owns_release [of "rule_creator s" "rs_pending_rules s" fid name] assms by (simp add: route_inv_def)
  then show ?thesis using assms(1) by (auto simp: route_inv_def rule_ok_def abandon_pending_rule_def)
qed

lemma drop_fid_inv:
  assumes "route_inv s" "rule_creator s fid = None"
  shows "route_inv (s\<lparr>rs_fids := (rs_fids s)(fid := None)\<rparr>)"
proof -
  have "rule_creator (s\<lparr>rs_fids := (rs_fids s)(fid := None)\<rparr>) = rule_creator s"
    using assms(2) by (intro ext) (simp add: rule_creator_def)
  then show ?thesis by (intro route_inv_fids [OF assms(1)]) simp_all
qed

lemma route_clunk_inv:
  assumes inv: "route_inv s"
  shows "route_inv (snd (route_clunk j hasher fid s))"
proof (cases "fid = ROOT \<or> rs_fids s fid = None")
  case False
  then obtain f where f: "rs_fids s fid = Some f" "fid \<noteq> ROOT" by blast
  let ?s = "s\<lparr>rs_fids := (rs_fids s)(fid := None)\<rparr>"
  show ?thesis
  proof (cases "rule_creator s fid")
    case None
    note inv' = drop_fid_inv [OF inv None]
    show ?thesis
    proof (cases "rf_node f")
      case (Rule name)
      then have "\<not> rf_pending_rule_create f" using None f by (simp add: rule_creator_def split: if_splits)
      then show ?thesis using f Rule inv'
        by (auto simp: route_clunk_def route_clunk_rule_def Let_def install_rule_inv split: sum.split option.split)
    qed (use f inv' in \<open>simp_all add: route_clunk_def Let_def route_message_inv\<close>)
  next
    case (Some name)
    then have node: "rf_node f = Rule name" "rf_pending_rule_create f"
      using f by (auto simp: rule_creator_def split: if_splits route_node.splits)
    note inv' = abandon_inv [OF inv Some]
    then show ?thesis using f node
      by (auto simp: route_clunk_def route_clunk_rule_def commit_pending_rule_def Let_def install_rule_inv split: option.split)
  qed
qed (use inv in \<open>auto simp: route_clunk_def\<close>)

lemma route_remove_inv:
  assumes inv: "route_inv s"
  shows "route_inv (snd (route_remove hasher fid s))"
proof (cases "fst (route_remove hasher fid s)")
  case (Inl e)
  then have "snd (route_remove hasher fid s) = s"
    by (auto simp: route_remove_def Let_def split: option.splits route_node.splits if_splits sum.splits)
  with inv show ?thesis by simp
next
  case (Inr u)
  then obtain f name where f: "rs_fids s fid = Some f" "rf_node f = Rule name"
    by (auto simp: route_remove_def split: option.splits route_node.splits)
  show ?thesis
  proof (cases "rf_pending_rule_create f")
    case True
    then have "rule_creator s fid = Some name" using f by (simp add: rule_creator_def)
    note inv' = abandon_inv [OF inv this]
    show ?thesis
      by (rule route_inv_fids [OF inv' rule_creator_same])
        (use Inr f True in \<open>auto simp: route_remove_def Let_def abandon_pending_rule_def split: if_splits\<close>)
  next
    case False
    then have "rule_creator s fid = None" using f by (simp add: rule_creator_def)
    note inv' = drop_fid_inv [OF inv this]
    let ?s' = "snd (route_remove hasher fid s)"
    have s': "rs_rules ?s' = bt_remove name (rs_rules s)" "rs_ports ?s' = rs_ports s" "rs_pending_rules ?s' = rs_pending_rules s"
      "rs_fids ?s' = (rs_fids s)(fid := None)"
      using Inr f False by (auto simp: route_remove_def Let_def split: sum.splits if_splits)
    have cr: "rule_creator ?s' = rule_creator (s\<lparr>rs_fids := (rs_fids s)(fid := None)\<rparr>)"
      by (rule rule_creator_same) (simp add: s')
    have sub: "set (bt_remove name (rs_rules s)) \<subseteq> set (rs_rules s)" by (rule set_bt_remove)
    then have "set (bt_keys (bt_remove name (rs_rules s))) \<subseteq> set (bt_keys (rs_rules s))" by auto
    then have "rs_pending_rules s \<inter> set (bt_keys (bt_remove name (rs_rules s))) = {}"
      using inv unfolding route_inv_def by blast
    then show ?thesis using inv inv' sub by (auto simp: route_inv_def s' cr rule_ok_def)
  qed
qed

lemma rule_creator_mode:
  "rule_creator (s\<lparr>rs_fids := (rs_fids s)(fid \<mapsto> f')\<rparr>) = rule_creator s"
  if "rs_fids s fid = Some f" "rf_pending_rule_create f' = rf_pending_rule_create f" "rf_node f' = rf_node f"
  using that by (intro ext) (simp add: rule_creator_def)

lemma route_walk_inv:
  assumes "route_inv s"
  shows "route_inv (snd (route_walk hasher fid newfid names s))"
proof (rule route_inv_fids [OF assms])
  show "rule_creator (snd (route_walk hasher fid newfid names s)) = rule_creator s"
    by (auto simp: route_walk_def rule_creator_def route_fid_at_def Let_def split: sum.split)
qed (simp_all add: route_walk_def Let_def split: sum.split)

lemma route_open_inv:
  assumes "route_inv s"
  shows "route_inv (snd (route_open hasher fid mode s))"
  by (rule route_inv_fids [OF assms])
    (auto simp: route_open_def rule_creator_mode split: sum.split option.split)

lemma route_write_inv:
  assumes "route_inv s"
  shows "route_inv (snd (route_write hasher fid off d s))"
  by (rule route_inv_fids [OF assms])
    (auto simp: route_write_def rule_creator_mode split: sum.split option.split)

lemma route_create_inv:
  assumes inv: "route_inv s"
  shows "route_inv (snd (route_create hasher fid newfid name kind s))"
proof (cases "fst (route_create hasher fid newfid name kind s)")
  case (Inr q)
  let ?s' = "snd (route_create hasher fid newfid name kind s)"
  have new: "\<not> bt_has (rs_rules s) name" "name \<notin> rs_pending_rules s" "rs_fids s newfid = None"
    and s': "?s' = s\<lparr>rs_pending_rules := insert name (rs_pending_rules s),
                  rs_fids := (rs_fids s)(newfid \<mapsto> pending_rule_fid (Rule name))\<rparr>"
    using Inr by (auto simp: route_create_def split: sum.splits if_splits)
  have "rule_creator ?s' = (rule_creator s)(newfid \<mapsto> name)"
    unfolding s' by (intro ext) (simp add: rule_creator_def pending_rule_fid_def)
  moreover have "rule_creator s newfid = None" using new by (simp add: rule_creator_def)
  ultimately have "owns (rule_creator ?s') (insert name (rs_pending_rules s))"
    using owns_acquire [of "rule_creator s" "rs_pending_rules s" newfid name] inv new by (simp add: route_inv_def)
  then show ?thesis using inv new by (simp add: s' route_inv_def rule_ok_def bt_has_iff)
next
  case (Inl e)
  then have "snd (route_create hasher fid newfid name kind s) = s"
    by (auto simp: route_create_def split: sum.splits if_splits)
  with inv show ?thesis by simp
qed

section \<open>Runs\<close>

datatype route_op = RouteCall request | RouteInstall string rule_spec

fun route_apply :: "'j route_json \<Rightarrow> (string \<Rightarrow> u64) \<Rightarrow> route_op \<Rightarrow> route_state \<Rightarrow> route_state" where
  "route_apply j hasher (RouteCall req) s = snd (in_process_call (route_server j hasher) req s)"
| "route_apply j hasher (RouteInstall name spec) s = snd (install_rule j hasher name spec s)"

definition route_run :: "'j route_json \<Rightarrow> (string \<Rightarrow> u64) \<Rightarrow> route_op list \<Rightarrow> route_state \<Rightarrow> route_state" where
  "route_run j hasher ops s = fold (route_apply j hasher) ops s"

lemma route_apply_inv: "route_inv s \<Longrightarrow> route_inv (route_apply j hasher op s)"
proof (induction j hasher op s rule: route_apply.induct)
  case (1 j hasher req s)
  then show ?case
    by (cases req) (simp_all add: route_server_def ready_def route_walk_inv route_open_inv route_write_inv route_create_inv
      route_remove_inv route_clunk_inv route_read_def route_stat_def split: sum.split option.split)
qed (simp add: install_rule_inv)

text \<open>What a request is expected to deliver: the clunk of a written \<open>send\<close> fid whose document is a
  message delivers one record, for the least rule name that matches it.\<close>

definition matching_rules :: "route_state \<Rightarrow> 'j message_document \<Rightarrow> string set" where
  "matching_rules s m = {name. \<exists>e. bt_get (rs_rules s) name = Some e \<and> rule_matches (re_spec e) m}"

definition expected_record :: "route_state \<Rightarrow> 'j message_document \<Rightarrow> 'j routed_record" where
  "expected_record s m =
     (if matching_rules s m = {} then
        \<lparr>rr_version = 1, rr_port = DEAD_LETTER_PORT, rr_rule = ''dead-letter'',
         rr_reason = Some ''no matching rule'', rr_message = msg_raw m\<rparr>
      else
        (let name = Min (matching_rules s m); spec = re_spec (the (bt_get (rs_rules s) name)) in
         \<lparr>rr_version = 1, rr_port = rule_port spec, rr_rule = name, rr_reason = rule_reason spec, rr_message = msg_raw m\<rparr>))"

definition sent_message :: "'j route_json \<Rightarrow> route_op \<Rightarrow> route_state \<Rightarrow> 'j message_document option" where
  "sent_message j op s =
     (case op of
        RouteCall (ReqClunk fid) \<Rightarrow>
          (case rs_fids s fid of
             Some f \<Rightarrow>
               if fid \<noteq> ROOT \<and> rf_node f = RouteSend \<and> rf_wrote f
               then (case message_parse j (rf_write_buf f) of Inr m \<Rightarrow> Some m | Inl _ \<Rightarrow> None) else None
           | None \<Rightarrow> None)
      | _ \<Rightarrow> None)"

fun route_history :: "'j route_json \<Rightarrow> (string \<Rightarrow> u64) \<Rightarrow> route_op list \<Rightarrow> route_state \<Rightarrow> 'j routed_record list" where
  "route_history j hasher [] s = []"
| "route_history j hasher (op # ops) s =
     (case sent_message j op s of
        None \<Rightarrow> []
      | Some m \<Rightarrow> if rj_record_bytes j (expected_record s m) = None then [] else [expected_record s m]) @
     route_history j hasher ops (route_apply j hasher op s)"

definition record_line :: "'j route_json \<Rightarrow> 'j routed_record \<Rightarrow> bytes" where
  "record_line j r = the (rj_record_bytes j r) @ [newline]"

text \<open>The streams hold exactly the delivered records, the log all of them and a port its own.\<close>

definition ledger :: "'j route_json \<Rightarrow> route_state \<Rightarrow> 'j routed_record list \<Rightarrow> bool" where
  "ledger j s ds \<longleftrightarrow> stream_buf (rs_log s) = concat (map (record_line j) ds) \<and>
     (\<forall>port st. bt_get (rs_ports s) port = Some st \<longrightarrow>
        stream_buf st = concat (map (record_line j) (filter (\<lambda>d. rr_port d = port) ds))) \<and>
     (\<forall>d \<in> set ds. bt_has (rs_ports s) (rr_port d))"

lemma find_split: "find P xs = Some x \<Longrightarrow> \<exists>pre post. xs = pre @ x # post \<and> P x \<and> (\<forall>y \<in> set pre. \<not> P y)"
proof (induction xs)
  case (Cons y ys)
  show ?case
  proof (cases "P y")
    case False
    then obtain pre post where "ys = pre @ x # post" "P x" "\<forall>y \<in> set pre. \<not> P y" using Cons by auto
    then have "y # ys = (y # pre) @ x # post \<and> P x \<and> (\<forall>z \<in> set (y # pre). \<not> P z)" using False by simp
    then show ?thesis by blast
  next
    case True
    then have "y # ys = [] @ x # ys \<and> P x \<and> (\<forall>z \<in> set []. \<not> P z)" using Cons.prems by simp
    then show ?thesis by blast
  qed
qed simp

lemma find_least:
  assumes "bt_inv m" "find (\<lambda>(k, v). P v) m = Some (k, v)"
  shows "k = Min {k. \<exists>v. bt_get m k = Some v \<and> P v}" "bt_get m k = Some v" "P v"
proof -
  obtain pre post where m: "m = pre @ (k, v) # post" "P v" "\<forall>p \<in> set pre. \<not> (\<lambda>(k, v). P v) p"
    using find_split [OF assms(2)] by auto
  have dist: "distinct (bt_keys m)" by (rule bt_inv_distinct [OF assms(1)])
  show "bt_get m k = Some v" using dist m(1) by (intro map_of_is_SomeI) auto
  show "P v" by (rule m(2))
  have "k \<le> k'" if "bt_get m k' = Some v'" "P v'" for k' v'
  proof -
    have "(k', v') \<in> set m" using that(1) by (rule map_of_SomeD)
    then have "(k', v') = (k, v) \<or> (k', v') \<in> set post" using m that(2) by auto
    moreover have "\<forall>x \<in> set (bt_keys post). k < x" using assms(1) unfolding bt_inv_def m(1) by (simp add: sorted_wrt_append)
    ultimately show ?thesis by force
  qed
  moreover have "finite {k. \<exists>v. bt_get m k = Some v \<and> P v}"
    by (rule finite_subset [OF _ finite_dom_map_of [of m]]) auto
  ultimately show "k = Min {k. \<exists>v. bt_get m k = Some v \<and> P v}"
    using \<open>bt_get m k = Some v\<close> m(2) by (intro Min_eqI [symmetric]) auto
qed

lemma route_decision_expected:
  assumes "route_inv s"
  shows "route_decision s m = expected_record s m"
proof (cases "find (\<lambda>(name, rule). rule_matches (re_spec rule) m) (rs_rules s)")
  case None
  have "matching_rules s m = {}"
  proof (rule ccontr)
    assume "matching_rules s m \<noteq> {}"
    then obtain name e where "bt_get (rs_rules s) name = Some e" "rule_matches (re_spec e) m"
      by (auto simp: matching_rules_def)
    then show False using None map_of_SomeD by (fastforce simp: find_None_iff)
  qed
  then show ?thesis using None by (simp add: route_decision_def expected_record_def)
next
  case (Some r)
  obtain name e where r: "r = (name, e)" by (cases r)
  have inv: "bt_inv (rs_rules s)" using assms by (simp add: route_inv_def)
  note least = find_least [OF inv Some [unfolded r]]
  have "name \<in> matching_rules s m" "name = Min (matching_rules s m)" using least by (simp_all add: matching_rules_def)
  then show ?thesis using Some r least(2) by (auto simp: route_decision_def expected_record_def Let_def)
qed

lemma ledger_same:
  "ledger j s ds \<Longrightarrow> rs_log s' = rs_log s \<Longrightarrow> rs_ports s' = rs_ports s \<Longrightarrow> ledger j s' ds"
  by (simp add: ledger_def)

lemma ledger_ensure_port: "ledger j s ds \<Longrightarrow> ledger j (ensure_port hasher p s) ds"
proof -
  assume l: "ledger j s ds"
  have "filter (\<lambda>d. rr_port d = p) ds = []" if "\<not> bt_has (rs_ports s) p"
    using l that by (auto simp: ledger_def filter_empty_conv)
  then show ?thesis using l by (auto simp: ledger_def ensure_port_def)
qed

lemma ledger_install: "ledger j s ds \<Longrightarrow> ledger j (snd (install_rule j' hasher name spec s)) ds"
proof -
  assume l: "ledger j s ds"
  have "ledger j (ensure_port hasher (rule_port spec) (s\<lparr>rs_rules := r\<rparr>)) ds" for r
    by (rule ledger_ensure_port) (simp add: ledger_same [OF l])
  then have "ledger j (ensure_port hasher (rule_port spec) (s\<lparr>rs_rules := r\<rparr>)\<lparr>rs_versions := v\<rparr>) ds" for r v
    by (rule ledger_same) simp_all
  then show ?thesis using l by (auto simp: install_rule_def Let_def split: sum.split)
qed

text \<open>One routed message is one more record in the log and in its port.\<close>

lemma ledger_append:
  assumes l: "ledger j s ds" and st: "bt_get (rs_ports s) (rr_port d) = Some st"
  shows "ledger j (s\<lparr>rs_ports := bt_insert (rr_port d) (stream_append (record_line j d) st) (rs_ports s),
       rs_log := stream_append (record_line j d) (rs_log s)\<rparr>) (ds @ [d])"
  using l st by (auto simp: ledger_def bt_has_def)

lemma record_line_bytes: "routed_record_bytes j r = Ok line \<longleftrightarrow> rj_record_bytes j r \<noteq> None \<and> line = record_line j r"
  by (cases "rj_record_bytes j r") (auto simp: routed_record_bytes_def record_line_def)

lemma ledger_message:
  assumes inv: "route_inv s" and l: "ledger j s ds"
  shows "ledger j (snd (route_message j hasher bs s)) (ds @ (case message_parse j bs of Inl _ \<Rightarrow> []
     | Inr m \<Rightarrow> if rj_record_bytes j (expected_record s m) = None then [] else [expected_record s m]))"
proof (cases "\<exists>m line. message_parse j bs = Ok m \<and> routed_record_bytes j (route_decision s m) = Ok line")
  case True
  then obtain m line where m: "message_parse j bs = Ok m" and b: "routed_record_bytes j (route_decision s m) = Ok line" by blast
  obtain st where st: "bt_get (rs_ports s) (rr_port (route_decision s m)) = Some st"
    and eq: "route_message j hasher bs s = (Ok (), s\<lparr>rs_ports := bt_insert (rr_port (route_decision s m)) (stream_append line st) (rs_ports s),
       rs_log := stream_append line (rs_log s)\<rparr>)"
    by (rule route_message_effect [OF inv m b, of hasher])
  have d: "route_decision s m = expected_record s m" by (rule route_decision_expected [OF inv])
  have line: "rj_record_bytes j (expected_record s m) \<noteq> None" "line = record_line j (expected_record s m)"
    using b by (simp_all add: record_line_bytes d)
  show ?thesis using ledger_append [OF l st] eq m line d by auto
next
  case False
  then have same: "snd (route_message j hasher bs s) = s" by (rule route_message_fails [OF inv])
  have "rj_record_bytes j (expected_record s m) = None" if "message_parse j bs = Ok m" for m
    using False that record_line_bytes [of j "expected_record s m"] route_decision_expected [OF inv, of m] by auto
  then show ?thesis using l unfolding same by (simp split: sum.split)
qed

lemma clunk_quiet_ledger:
  assumes l: "ledger j s ds"
    and not_send: "\<And>f. rs_fids s fid = Some f \<Longrightarrow> fid \<noteq> ROOT \<Longrightarrow> rf_node f = RouteSend \<Longrightarrow> \<not> rf_wrote f"
  shows "ledger j (snd (route_clunk j hasher fid s)) ds"
proof -
  have drop: "ledger j (s\<lparr>rs_fids := F\<rparr>) ds" "ledger j (s\<lparr>rs_fids := F, rs_pending_rules := R\<rparr>) ds" for F R
    by (simp_all add: ledger_same [OF l])
  have rule: "ledger j (snd (route_clunk_rule j hasher f name (s\<lparr>rs_fids := F\<rparr>))) ds" for f name F
    by (auto simp: route_clunk_rule_def commit_pending_rule_def abandon_pending_rule_def drop ledger_install
        split: option.split sum.split)
  show ?thesis using not_send
    by (auto simp: route_clunk_def Let_def drop rule l split: option.split route_node.split)
qed

lemma ledger_call:
  assumes inv: "route_inv s" and l: "ledger j s ds"
  shows "ledger j (route_apply j hasher op s) (ds @ (case sent_message j op s of None \<Rightarrow> []
     | Some m \<Rightarrow> if rj_record_bytes j (expected_record s m) = None then [] else [expected_record s m]))"
proof (cases "\<exists>fid f. op = RouteCall (ReqClunk fid) \<and> rs_fids s fid = Some f \<and> fid \<noteq> ROOT \<and> rf_node f = RouteSend \<and> rf_wrote f")
  case True
  then obtain fid f where f: "op = RouteCall (ReqClunk fid)" "rs_fids s fid = Some f" "fid \<noteq> ROOT" "rf_node f = RouteSend" "rf_wrote f"
    by blast
  let ?s = "s\<lparr>rs_fids := (rs_fids s)(fid := None)\<rparr>"
  have "rule_creator s fid = None" using f by (simp add: rule_creator_def)
  then have inv': "route_inv ?s" by (rule drop_fid_inv [OF inv])
  have l': "ledger j ?s ds" by (simp add: ledger_same [OF l])
  have "matching_rules ?s m = matching_rules s m" for m :: "'a message_document" by (simp add: matching_rules_def)
  then have same: "expected_record ?s m = expected_record s m" for m :: "'a message_document"
    unfolding expected_record_def by simp
  have "route_apply j hasher op s = snd (route_message j hasher (rf_write_buf f) ?s)"
    using f by (simp add: route_server_def ready_def route_clunk_def)
  then show ?thesis using ledger_message [OF inv' l', of hasher "rf_write_buf f", unfolded same] f
    by (cases "message_parse j (rf_write_buf f)") (simp_all add: sent_message_def)
next
  case False
  then have none: "sent_message j op s = None"
    by (auto simp: sent_message_def split: route_op.split request.split option.split)
  have "ledger j (route_apply j hasher op s) ds"
  proof (cases op)
    case (RouteCall req)
    show ?thesis
    proof (cases "\<exists>fid. req = ReqClunk fid")
      case True
      then obtain fid where req: "req = ReqClunk fid" by blast
      have "ledger j (snd (route_clunk j hasher fid s)) ds"
        by (rule clunk_quiet_ledger [OF l]) (use False RouteCall req in blast)
      then show ?thesis using RouteCall req by (simp add: route_server_def ready_def)
    next
      case False
      have "rs_log (route_apply j hasher op s) = rs_log s" "rs_ports (route_apply j hasher op s) = rs_ports s"
        using RouteCall False
        by (cases req; auto simp: route_server_def ready_def route_walk_def route_open_def route_read_def route_write_def
            route_stat_def route_create_def route_remove_def abandon_pending_rule_def Let_def
            split: option.split sum.split route_node.split)+
      then show ?thesis by (rule ledger_same [OF l])
    qed
  qed (simp add: ledger_install [OF l])
  then show ?thesis by (simp add: none)
qed

lemma ledger_run:
  "route_inv s \<Longrightarrow> ledger j s ds \<Longrightarrow> ledger j (route_run j hasher ops s) (ds @ route_history j hasher ops s)"
proof (induction ops arbitrary: s ds)
  case (Cons op ops)
  show ?case using Cons.IH [OF route_apply_inv [OF Cons.prems(1)] ledger_call [OF Cons.prems]]
    by (simp add: route_run_def)
qed (simp add: route_run_def)

text \<open>
  (C29) Every message is routed exactly once: whatever requests and rule installations have run, the
  log holds exactly the records of the messages committed by clunking a written \<open>send\<close> fid, in
  that order, each for the least rule name that matched it at that moment (or the dead-letter port
  when none did); every port's stream is the subsequence of the log for that port, and no record
  is for a port that does not exist.
\<close>

theorem messages_routed_exactly_once:
  "let s = route_run j hasher ops routefs_new; history = route_history j hasher ops routefs_new in
   stream_buf (rs_log s) = concat (map (record_line j) history) \<and>
   (\<forall>port. map_option stream_buf (bt_get (rs_ports s) port) =
      (if bt_has (rs_ports s) port then Some (concat (map (record_line j) (filter (\<lambda>d. rr_port d = port) history))) else None)) \<and>
   (\<forall>d \<in> set history. bt_has (rs_ports s) (rr_port d))"
proof -
  have "ledger j routefs_new []" by (simp add: ledger_def routefs_new_def)
  from ledger_run [OF route_inv_new this, of hasher ops]
  have "ledger j (route_run j hasher ops routefs_new) (route_history j hasher ops routefs_new)" by simp
  then show ?thesis by (auto simp: ledger_def Let_def bt_has_def)
qed

text \<open>A codec that takes any document as a message whose type is the document.\<close>

definition demo_route_json :: "string route_json" where
  "demo_route_json = \<lparr>rj_value = Some, rj_object = (\<lambda>v. Some (\<lambda>k. Some (if k = ''type'' then v else k))),
     rj_as_u64 = (\<lambda>_. Some 1), rj_as_str = Some, rj_rule = (\<lambda>_. None), rj_rule_bytes = (\<lambda>_. Some ''rule''),
     rj_record_bytes = (\<lambda>r. Some (rr_port r @ '' '' @ rr_message r))\<rparr>"

definition demo_route_ops :: "route_op list" where
  "demo_route_ops = [RouteInstall ''b'' (for_type ''x'' ''late''), RouteInstall ''a'' (for_type ''x'' ''early''),
     RouteCall (ReqWalk ROOT 1 [''send'']), RouteCall (ReqOpen 1 OpenWrite), RouteCall (ReqWrite 1 0 ''x''), RouteCall (ReqClunk 1)]"

theorem messages_routed_exactly_once_witness:
  "stream_buf (rs_log (route_run demo_route_json (\<lambda>_. 0) demo_route_ops routefs_new)) = ''early x'' @ [newline] \<and>
   concat (map (record_line demo_route_json) (route_history demo_route_json (\<lambda>_. 0) demo_route_ops routefs_new)) =
     ''early x'' @ [newline]"
proof -
  have "stream_buf (rs_log (route_run demo_route_json (\<lambda>_. 0) demo_route_ops routefs_new)) = ''early x'' @ [newline]"
    by code_simp
  then show ?thesis
    using messages_routed_exactly_once [of demo_route_json "\<lambda>_. 0" demo_route_ops] by (simp add: Let_def)
qed

end
