(* ===== verification/Rust_Text.thy ===== *)
theory Rust_Text
  imports AP_Prelude
begin

text \<open>
  More of Rust's \<open>str\<close>: Unicode white space, trimming, prefix and suffix tests,
  and incomplete UTF-8, with the saturating increment of its unsigned integers. Strings are UTF-8,
  so a white-space character is one of the encodings below wherever it starts at a character
  boundary.
\<close>

section \<open>White space\<close>

definition white_space :: "string list" where
  "white_space =
     map (\<lambda>b. [char_of (b :: nat)]) [9, 10, 11, 12, 13, 32] @
     map (map (char_of :: nat \<Rightarrow> char))
       ([[0xC2, 0x85], [0xC2, 0xA0], [0xE1, 0x9A, 0x80]] @
        map (\<lambda>b. [0xE2, 0x80, b]) [0x80, 0x81, 0x82, 0x83, 0x84, 0x85, 0x86, 0x87, 0x88, 0x89, 0x8A, 0xA8, 0xA9, 0xAF] @
        [[0xE2, 0x81, 0x9F], [0xE3, 0x80, 0x80]])"

lemma white_space_nonempty: "w \<in> set white_space \<Longrightarrow> w \<noteq> []"
  by (auto simp: white_space_def)

definition starts_with :: "string \<Rightarrow> string \<Rightarrow> bool" where
  "starts_with s pat \<longleftrightarrow> strip_prefix pat s \<noteq> None"

definition ends_with :: "string \<Rightarrow> string \<Rightarrow> bool" where
  "ends_with s pat \<longleftrightarrow> strip_prefix (rev pat) (rev s) \<noteq> None"

lemma starts_with_iff: "starts_with s pat \<longleftrightarrow> (\<exists>r. s = pat @ r)"
  by (auto simp: starts_with_def strip_prefix_Some)

lemma ends_with_iff: "ends_with s pat \<longleftrightarrow> (\<exists>r. s = r @ pat)"
proof -
  have "ends_with s pat \<longleftrightarrow> (\<exists>r. rev s = rev pat @ r)" by (auto simp: ends_with_def strip_prefix_Some)
  also have "\<dots> \<longleftrightarrow> (\<exists>r. s = r @ pat)" by (metis rev_append rev_rev_ident)
  finally show ?thesis .
qed

definition white_at :: "string \<Rightarrow> string option" where
  "white_at s = find (starts_with s) white_space"

definition white_before_end :: "string \<Rightarrow> string option" where
  "white_before_end s = find (ends_with s) white_space"

lemma find_holds: "find P xs = Some x \<Longrightarrow> x \<in> set xs \<and> P x"
  by (metis find_Some_iff nth_mem)

lemma white_at_Some: "white_at s = Some w \<Longrightarrow> w \<in> set white_space \<and> w \<noteq> [] \<and> (\<exists>r. s = w @ r)"
  using white_space_nonempty by (auto simp: white_at_def starts_with_iff dest: find_holds)

lemma white_before_end_Some: "white_before_end s = Some w \<Longrightarrow> w \<in> set white_space \<and> w \<noteq> [] \<and> (\<exists>r. s = r @ w)"
  using white_space_nonempty by (auto simp: white_before_end_def ends_with_iff dest: find_holds)

function trim_start :: "string \<Rightarrow> string" where
  "trim_start s = (case white_at s of None \<Rightarrow> s | Some w \<Rightarrow> trim_start (drop (length w) s))"
  by pat_completeness auto
termination
  by (relation "measure length") (auto dest!: white_at_Some)

function trim_end :: "string \<Rightarrow> string" where
  "trim_end s = (case white_before_end s of None \<Rightarrow> s | Some w \<Rightarrow> trim_end (take (length s - length w) s))"
  by pat_completeness auto
termination
  by (relation "measure length") (auto dest!: white_before_end_Some)

declare trim_start.simps [simp del] trim_end.simps [simp del]

definition trim :: "string \<Rightarrow> string" where
  "trim s = trim_end (trim_start s)"

text \<open>The bytes that can begin and end a white-space character.\<close>

lemma white_space_ends:
  "w \<in> set white_space \<Longrightarrow> of_char (hd w) \<in> {9, 10, 11, 12, 13, 32, 0xC2, 0xE1, 0xE2, 0xE3 :: nat}"
  "w \<in> set white_space \<Longrightarrow> (of_char (last w) :: nat) \<in> {9, 10, 11, 12, 13, 32} \<or> 0x80 \<le> (of_char (last w) :: nat)"
  by (auto simp: white_space_def)

definition solid :: "char \<Rightarrow> bool" where
  "solid c \<longleftrightarrow> 33 \<le> (of_char c :: nat) \<and> (of_char c :: nat) < 0x80"

lemma white_at_solid: "s \<noteq> [] \<Longrightarrow> solid (hd s) \<Longrightarrow> white_at s = None"
proof (rule ccontr)
  assume s: "s \<noteq> []" "solid (hd s)" "white_at s \<noteq> None"
  then obtain w r where w: "w \<in> set white_space" "s = w @ r"
    using white_at_Some by blast
  then have "hd s = hd w" using white_space_nonempty by auto
  then show False using white_space_ends(1) [OF w(1)] s(2) by (auto simp: solid_def)
qed

lemma white_before_end_solid: "s \<noteq> [] \<Longrightarrow> solid (last s) \<Longrightarrow> white_before_end s = None"
proof (rule ccontr)
  assume s: "s \<noteq> []" "solid (last s)" "white_before_end s \<noteq> None"
  then obtain w r where w: "w \<in> set white_space" "s = r @ w"
    using white_before_end_Some by blast
  then have "last s = last w" using white_space_nonempty by auto
  then show False using white_space_ends(2) [OF w(1)] s(2) by (auto simp: solid_def)
qed

lemma trim_solid: "s \<noteq> [] \<Longrightarrow> solid (hd s) \<Longrightarrow> solid (last s) \<Longrightarrow> trim s = s"
  by (simp add: trim_def trim_start.simps [of s] trim_end.simps [of s] white_at_solid white_before_end_solid)

lemma trim_Nil [simp]: "trim [] = []"
proof -
  have "white_at [] = None" "white_before_end [] = None"
    by (auto simp: white_at_def white_before_end_def find_None_iff starts_with_iff ends_with_iff dest: white_space_nonempty)
  then show ?thesis by (simp add: trim_def trim_start.simps [of "[]"] trim_end.simps [of "[]"])
qed

text \<open>Trimming text that starts with a solid character leaves a non-empty beginning of it.\<close>

lemma trim_end_prefix: "\<exists>r. s = trim_end s @ r"
proof (induction s rule: trim_end.induct)
  case (1 s)
  show ?case
  proof (cases "white_before_end s")
    case (Some w)
    then obtain r where r: "take (length s - length w) s = trim_end s @ r"
      using 1 by (auto simp: trim_end.simps [of s])
    then show ?thesis by (metis append.assoc append_take_drop_id)
  qed (simp add: trim_end.simps [of s])
qed

lemma trim_end_solid: "s \<noteq> [] \<Longrightarrow> solid (hd s) \<Longrightarrow> trim_end s \<noteq> []"
proof (induction s rule: trim_end.induct)
  case (1 s)
  show ?case
  proof (cases "white_before_end s")
    case (Some w)
    then obtain r where r: "s = r @ w" and w: "w \<in> set white_space" "w \<noteq> []"
      using white_before_end_Some by blast
    have "r \<noteq> []"
    proof
      assume "r = []"
      then show False using r w 1 white_space_ends(1) [OF w(1)] by (auto simp: solid_def)
    qed
    then show ?thesis using 1 Some r by (simp add: trim_end.simps [of "r @ w"])
  qed (use 1 in \<open>simp add: trim_end.simps [of s]\<close>)
qed

lemma trim_prefix:
  assumes "s \<noteq> []" "solid (hd s)"
  shows "trim s \<noteq> []" "\<exists>r. s = trim s @ r"
  using trim_end_solid [OF assms] trim_end_prefix [of s] white_at_solid [OF assms]
  by (simp_all add: trim_def trim_start.simps [of s])

section \<open>Incomplete UTF-8\<close>

text \<open>
  \<open>str::from_utf8\<close> fails with no error length when the bytes end in the middle of a character that
  is well formed so far.
\<close>

function utf8_torn :: "bytes \<Rightarrow> bool" where
  "utf8_torn bs =
     (if bs = [] then False
      else if fst (utf8_step bs) then utf8_torn (drop (snd (utf8_step bs)) bs)
      else snd (utf8_step bs) = length bs \<and> 0xC2 \<le> (of_char (hd bs) :: nat) \<and> (of_char (hd bs) :: nat) \<le> 0xF4)"
  by pat_completeness auto
termination
  by (relation "measure length") (auto simp: utf8_step_pos)

declare utf8_torn.simps [simp del]

lemma byte_in_take: "byte_in lo hi (take m bs) i \<longleftrightarrow> i < m \<and> byte_in lo hi bs i"
  by (auto simp: byte_in_def)

lemma byte_in_cont: "byte_in lo hi bs i \<Longrightarrow> 0x80 \<le> lo \<Longrightarrow> hi \<le> 0xBF \<Longrightarrow> byte_in 0x80 0xBF bs i"
  by (auto simp: byte_in_def)

lemma utf8_step_cases:
  assumes "utf8_step bs = (True, n)"
  shows "(n = 1 \<and> (of_char (hd bs) :: nat) < 0x80) \<or>
    (0xC2 \<le> (of_char (hd bs) :: nat) \<and> (of_char (hd bs) :: nat) \<le> 0xF4 \<and> byte_in 0x80 0xBF bs 1 \<and>
     (n = 2 \<or> n = 3 \<and> byte_in 0x80 0xBF bs 2 \<or> n = 4 \<and> byte_in 0x80 0xBF bs 2 \<and> byte_in 0x80 0xBF bs 3))"
  using assms by (auto simp: utf8_step_def Let_def split: if_splits elim: byte_in_cont)

lemma utf8_step_take:
  assumes "utf8_step bs = (True, n)" "0 < m"
  shows "utf8_step (take m bs) = (if n \<le> m then (True, n) else (False, m))"
proof -
  let ?b = "of_char (hd bs) :: nat"
  note step = utf8_step_def Let_def byte_in_take hd_take [OF assms(2)]
  consider "?b < 0x80" | "0xC2 \<le> ?b \<and> ?b \<le> 0xDF" | "?b = 0xE0" | "?b = 0xED" | "0xE1 \<le> ?b \<and> ?b \<le> 0xEF \<and> ?b \<noteq> 0xED"
    | "?b = 0xF0" | "0xF1 \<le> ?b \<and> ?b \<le> 0xF3" | "?b = 0xF4"
    using assms(1) by (fastforce simp: utf8_step_def Let_def split: if_splits)
  then show ?thesis
    using assms by cases (auto simp add: step split: if_splits)
qed

lemma utf8_step_True:
  assumes "utf8_step bs = (True, n)" "bs \<noteq> []"
  shows "n \<le> length bs" "\<And>i. 0 < i \<Longrightarrow> i < n \<Longrightarrow> byte_in 0x80 0xBF bs i"
    "0 < m \<Longrightarrow> m < n \<Longrightarrow> 0xC2 \<le> (of_char (hd bs) :: nat) \<and> (of_char (hd bs) :: nat) \<le> 0xF4"
proof -
  have "Suc 0 \<le> length bs" using assms(2) by (simp add: Suc_le_eq)
  then show "n \<le> length bs" using utf8_step_cases [OF assms(1)] by (auto simp: byte_in_def)
  show "byte_in 0x80 0xBF bs i" if "0 < i" "i < n" for i
  proof -
    have "n \<in> {1, 2, 3, 4}" using utf8_step_cases [OF assms(1)] by auto
    then have "i = 1 \<or> i = 2 \<or> i = 3" using that by auto
    then show ?thesis using utf8_step_cases [OF assms(1)] that by auto
  qed
  show "0xC2 \<le> (of_char (hd bs) :: nat) \<and> (of_char (hd bs) :: nat) \<le> 0xF4" if "0 < m" "m < n"
    using utf8_step_cases [OF assms(1)] that by auto
qed

lemma utf8_valid_step:
  assumes "utf8_valid bs" "bs \<noteq> []"
  obtains n where "utf8_step bs = (True, n)" "utf8_valid (drop n bs)" "0 < n" "n \<le> length bs"
proof -
  have s: "utf8_step bs = (True, snd (utf8_step bs))"
    using assms by (simp add: utf8_valid.simps [of bs] prod_eq_iff split: if_splits)
  show thesis
    by (rule that [OF s]) (use assms s utf8_step_pos utf8_step_True(1) [OF s] in \<open>auto simp: utf8_valid.simps [of bs] split: if_splits\<close>)
qed

lemma utf8_prefix:
  "utf8_valid bs \<Longrightarrow> utf8_valid (take m bs) \<or> utf8_torn (take m bs)"
proof (induction bs arbitrary: m rule: utf8_valid.induct)
  case (1 bs)
  show ?case
  proof (cases "bs = [] \<or> m = 0")
    case False
    then obtain n where n: "utf8_step bs = (True, n)" "utf8_valid (drop n bs)" "0 < n" "n \<le> length bs"
      using utf8_valid_step [OF "1.prems"] by blast
    have ne: "take m bs \<noteq> []" using False by simp
    show ?thesis
    proof (cases "n \<le> m")
      case True
      have "utf8_valid (take (m - n) (drop n bs)) \<or> utf8_torn (take (m - n) (drop n bs))"
        using 1 n False by simp
      then show ?thesis
        using utf8_step_take [OF n(1), of m] True n(3) False ne
        by (simp add: utf8_valid.simps [of "take m bs"] utf8_torn.simps [of "take m bs"] drop_take)
    next
      case small: False
      then have "utf8_step (take m bs) = (False, m)" "0xC2 \<le> (of_char (hd bs) :: nat)" "(of_char (hd bs) :: nat) \<le> 0xF4"
        using utf8_step_take [OF n(1), of m] utf8_step_True(3) [OF n(1), of m] False by auto
      then show ?thesis using ne small n(4) False by (simp add: utf8_torn.simps [of "take m bs"] hd_take)
    qed
  qed auto
qed

text \<open>A character that begins with a byte that cannot continue another one can be cut off.\<close>

lemma utf8_valid_cut:
  "utf8_valid bs \<Longrightarrow> bs = r @ w \<Longrightarrow> w \<noteq> [] \<Longrightarrow> \<not> byte_in 0x80 0xBF w 0 \<Longrightarrow> utf8_valid r"
proof (induction bs arbitrary: r rule: utf8_valid.induct)
  case (1 bs)
  show ?case
  proof (cases "r = []")
    case False
    then obtain n where n: "utf8_step bs = (True, n)" "utf8_valid (drop n bs)" "0 < n"
      using utf8_valid_step [OF "1.prems"(1)] "1.prems"(2) by auto
    have "n \<le> length r"
    proof (rule ccontr)
      assume "\<not> n \<le> length r"
      then have "byte_in 0x80 0xBF bs (length r)"
        using utf8_step_True(2) [OF n(1)] "1.prems"(2,3) False by auto
      then show False using "1.prems"(2-4) by (auto simp: byte_in_def nth_append)
    qed
    moreover have "utf8_valid (drop n r)"
      using 1 n False \<open>n \<le> length r\<close> by (auto simp: prod_eq_iff)
    moreover have "utf8_step r = (True, n)"
      using utf8_step_take [OF n(1), of "length r"] \<open>n \<le> length r\<close> "1.prems"(2) False by simp
    ultimately show ?thesis using False by (simp add: utf8_valid.simps [of r])
  qed simp
qed

lemma white_space_starts: "w \<in> set white_space \<Longrightarrow> \<not> byte_in 0x80 0xBF w 0"
  by (auto simp: white_space_def byte_in_def)

lemma utf8_valid_trim_end: "utf8_valid s \<Longrightarrow> utf8_valid (trim_end s)"
proof (induction s rule: trim_end.induct)
  case (1 s)
  show ?case
  proof (cases "white_before_end s")
    case (Some w)
    then obtain r where r: "s = r @ w" "w \<in> set white_space" "w \<noteq> []" using white_before_end_Some by blast
    then have "utf8_valid r" using utf8_valid_cut [OF "1.prems"] white_space_starts by blast
    then show ?thesis using 1 Some r by (simp add: trim_end.simps [of "r @ w"])
  qed (use 1 in \<open>simp add: trim_end.simps [of s]\<close>)
qed

section \<open>Saturating increment\<close>

definition saturating_succ :: "'a::len word \<Rightarrow> 'a word" where
  "saturating_succ w = (if w = - 1 then w else w + 1)"

lemma unat_saturating_succ: "unat (saturating_succ w) = min (2 ^ LENGTH('a) - 1) (Suc (unat w))" for w :: "'a::len word"
proof (cases "w = - 1")
  case True
  then show ?thesis by (simp add: saturating_succ_def unsigned_minus_1_eq_mask mask_eq_exp_minus_1)
next
  case False
  then have "Suc (unat w) < 2 ^ LENGTH('a)"
    using unsigned_less [of w, where 'a = nat] by (metis Suc_lessI mask_eq_exp_minus_1 unsigned_minus_1_eq_mask
        word_unat_eq_iff diff_Suc_1)
  then show ?thesis using False by (simp add: saturating_succ_def unat_word_ariths(1) flip: Suc_eq_plus1)
qed

end
