(* ===== verification/Edit_Fs.thy ===== *)
theory Edit_Fs
  imports AP_Server Rust_Text "HOL-Library.Code_Target_Nat"
begin

text \<open>
  The editable buffer (\<open>crates/editfs/src/lib.rs\<close>): one text with a tag, a revision-bound address
  and a control file whose \<open>exec\<close> names the text it means by body revision, address revision and
  range. Edits, addresses and executions commit on clunk and are recorded in an event stream. The
  JSON encoding of an event and the standard library's default hasher are parameters.
\<close>

section \<open>Policy, addresses and events\<close>

datatype execution_policy = DenyAll | AcceptAll

datatype execution_status = Accepted | Denied

fun policy_decide :: "execution_policy \<Rightarrow> string \<Rightarrow> execution_status" where
  "policy_decide DenyAll _ = Denied"
| "policy_decide AcceptAll _ = Accepted"

record address_range =
  ar_body_revision :: u64
  ar_addr_revision :: u64
  ar_start :: nat
  ar_end :: nat

definition address_collapsed :: "u64 \<Rightarrow> address_range" where
  "address_collapsed body_revision =
     \<lparr>ar_body_revision = body_revision, ar_addr_revision = 0, ar_start = 0, ar_end = 0\<rparr>"

definition parse_revision :: "string \<Rightarrow> u64 res" where
  "parse_revision text = ok_or (map_option of_nat (parse_u64 text)) BadRequest"

definition parse_range :: "string \<Rightarrow> (nat \<times> nat) res" where
  "parse_range source =
     (case split_once ''..'' source of
        None \<Rightarrow> Err BadRequest
      | Some (a, b) \<Rightarrow>
          (case parse_u64 a of
             None \<Rightarrow> Err BadRequest
           | Some start \<Rightarrow>
               (case parse_u64 b of
                  None \<Rightarrow> Err BadRequest
                | Some end' \<Rightarrow> if end' < start then Err BadRequest else Ok (start, end'))))"

text \<open>A field \<open>name:<revision>\<close> up to the next space, and what follows it.\<close>

definition split_field :: "string \<Rightarrow> string \<Rightarrow> (string \<times> string) res" where
  "split_field name source = ok_or (Option.bind (strip_prefix name source) (split_once '' '')) BadRequest"

definition parse_body_revision_range :: "string \<Rightarrow> (u64 \<times> nat \<times> nat) res" where
  "parse_body_revision_range source =
     (case split_field ''rev:'' source of
        Inl e \<Rightarrow> Err e
      | Inr (revision, rng) \<Rightarrow>
          (case parse_revision revision of
             Inl e \<Rightarrow> Err e
           | Inr rv \<Rightarrow> map_sum id (\<lambda>(start, end'). (rv, start, end')) (parse_range rng)))"

definition parse_addr_write :: "string \<Rightarrow> address_range res" where
  "parse_addr_write source =
     map_sum id (\<lambda>(rv, start, end'). \<lparr>ar_body_revision = rv, ar_addr_revision = 0, ar_start = start, ar_end = end'\<rparr>)
       (parse_body_revision_range (trim source))"

definition parse_exec :: "string \<Rightarrow> address_range res" where
  "parse_exec source =
     (case strip_prefix ''exec '' (trim source) of
        None \<Rightarrow> Err BadRequest
      | Some trimmed \<Rightarrow>
          (case split_field ''rev:'' trimmed of
             Inl e \<Rightarrow> Err e
           | Inr (body, rest) \<Rightarrow>
               (case parse_revision body of
                  Inl e \<Rightarrow> Err e
                | Inr body_revision \<Rightarrow>
                    (case split_field ''addr:'' rest of
                       Inl e \<Rightarrow> Err e
                     | Inr (addr, rng) \<Rightarrow>
                         (case parse_revision addr of
                            Inl e \<Rightarrow> Err e
                          | Inr addr_revision \<Rightarrow>
                              map_sum id (\<lambda>(start, end'). \<lparr>ar_body_revision = body_revision,
                                ar_addr_revision = addr_revision, ar_start = start, ar_end = end'\<rparr>)
                                (parse_range rng))))))"

definition show_range :: "nat \<Rightarrow> nat \<Rightarrow> string" where
  "show_range start end' = show_nat start @ ''..'' @ show_nat end'"

definition show_address :: "address_range \<Rightarrow> string" where
  "show_address a =
     ''rev:'' @ show_nat (unat (ar_body_revision a)) @ '' addr:'' @ show_nat (unat (ar_addr_revision a)) @ '' '' @
     show_range (ar_start a) (ar_end a)"

datatype edit_event =
    EvEdit string "u64 option" nat
  | EvAddress address_range
  | EvExec address_range string execution_status

section \<open>State\<close>

datatype edit_node = EditRoot | EditBody | EditTag | EditAddr | EditCtl | EditEvent

record edit_fid =
  ef_node :: edit_node
  ef_mode :: "open_mode option"
  ef_write_buf :: bytes
  ef_wrote :: bool

record edit_state =
  es_body :: string
  es_tag :: string
  es_body_revision :: u64
  es_addr :: address_range
  es_event :: stream
  es_versions :: version_table
  es_fids :: "fid \<rightharpoonup> edit_fid"
  es_execution_policy :: execution_policy

definition edit_max_doc_bytes :: nat where
  "edit_max_doc_bytes = 2 ^ 20"

definition with_execution_policy :: "execution_policy \<Rightarrow> edit_state" where
  "with_execution_policy policy =
     \<lparr>es_body = [], es_tag = [], es_body_revision = 0, es_addr = address_collapsed 0, es_event = stream_new,
      es_versions = vt_new, es_fids = Map.empty, es_execution_policy = policy\<rparr>"

definition editfs_new :: edit_state where
  "editfs_new = with_execution_policy DenyAll"

definition edit_fid_at :: "edit_node \<Rightarrow> edit_fid" where
  "edit_fid_at node = \<lparr>ef_node = node, ef_mode = None, ef_write_buf = [], ef_wrote = False\<rparr>"

fun edit_node_identity :: "(string \<Rightarrow> u64) \<Rightarrow> edit_node \<Rightarrow> file_kind \<times> u64" where
  "edit_node_identity hasher EditRoot = (KDir, hasher ''/'')"
| "edit_node_identity hasher EditBody = (KFile, hasher ''body'')"
| "edit_node_identity hasher EditTag = (KFile, hasher ''tag'')"
| "edit_node_identity hasher EditAddr = (KFile, hasher ''addr'')"
| "edit_node_identity hasher EditCtl = (KFile, hasher ''ctl'')"
| "edit_node_identity hasher EditEvent = (KStream, hasher ''event'')"

definition edit_node_of :: "edit_state \<Rightarrow> fid \<Rightarrow> edit_node res" where
  "edit_node_of s fid = (if fid = ROOT then Ok EditRoot else ok_or (map_option ef_node (es_fids s fid)) NotFound)"

definition edit_qid :: "(string \<Rightarrow> u64) \<Rightarrow> edit_state \<Rightarrow> edit_node \<Rightarrow> qid" where
  "edit_qid hasher s node =
     (let (kind, path) = edit_node_identity hasher node in
      \<lparr>qid_kind = kind, qid_version = vt_get (es_versions s) path, qid_path = path\<rparr>)"

definition edit_child :: "edit_node \<Rightarrow> string \<Rightarrow> edit_node res" where
  "edit_child node name =
     (case node of
        EditRoot \<Rightarrow>
          if name = ''body'' then Ok EditBody
          else if name = ''tag'' then Ok EditTag
          else if name = ''addr'' then Ok EditAddr
          else if name = ''ctl'' then Ok EditCtl
          else if name = ''event'' then Ok EditEvent
          else Err NotFound
      | _ \<Rightarrow> Err NotDirectory)"

fun edit_walk_names :: "edit_node \<Rightarrow> string list \<Rightarrow> edit_node res" where
  "edit_walk_names node [] = Ok node"
| "edit_walk_names node (name # names) =
     (case edit_child node name of Inl e \<Rightarrow> Err e | Inr child \<Rightarrow> edit_walk_names child names)"

definition edit_computed_bytes :: "edit_state \<Rightarrow> edit_node \<Rightarrow> bytes res" where
  "edit_computed_bytes s node =
     (case node of
        EditRoot \<Rightarrow> Ok (join_with [newline] [''body'', ''tag'', ''addr'', ''ctl'', ''event''])
      | EditBody \<Rightarrow> Ok (es_body s)
      | EditTag \<Rightarrow> Ok (es_tag s)
      | EditAddr \<Rightarrow> Ok (show_address (es_addr s))
      | EditCtl \<Rightarrow> Ok (''# editfs ctl: write '' @ [CHR 0x27] @ ''exec rev:<body> addr:<addr> <start>..<end>'' @ [CHR 0x27] @ '' and clunk'' @ [newline])
      | EditEvent \<Rightarrow> Err Unsupported)"

definition write_seed_bytes :: "edit_state \<Rightarrow> edit_node \<Rightarrow> bytes res" where
  "write_seed_bytes s node =
     (case node of
        EditBody \<Rightarrow> edit_computed_bytes s node
      | EditTag \<Rightarrow> edit_computed_bytes s node
      | EditAddr \<Rightarrow> Ok (''rev:'' @ show_nat (unat (ar_body_revision (es_addr s))) @ '' '' @
          show_range (ar_start (es_addr s)) (ar_end (es_addr s)))
      | _ \<Rightarrow> Err Unsupported)"

definition edit_stream_for :: "edit_state \<Rightarrow> edit_node \<Rightarrow> stream option" where
  "edit_stream_for s node = (case node of EditEvent \<Rightarrow> Some (es_event s) | _ \<Rightarrow> None)"

section \<open>Commits\<close>

definition edit_append_event ::
  "(edit_event \<Rightarrow> bytes option) \<Rightarrow> edit_event \<Rightarrow> edit_state \<Rightarrow> unit res \<times> edit_state" where
  "edit_append_event json event s =
     (case json event of
        None \<Rightarrow> (Err BadRequest, s)
      | Some bs \<Rightarrow> (Ok (), s\<lparr>es_event := stream_append (bs @ [newline]) (es_event s)\<rparr>))"

definition edit_bump :: "(string \<Rightarrow> u64) \<Rightarrow> edit_node \<Rightarrow> edit_state \<Rightarrow> edit_state" where
  "edit_bump hasher node s = s\<lparr>es_versions := vt_bump (snd (edit_node_identity hasher node)) (es_versions s)\<rparr>"

definition commit_document ::
  "(edit_event \<Rightarrow> bytes option) \<Rightarrow> (string \<Rightarrow> u64) \<Rightarrow> edit_node \<Rightarrow> bytes \<Rightarrow> edit_state \<Rightarrow> unit res \<times> edit_state" where
  "commit_document json hasher node bs s =
     (if \<not> utf8_valid bs then (Err BadRequest, s)
      else
        (case node of
           EditBody \<Rightarrow>
             (let s1 = s\<lparr>es_body := bs, es_body_revision := es_body_revision s + 1\<rparr>;
                  s2 = edit_bump hasher EditAddr (edit_bump hasher EditBody s1)
              in edit_append_event json (EvEdit ''body'' (Some (es_body_revision s2)) (length (es_body s2))) s2)
         | EditTag \<Rightarrow>
             (let s1 = edit_bump hasher EditTag (s\<lparr>es_tag := bs\<rparr>)
              in edit_append_event json (EvEdit ''tag'' None (length (es_tag s1))) s1)
         | _ \<Rightarrow> (Err Unsupported, s)))"

definition validate_range_shape :: "edit_state \<Rightarrow> address_range \<Rightarrow> unit res" where
  "validate_range_shape s addr =
     (if length (es_body s) < ar_end addr \<or> \<not> is_char_boundary (es_body s) (ar_start addr) \<or>
         \<not> is_char_boundary (es_body s) (ar_end addr) then Err BadRequest
      else Ok ())"

definition commit_addr ::
  "(edit_event \<Rightarrow> bytes option) \<Rightarrow> (string \<Rightarrow> u64) \<Rightarrow> bytes \<Rightarrow> edit_state \<Rightarrow> unit res \<times> edit_state" where
  "commit_addr json hasher bs s =
     (if \<not> utf8_valid bs then (Err BadRequest, s)
      else
        (case parse_addr_write bs of
           Inl e \<Rightarrow> (Err e, s)
         | Inr parsed \<Rightarrow>
             if ar_body_revision parsed \<noteq> es_body_revision s then (Err BadRequest, s)
             else
               (case validate_range_shape s parsed of
                  Inl e \<Rightarrow> (Err e, s)
                | Inr _ \<Rightarrow>
                    (let addr = parsed\<lparr>ar_addr_revision := ar_addr_revision (es_addr s) + 1\<rparr>
                     in edit_append_event json (EvAddress addr) (edit_bump hasher EditAddr (s\<lparr>es_addr := addr\<rparr>))))))"

text \<open>\<open>str::get\<close> of a byte range.\<close>

definition str_get :: "string \<Rightarrow> nat \<Rightarrow> nat \<Rightarrow> string option" where
  "str_get s start end' =
     (if start \<le> end' \<and> end' \<le> length s \<and> is_char_boundary s start \<and> is_char_boundary s end'
      then Some (subrange s start end') else None)"

definition exec_addr ::
  "(edit_event \<Rightarrow> bytes option) \<Rightarrow> address_range \<Rightarrow> edit_state \<Rightarrow> unit res \<times> edit_state" where
  "exec_addr json addr s =
     (if addr \<noteq> es_addr s \<or> ar_body_revision addr \<noteq> es_body_revision s then (Err BadRequest, s)
      else
        (case validate_range_shape s addr of
           Inl e \<Rightarrow> (Err e, s)
         | Inr _ \<Rightarrow>
             (case str_get (es_body s) (ar_start addr) (ar_end addr) of
                None \<Rightarrow> (Err BadRequest, s)
              | Some command \<Rightarrow>
                  (let status = policy_decide (es_execution_policy s) command in
                   case edit_append_event json (EvExec addr command status) s of
                     (Inl e, s1) \<Rightarrow> (Err e, s1)
                   | (Inr _, s1) \<Rightarrow> (case status of Accepted \<Rightarrow> (Ok (), s1) | Denied \<Rightarrow> (Err NoAccess, s1))))))"

definition edit_commit_ctl ::
  "(edit_event \<Rightarrow> bytes option) \<Rightarrow> bytes \<Rightarrow> edit_state \<Rightarrow> unit res \<times> edit_state" where
  "edit_commit_ctl json bs s =
     (if \<not> utf8_valid bs then (Err BadRequest, s)
      else (case parse_exec bs of Inl e \<Rightarrow> (Err e, s) | Inr addr \<Rightarrow> exec_addr json addr s))"

section \<open>The file server\<close>

definition edit_is_writable :: "edit_node \<Rightarrow> bool" where
  "edit_is_writable node \<longleftrightarrow> node \<in> {EditBody, EditTag, EditAddr, EditCtl}"

definition edit_walk ::
  "(string \<Rightarrow> u64) \<Rightarrow> fid \<Rightarrow> fid \<Rightarrow> string list \<Rightarrow> edit_state \<Rightarrow> qid res \<times> edit_state" where
  "edit_walk hasher fid newfid names s =
     (if newfid = ROOT \<or> es_fids s newfid \<noteq> None then (Err BadRequest, s)
      else
        (case edit_node_of s fid of
           Inl e \<Rightarrow> (Err e, s)
         | Inr start \<Rightarrow>
             (case edit_walk_names start names of
                Inl e \<Rightarrow> (Err e, s)
              | Inr node \<Rightarrow> (Ok (edit_qid hasher s node), s\<lparr>es_fids := (es_fids s)(newfid \<mapsto> edit_fid_at node)\<rparr>))))"

definition edit_seed :: "edit_state \<Rightarrow> edit_node \<Rightarrow> open_mode \<Rightarrow> bytes option res" where
  "edit_seed s node mode =
     (if mode = OpenReadWrite \<and> node \<in> {EditBody, EditTag, EditAddr} then map_sum id Some (write_seed_bytes s node)
      else Ok None)"

definition edit_open :: "(string \<Rightarrow> u64) \<Rightarrow> fid \<Rightarrow> open_mode \<Rightarrow> edit_state \<Rightarrow> qid res \<times> edit_state" where
  "edit_open hasher fid mode s =
     (case edit_node_of s fid of
        Inl e \<Rightarrow> (Err e, s)
      | Inr node \<Rightarrow>
          if fid \<noteq> ROOT \<and> already_open ef_mode (es_fids s fid) then (Err BadRequest, s)
          else if write_intent mode \<and> \<not> edit_is_writable node then (Err NoAccess, s)
          else
            (case edit_seed s node mode of
               Inl e \<Rightarrow> (Err e, s)
             | Inr seed \<Rightarrow>
                 if fid = ROOT then (Ok (edit_qid hasher s node), s)
                 else
                   (case es_fids s fid of
                      None \<Rightarrow> (Err NotFound, s)
                    | Some f \<Rightarrow>
                        (Ok (edit_qid hasher s node),
                         s\<lparr>es_fids := (es_fids s)(fid \<mapsto> f\<lparr>ef_mode := Some mode,
                           ef_write_buf := (case seed of Some bs \<Rightarrow> bs | None \<Rightarrow> ef_write_buf f)\<rparr>)\<rparr>))))"

definition edit_read_allowed :: "edit_state \<Rightarrow> fid \<Rightarrow> unit res" where
  "edit_read_allowed s fid =
     (if fid = ROOT then Ok ()
      else
        (case es_fids s fid of
           None \<Rightarrow> Err NotFound
         | Some f \<Rightarrow> if opened_for_read (ef_mode f) then Ok () else Err NoAccess))"

definition edit_read :: "fid \<Rightarrow> offset \<Rightarrow> u32 \<Rightarrow> edit_state \<Rightarrow> bytes poll \<times> edit_state" where
  "edit_read fid offset count s =
     (case edit_read_allowed s fid of
        Inl e \<Rightarrow> (Some (Err e), s)
      | Inr _ \<Rightarrow>
          (case edit_node_of s fid of
             Inl e \<Rightarrow> (Some (Err e), s)
           | Inr node \<Rightarrow>
               (case edit_stream_for s node of
                  Some st \<Rightarrow> (map_option Ok (stream_read st offset count), s)
                | None \<Rightarrow> (Some (map_sum id (\<lambda>bs. slice bs offset count) (edit_computed_bytes s node)), s))))"

definition edit_write :: "fid \<Rightarrow> offset \<Rightarrow> bytes \<Rightarrow> edit_state \<Rightarrow> u32 res \<times> edit_state" where
  "edit_write fid offset data s =
     (case edit_node_of s fid of
        Inl e \<Rightarrow> (Err e, s)
      | Inr node \<Rightarrow>
          (case es_fids s fid of
             None \<Rightarrow> (Err NotFound, s)
           | Some f \<Rightarrow>
               if \<not> opened_for_write (ef_mode f) then (Err NoAccess, s)
               else if \<not> edit_is_writable node then (Err Unsupported, s)
               else
                 (case doc_write edit_max_doc_bytes offset data (ef_write_buf f) of
                    Inl e \<Rightarrow> (Err e, s)
                  | Inr buf \<Rightarrow>
                      (Ok (of_nat (length data)),
                       s\<lparr>es_fids := (es_fids s)(fid \<mapsto> f\<lparr>ef_write_buf := buf, ef_wrote := True\<rparr>)\<rparr>))))"

definition edit_stat_length :: "edit_state \<Rightarrow> edit_node \<Rightarrow> u64 res" where
  "edit_stat_length s node =
     (case node of
        EditEvent \<Rightarrow> map_sum id stream_len (ok_or (edit_stream_for s node) NotFound)
      | _ \<Rightarrow> map_sum id (\<lambda>bs. of_nat (length bs)) (edit_computed_bytes s node))"

definition edit_stat :: "(string \<Rightarrow> u64) \<Rightarrow> fid \<Rightarrow> edit_state \<Rightarrow> stat res \<times> edit_state" where
  "edit_stat hasher fid s =
     (case edit_node_of s fid of
        Inl e \<Rightarrow> (Err e, s)
      | Inr node \<Rightarrow>
          (map_sum id (\<lambda>len. \<lparr>stat_name = [], stat_qid = edit_qid hasher s node, stat_length = len,
             stat_executable = False, stat_writable = edit_is_writable node\<rparr>) (edit_stat_length s node), s))"

definition edit_create :: "fid \<Rightarrow> fid \<Rightarrow> string \<Rightarrow> file_kind \<Rightarrow> edit_state \<Rightarrow> qid res \<times> edit_state" where
  "edit_create fid newfid name kind s = (Err Unsupported, s)"

definition edit_remove :: "fid \<Rightarrow> edit_state \<Rightarrow> unit res \<times> edit_state" where
  "edit_remove fid s = (Err Unsupported, s)"

definition edit_clunk ::
  "(edit_event \<Rightarrow> bytes option) \<Rightarrow> (string \<Rightarrow> u64) \<Rightarrow> fid \<Rightarrow> edit_state \<Rightarrow> unit res \<times> edit_state" where
  "edit_clunk json hasher fid s =
     (if fid = ROOT then (Ok (), s)
      else
        (case es_fids s fid of
           None \<Rightarrow> (Err NotFound, s)
         | Some f \<Rightarrow>
             (let s1 = s\<lparr>es_fids := (es_fids s)(fid := None)\<rparr> in
              if \<not> ef_wrote f then (Ok (), s1)
              else
                (case ef_node f of
                   EditBody \<Rightarrow> commit_document json hasher EditBody (ef_write_buf f) s1
                 | EditTag \<Rightarrow> commit_document json hasher EditTag (ef_write_buf f) s1
                 | EditAddr \<Rightarrow> commit_addr json hasher (ef_write_buf f) s1
                 | EditCtl \<Rightarrow> edit_commit_ctl json (ef_write_buf f) s1
                 | _ \<Rightarrow> (Ok (), s1)))))"

definition edit_server :: "(edit_event \<Rightarrow> bytes option) \<Rightarrow> (string \<Rightarrow> u64) \<Rightarrow> edit_state file_server" where
  "edit_server json hasher =
     \<lparr>fs_walk = (\<lambda>f n ns s. ready (edit_walk hasher f n ns s)), fs_open = (\<lambda>f m s. ready (edit_open hasher f m s)),
      fs_read = edit_read, fs_write = (\<lambda>f off d s. ready (edit_write f off d s)),
      fs_stat = (\<lambda>f s. ready (edit_stat hasher f s)),
      fs_create = (\<lambda>f n nm k s. ready (edit_create f n nm k s)),
      fs_remove = (\<lambda>f s. ready (edit_remove f s)), fs_clunk = (\<lambda>f s. ready (edit_clunk json hasher f s))\<rparr>"

section \<open>Fids\<close>

definition edit_live :: "edit_state \<Rightarrow> fid set" where
  "edit_live s = dom (es_fids s) - {ROOT}"

lemma edit_append_event_simps [simp]:
  "es_fids (snd (edit_append_event json e s)) = es_fids s" "es_body (snd (edit_append_event json e s)) = es_body s"
  "es_body_revision (snd (edit_append_event json e s)) = es_body_revision s"
  "es_addr (snd (edit_append_event json e s)) = es_addr s" "es_tag (snd (edit_append_event json e s)) = es_tag s"
  by (simp_all add: edit_append_event_def split: option.split)

lemma edit_bump_simps [simp]:
  "es_fids (edit_bump hasher n s) = es_fids s" "es_body (edit_bump hasher n s) = es_body s"
  "es_body_revision (edit_bump hasher n s) = es_body_revision s" "es_addr (edit_bump hasher n s) = es_addr s"
  "es_tag (edit_bump hasher n s) = es_tag s"
  by (simp_all add: edit_bump_def)

lemma exec_addr_simps [simp]:
  "es_fids (snd (exec_addr json a s)) = es_fids s" "es_body (snd (exec_addr json a s)) = es_body s"
  "es_body_revision (snd (exec_addr json a s)) = es_body_revision s" "es_addr (snd (exec_addr json a s)) = es_addr s"
  by (simp_all add: exec_addr_def edit_append_event_def Let_def split: option.split sum.split execution_status.split)

lemma edit_commit_fids [simp]:
  "es_fids (snd (commit_document json hasher node bs s)) = es_fids s"
  "es_fids (snd (commit_addr json hasher bs s)) = es_fids s"
  "es_fids (snd (edit_commit_ctl json bs s)) = es_fids s"
  by (simp_all add: commit_document_def commit_addr_def edit_commit_ctl_def Let_def split: edit_node.split sum.split)

lemma edit_clunk_fids: "fid \<noteq> ROOT \<Longrightarrow> es_fids (snd (edit_clunk json hasher fid s)) = (es_fids s)(fid := None)"
  by (auto simp: edit_clunk_def Let_def split: option.split edit_node.split)

interpretation edit: fid_server "edit_server json hasher" edit_live
proof
  fix f s
  show "edit_live (snd (fs_clunk (edit_server json hasher) f s)) = edit_live s - {f}"
    by (cases "f = ROOT") (auto simp: edit_server_def edit_live_def ready_def edit_clunk_fids, simp_all add: edit_clunk_def)
qed (auto simp: edit_server_def edit_live_def ready_def edit_walk_def edit_open_def edit_read_def edit_write_def
    edit_stat_def edit_create_def edit_remove_def split: option.splits sum.splits if_splits)

section \<open>Addresses in print\<close>

lemma show_nat_ends_solid: "solid (hd (show_nat n))" "solid (last (show_nat n))"
proof -
  have "solid c" if "is_digit c" for c using that by (auto simp: is_digit_def solid_def)
  then show "solid (hd (show_nat n))" "solid (last (show_nat n))"
    using show_nat_digits [of _ n] by (metis hd_in_set show_nat_nonempty, metis last_in_set show_nat_nonempty)
qed

lemma parse_range_show:
  assumes "start \<le> end'" "end' < 2 ^ 64"
  shows "parse_range (show_range start end') = Ok (start, end')"
proof -
  have "split_once ''..'' (show_nat start @ ''..'' @ show_nat end') = Some (show_nat start, show_nat end')"
    by (rule split_once_hd) (use show_nat_no_special [of "CHR ''.''" start] in simp_all)
  then show ?thesis using assms by (simp add: parse_range_def show_range_def parse_u64_show_nat)
qed

lemma split_field_show:
  "split_field name (name @ show_nat n @ '' '' @ rest) = Ok (show_nat n, rest)"
  using split_once_char [of "CHR '' ''" "show_nat n" rest] show_nat_no_special [of "CHR '' ''" n]
  by (simp add: split_field_def)

lemma parse_revision_show [simp]: "parse_revision (show_nat (unat w)) = Ok w"
  using unsigned_less [of w, where 'a = nat] by (simp add: parse_revision_def parse_u64_show_nat)

text \<open>What the address file prints is what \<open>exec\<close> reads, and what a read-write open seeds is what
  an address write reads.\<close>

lemma parse_exec_show:
  assumes "ar_start a \<le> ar_end a" "ar_end a < 2 ^ 64"
  shows "parse_exec (''exec '' @ show_address a) = Ok a"
proof -
  let ?t = "''exec '' @ show_address a"
  have "last ?t = last (show_nat (ar_end a))" by (simp add: show_address_def show_range_def)
  then have "trim ?t = ?t" using show_nat_ends_solid(2) [of "ar_end a"] by (intro trim_solid) (simp_all add: solid_def)
  moreover have "split_field ''rev:'' (show_address a) = Ok (show_nat (unat (ar_body_revision a)),
      ''addr:'' @ show_nat (unat (ar_addr_revision a)) @ '' '' @ show_range (ar_start a) (ar_end a))"
    using split_field_show [of "''rev:''" "unat (ar_body_revision a)"] by (simp add: show_address_def)
  ultimately show ?thesis
    using split_field_show [of "''addr:''" "unat (ar_addr_revision a)" "show_range (ar_start a) (ar_end a)"]
    by (simp add: parse_exec_def parse_range_show [OF assms])
qed

lemma parse_addr_seed:
  assumes "ar_start (es_addr s) \<le> ar_end (es_addr s)" "ar_end (es_addr s) < 2 ^ 64" "write_seed_bytes s EditAddr = Ok bs"
  shows "parse_addr_write bs = Ok ((es_addr s)\<lparr>ar_addr_revision := 0\<rparr>)"
proof -
  let ?a = "es_addr s"
  have bs: "bs = ''rev:'' @ show_nat (unat (ar_body_revision ?a)) @ '' '' @ show_range (ar_start ?a) (ar_end ?a)"
    using assms(3) by (simp add: write_seed_bytes_def)
  have "last bs = last (show_nat (ar_end ?a))" by (simp add: bs show_range_def)
  then have "trim bs = bs" using show_nat_ends_solid(2) [of "ar_end ?a"] by (intro trim_solid) (simp_all add: solid_def bs)
  then show ?thesis
    using split_field_show [of "''rev:''" "unat (ar_body_revision ?a)" "show_range (ar_start ?a) (ar_end ?a)"]
    by (simp add: parse_addr_write_def parse_body_revision_range_def parse_range_show [OF assms(1,2)] bs)
qed

section \<open>Revisions\<close>

lemma edit_other_ops:
  assumes "\<nexists>fid. req = ReqClunk fid"
  shows "es_body (snd (in_process_call (edit_server json hasher) req s)) = es_body s"
    "es_body_revision (snd (in_process_call (edit_server json hasher) req s)) = es_body_revision s"
    "es_addr (snd (in_process_call (edit_server json hasher) req s)) = es_addr s"
    "es_execution_policy (snd (in_process_call (edit_server json hasher) req s)) = es_execution_policy s"
  using assms
  by (cases req; auto simp: edit_server_def ready_def edit_walk_def edit_open_def edit_read_def edit_write_def edit_stat_def
      edit_create_def edit_remove_def split: sum.split option.split)+

lemma edit_policy_kept [simp]: "es_execution_policy (snd (in_process_call (edit_server json hasher) req s)) = es_execution_policy s"
proof (cases "\<exists>fid. req = ReqClunk fid")
  case True
  then obtain fid where "req = ReqClunk fid" by blast
  then show ?thesis
    by (auto simp: edit_server_def ready_def edit_clunk_def commit_document_def commit_addr_def edit_commit_ctl_def exec_addr_def
        edit_append_event_def edit_bump_def Let_def split: option.split edit_node.split sum.split execution_status.split)
qed (simp add: edit_other_ops)

text \<open>The body changes only with its revision, one at a time.\<close>

lemma edit_call_revision:
  "(es_body_revision (snd (in_process_call (edit_server json hasher) req s)) = es_body_revision s \<and>
    es_body (snd (in_process_call (edit_server json hasher) req s)) = es_body s) \<or>
   es_body_revision (snd (in_process_call (edit_server json hasher) req s)) = es_body_revision s + 1"
proof (cases "\<exists>fid. req = ReqClunk fid")
  case True
  then obtain fid where "req = ReqClunk fid" by blast
  then show ?thesis
    by (auto simp: edit_server_def ready_def edit_clunk_def commit_document_def commit_addr_def edit_commit_ctl_def Let_def
        split: option.split edit_node.split sum.split)
qed (simp add: edit_other_ops)

lemma edit_run_revision:
  "\<exists>k \<le> length reqs. es_body_revision (snd (in_process_run (edit_server json hasher) reqs s)) = es_body_revision s + of_nat k \<and>
     (k = 0 \<longrightarrow> es_body (snd (in_process_run (edit_server json hasher) reqs s)) = es_body s)"
proof (induction reqs arbitrary: s)
  case (Cons req reqs)
  let ?s = "snd (in_process_call (edit_server json hasher) req s)"
  obtain k where k: "k \<le> length reqs"
    "es_body_revision (snd (in_process_run (edit_server json hasher) reqs ?s)) = es_body_revision ?s + of_nat k"
    "k = 0 \<longrightarrow> es_body (snd (in_process_run (edit_server json hasher) reqs ?s)) = es_body ?s"
    using Cons.IH by blast
  from edit_call_revision [of json hasher req s] show ?case
  proof
    assume "es_body_revision ?s = es_body_revision s \<and> es_body ?s = es_body s"
    then show ?thesis using k by (intro exI [of _ k]) simp
  next
    assume "es_body_revision ?s = es_body_revision s + 1"
    then show ?thesis using k by (intro exI [of _ "Suc k"]) simp
  qed
qed (intro exI [of _ 0], simp)

lemma edit_run_policy [simp]:
  "es_execution_policy (snd (in_process_run (edit_server json hasher) reqs s)) = es_execution_policy s"
  by (induction reqs arbitrary: s) auto

definition edit_inv :: "edit_state \<Rightarrow> bool" where
  "edit_inv s \<longleftrightarrow> ar_start (es_addr s) \<le> ar_end (es_addr s) \<and> ar_end (es_addr s) < 2 ^ 64"

lemma parse_range_bounds: "parse_range t = Ok (a, b) \<Longrightarrow> a \<le> b \<and> b < 2 ^ 64"
  using parse_u64_bound by (auto simp: parse_range_def split: option.splits if_splits)

lemma parse_addr_bounds: "parse_addr_write t = Ok a \<Longrightarrow> ar_start a \<le> ar_end a \<and> ar_end a < 2 ^ 64"
  using parse_range_bounds
  by (auto simp: parse_addr_write_def parse_body_revision_range_def map_sum_def split: sum.splits)

lemma edit_call_inv:
  assumes "edit_inv s"
  shows "edit_inv (snd (in_process_call (edit_server json hasher) req s))"
proof (cases "\<exists>fid. req = ReqClunk fid")
  case True
  then obtain fid where "req = ReqClunk fid" by blast
  then show ?thesis using assms parse_addr_bounds
    by (auto simp: edit_inv_def edit_server_def ready_def edit_clunk_def commit_document_def commit_addr_def edit_commit_ctl_def Let_def
        split: option.split edit_node.split sum.split)
qed (use assms in \<open>simp add: edit_inv_def edit_other_ops\<close>)

lemma edit_run_inv: "edit_inv s \<Longrightarrow> edit_inv (snd (in_process_run (edit_server json hasher) reqs s))"
  by (induction reqs arbitrary: s) (auto intro: edit_call_inv)

lemma edit_inv_new [simp]: "edit_inv (with_execution_policy policy)"
  by (simp add: edit_inv_def with_execution_policy_def address_collapsed_def)

section \<open>An execution runs the text that was addressed\<close>

lemma exec_addr_outcome:
  assumes "exec_addr json a s = (r, s')"
  obtains (refused) "r = Err BadRequest" "s' = s"
    | (recorded) command bs where "a = es_addr s" "ar_body_revision a = es_body_revision s"
      "command = subrange (es_body s) (ar_start a) (ar_end a)"
      "json (EvExec a command (policy_decide (es_execution_policy s) command)) = Some bs"
      "s' = s\<lparr>es_event := stream_append (bs @ [newline]) (es_event s)\<rparr>"
      "r = (case policy_decide (es_execution_policy s) command of Accepted \<Rightarrow> Ok () | Denied \<Rightarrow> Err NoAccess)"
proof -
  show ?thesis
  proof (cases "a = es_addr s \<and> ar_body_revision a = es_body_revision s \<and> validate_range_shape s a = Ok ()")
    case ok: True
    show ?thesis
    proof (cases "str_get (es_body s) (ar_start a) (ar_end a)")
      case None
      then show ?thesis using assms ok refused by (auto simp: exec_addr_def)
    next
      case (Some c)
      then have c: "c = subrange (es_body s) (ar_start a) (ar_end a)" by (auto simp: str_get_def split: if_splits)
      let ?st = "policy_decide (es_execution_policy s) c"
      show ?thesis
      proof (cases "json (EvExec a c ?st)")
        case None
        then show ?thesis using assms ok Some refused by (auto simp: exec_addr_def edit_append_event_def)
      next
        case bs: (Some bs)
        have "s' = s\<lparr>es_event := stream_append (bs @ [newline]) (es_event s)\<rparr>"
          "r = (case ?st of Accepted \<Rightarrow> Ok () | Denied \<Rightarrow> Err NoAccess)"
          using assms ok Some bs by (auto simp: exec_addr_def edit_append_event_def split: execution_status.splits)
        then show ?thesis using recorded [of c bs] ok bs c by blast
      qed
    qed
  next
    case False
    then show ?thesis using assms refused by (auto simp: exec_addr_def validate_range_shape_def split: if_splits)
  qed
qed

text \<open>How far the body has moved on since the address was set.\<close>

lemma edit_run_lag:
  assumes "es_body_revision s = ar_body_revision (es_addr s) + of_nat j"
  shows "\<exists>j' \<le> j + length reqs. es_body_revision (snd (in_process_run (edit_server json hasher) reqs s)) =
    ar_body_revision (es_addr (snd (in_process_run (edit_server json hasher) reqs s))) + of_nat j'"
  using assms
proof (induction reqs arbitrary: s j)
  case (Cons req reqs)
  let ?s = "snd (in_process_call (edit_server json hasher) req s)"
  have "\<exists>j' \<le> Suc j. es_body_revision ?s = ar_body_revision (es_addr ?s) + of_nat j'"
  proof (cases "\<exists>fid. req = ReqClunk fid")
    case True
    then obtain fid where "req = ReqClunk fid" by blast
    then have "(es_body_revision ?s = es_body_revision s \<and> es_addr ?s = es_addr s) \<or>
        (es_body_revision ?s = es_body_revision s + 1 \<and> es_addr ?s = es_addr s) \<or>
        es_body_revision ?s = ar_body_revision (es_addr ?s)"
      by (auto simp: edit_server_def ready_def edit_clunk_def commit_document_def commit_addr_def edit_commit_ctl_def Let_def
          split: option.split edit_node.split sum.split)
    then show ?thesis
    proof (elim disjE conjE)
      assume "es_body_revision ?s = es_body_revision s + 1" "es_addr ?s = es_addr s"
      then show ?thesis using Cons.prems by (intro exI [of _ "Suc j"]) simp
    next
      assume "es_body_revision ?s = es_body_revision s" "es_addr ?s = es_addr s"
      then show ?thesis using Cons.prems by (intro exI [of _ j]) simp
    qed (intro exI [of _ 0], simp)
  qed (use Cons.prems in \<open>auto simp: edit_other_ops intro!: exI [of _ j]\<close>)
  then obtain j1 where j1: "j1 \<le> Suc j" "es_body_revision ?s = ar_body_revision (es_addr ?s) + of_nat j1" by blast
  obtain j2 where "j2 \<le> j1 + length reqs" "es_body_revision (snd (in_process_run (edit_server json hasher) reqs ?s)) =
      ar_body_revision (es_addr (snd (in_process_run (edit_server json hasher) reqs ?s))) + of_nat j2"
    using Cons.IH [OF j1(2)] by blast
  then show ?case using j1(1) by (intro exI [of _ j2]) simp
qed auto

text \<open>
  (C30) An execution runs exactly the text its author addressed: when \<open>exec\<close> with an address read
  from the buffer is committed after any other requests, either it is refused as a bad request and
  nothing is recorded, or the body and the address are still those the author read, the one event
  recorded carries precisely the addressed bytes, and the answer is what the policy says of them.
\<close>

theorem exec_runs_addressed_text:
  assumes s0: "s0 = snd (in_process_run (edit_server json hasher) before (with_execution_policy policy))"
    and s1: "s1 = snd (in_process_run (edit_server json hasher) between s0)" "length before + length between < 2 ^ 64"
    and f: "fid \<noteq> ROOT" "es_fids s1 fid = Some f" "ef_node f = EditCtl" "ef_wrote f"
      "ef_write_buf f = ''exec '' @ show_address (es_addr s0)"
    and clunk: "edit_clunk json hasher fid s1 = (r, s2)"
  shows "(r = Err BadRequest \<and> es_event s2 = es_event s1 \<and> es_body s2 = es_body s1) \<or>
    (es_body s1 = es_body s0 \<and> es_addr s1 = es_addr s0 \<and> es_body s2 = es_body s0 \<and>
     (let command = subrange (es_body s0) (ar_start (es_addr s0)) (ar_end (es_addr s0)); status = policy_decide policy command in
      (\<exists>bs. json (EvExec (es_addr s0) command status) = Some bs \<and>
        stream_buf (es_event s2) = stream_buf (es_event s1) @ bs @ [newline]) \<and>
      r = (case status of Accepted \<Rightarrow> Ok () | Denied \<Rightarrow> Err NoAccess)))"
proof -
  have "edit_inv s0" unfolding s0 by (rule edit_run_inv) simp
  then have parse: "parse_exec (ef_write_buf f) = Ok (es_addr s0)"
    unfolding f(5) by (intro parse_exec_show) (simp_all add: edit_inv_def)
  let ?s = "s1\<lparr>es_fids := (es_fids s1)(fid := None)\<rparr>"
  have policy: "es_execution_policy s1 = policy" unfolding s1(1) s0 by (simp add: with_execution_policy_def)
  show ?thesis
  proof (cases "utf8_valid (ef_write_buf f)")
    case False
    then show ?thesis using clunk f by (auto simp: edit_clunk_def edit_commit_ctl_def)
  next
    case True
    then have "exec_addr json (es_addr s0) ?s = (r, s2)"
      using clunk f parse by (simp add: edit_clunk_def edit_commit_ctl_def)
    then show ?thesis
    proof (cases rule: exec_addr_outcome)
      case (recorded command bs)
      obtain k where k: "k \<le> length between" "es_body_revision s1 = es_body_revision s0 + of_nat k"
          "k = 0 \<longrightarrow> es_body s1 = es_body s0"
        using edit_run_revision [of between json hasher s0] unfolding s1(1) [symmetric] by blast
      have "\<exists>j \<le> 0 + length before. es_body_revision s0 = ar_body_revision (es_addr s0) + of_nat j"
        unfolding s0 by (rule edit_run_lag) (simp add: with_execution_policy_def address_collapsed_def)
      then obtain j where j: "j \<le> length before" "es_body_revision s0 = ar_body_revision (es_addr s0) + of_nat j" by auto
      have "ar_body_revision (es_addr s0) = ar_body_revision (es_addr s0) + of_nat (j + k)"
        using recorded(2) j(2) k(2) by (simp add: add.assoc)
      then have zero: "(of_nat (j + k) :: u64) = 0" by (metis add_cancel_left_right)
      have "j + k < 2 ^ 64" using j(1) k(1) s1(2) by simp
      then have "unat (of_nat (j + k) :: u64) = j + k" unfolding unat_of_nat by (simp add: take_bit_eq_mod)
      then have "k = 0" unfolding zero by simp
      then have "es_body s1 = es_body s0" using k(3) by simp
      then show ?thesis using recorded policy by (auto simp: Let_def)
    qed simp
  qed
qed

definition demo_edit_json :: "edit_event \<Rightarrow> bytes option" where
  "demo_edit_json e = (case e of EvEdit file _ _ \<Rightarrow> Some file | EvAddress a \<Rightarrow> Some (show_address a)
     | EvExec a command _ \<Rightarrow> Some command)"

definition demo_edit_body :: "request list" where
  "demo_edit_body = [ReqWalk ROOT 1 [''body''], ReqOpen 1 OpenWrite, ReqWrite 1 0 ''say hi'', ReqClunk 1]"

definition demo_edit_addr :: "request list" where
  "demo_edit_addr = [ReqWalk ROOT 1 [''addr''], ReqOpen 1 OpenWrite, ReqWrite 1 0 ''rev:1 4..6'', ReqClunk 1]"

definition demo_edit_between :: "request list" where
  "demo_edit_between = [ReqWalk ROOT 2 [''ctl''], ReqOpen 2 OpenWrite, ReqWrite 2 0 ''exec rev:1 addr:1 4..6'']"

lemmas edit_eval = edit_server_def ready_def edit_walk_def edit_open_def edit_write_def edit_clunk_def edit_node_of_def
  edit_child_def edit_qid_def edit_fid_at_def edit_is_writable_def edit_seed_def write_intent_def opened_for_write_def
  doc_write_def edit_max_doc_bytes_def commit_document_def commit_addr_def edit_append_event_def edit_bump_def
  with_execution_policy_def address_collapsed_def Let_def

lemma demo_facts:
  "utf8_valid ''say hi''" "utf8_valid ''rev:1 4..6''"
  "parse_addr_write ''rev:1 4..6'' = Ok \<lparr>ar_body_revision = 1, ar_addr_revision = 0, ar_start = 4, ar_end = 6\<rparr>"
  "is_char_boundary ''say hi'' 4" "is_char_boundary ''say hi'' 6"
  by code_simp+

definition demo_edit_state :: "version_table \<Rightarrow> edit_state" where
  "demo_edit_state vt =
     \<lparr>es_body = ''say hi'', es_tag = [], es_body_revision = 1,
      es_addr = \<lparr>ar_body_revision = 1, ar_addr_revision = 1, ar_start = 4, ar_end = 6\<rparr>,
      es_event = stream_append (show_address \<lparr>ar_body_revision = 1, ar_addr_revision = 1, ar_start = 4, ar_end = 6\<rparr> @ [newline])
        (stream_append (''body'' @ [newline]) stream_new),
      es_versions = vt, es_fids = Map.empty, es_execution_policy = AcceptAll\<rparr>"

lemma demo_edit_reached:
  "\<exists>vt. snd (in_process_run (edit_server demo_edit_json (\<lambda>_. 0)) (demo_edit_body @ demo_edit_addr) (with_execution_policy AcceptAll)) =
     demo_edit_state vt"
  unfolding demo_edit_state_def
  by (rule exI) (simp add: demo_edit_body_def demo_edit_addr_def edit_eval demo_facts demo_edit_json_def validate_range_shape_def)

lemma demo_edit_written:
  "es_fids (snd (in_process_run (edit_server demo_edit_json (\<lambda>_. 0)) demo_edit_between (demo_edit_state vt))) 2 =
     Some \<lparr>ef_node = EditCtl, ef_mode = Some OpenWrite, ef_write_buf = ''exec rev:1 addr:1 4..6'', ef_wrote = True\<rparr>"
  "es_addr (demo_edit_state vt) = \<lparr>ar_body_revision = 1, ar_addr_revision = 1, ar_start = 4, ar_end = 6\<rparr>"
  "es_body (demo_edit_state vt) = ''say hi''"
  by (simp_all add: demo_edit_state_def demo_edit_between_def edit_eval)

lemma demo_edit_accepted:
  "fst (edit_clunk demo_edit_json (\<lambda>_. 0) 2
     (snd (in_process_run (edit_server demo_edit_json (\<lambda>_. 0)) demo_edit_between (demo_edit_state vt)))) = Ok ()"
proof -
  have "utf8_valid ''exec rev:1 addr:1 4..6''"
    "parse_exec ''exec rev:1 addr:1 4..6'' = Ok \<lparr>ar_body_revision = 1, ar_addr_revision = 1, ar_start = 4, ar_end = 6\<rparr>"
    by code_simp+
  then show ?thesis
    by (simp add: demo_edit_state_def demo_edit_between_def edit_eval edit_commit_ctl_def exec_addr_def validate_range_shape_def
        str_get_def demo_facts demo_edit_json_def)
qed

theorem exec_runs_addressed_text_witness:
  "let s0 = snd (in_process_run (edit_server demo_edit_json (\<lambda>_. 0)) (demo_edit_body @ demo_edit_addr) (with_execution_policy AcceptAll));
       s1 = snd (in_process_run (edit_server demo_edit_json (\<lambda>_. 0)) demo_edit_between s0);
       s2 = snd (edit_clunk demo_edit_json (\<lambda>_. 0) 2 s1)
   in fst (edit_clunk demo_edit_json (\<lambda>_. 0) 2 s1) = Ok () \<and>
      es_body s1 = ''say hi'' \<and> stream_buf (es_event s2) = stream_buf (es_event s1) @ ''hi'' @ [newline]"
proof -
  let ?s0 = "snd (in_process_run (edit_server demo_edit_json (\<lambda>_. 0)) (demo_edit_body @ demo_edit_addr) (with_execution_policy AcceptAll))"
  let ?s1 = "snd (in_process_run (edit_server demo_edit_json (\<lambda>_. 0)) demo_edit_between ?s0)"
  let ?c = "edit_clunk demo_edit_json (\<lambda>_. 0) 2 ?s1"
  obtain vt where vt: "?s0 = demo_edit_state vt" using demo_edit_reached by blast
  have doc: "''exec rev:1 addr:1 4..6'' = ''exec '' @ show_address (es_addr ?s0)"
    unfolding vt demo_edit_written by code_simp
  have cmd: "subrange (es_body ?s0) (ar_start (es_addr ?s0)) (ar_end (es_addr ?s0)) = ''hi''"
    unfolding vt demo_edit_written by code_simp
  have body: "es_body ?s0 = ''say hi''" unfolding vt demo_edit_written ..
  have f: "es_fids ?s1 2 = Some \<lparr>ef_node = EditCtl, ef_mode = Some OpenWrite, ef_write_buf = ''exec rev:1 addr:1 4..6'', ef_wrote = True\<rparr>"
    unfolding vt by (rule demo_edit_written)
  have "length (demo_edit_body @ demo_edit_addr) + length demo_edit_between < 2 ^ 64"
    by (simp add: demo_edit_body_def demo_edit_addr_def demo_edit_between_def)
  note exec = exec_runs_addressed_text [OF refl refl this _ f _ _ _ prod.collapse [symmetric], unfolded cmd]
  show ?thesis
    using exec doc body demo_edit_accepted [of vt, folded vt] unfolding Let_def by (simp add: demo_edit_json_def)
qed

end
