(* ===== verification/Branch_Fs.thy ===== *)
theory Branch_Fs
  imports AP_Server Knowledge_Store Rust_Text
begin

text \<open>
  Branching execution (\<open>crates/branchfs/src/lib.rs\<close>): named branches of checkpoints in a knowledge
  store, forked, scored, selected and discarded by command documents written to \<open>ctl\<close>, with every
  change recorded in an event stream. \<open>hs\<close> is the store's hashing, \<open>hasher\<close> the standard library's
  default hasher; the JSON codec is a parameter. A score is a floating-point number that the code
  only stores and tests for finiteness, so its type is a parameter too.
\<close>

section \<open>Records and commands\<close>

datatype branch_status = BranchActive | BranchSelected

record 'f branch_record =
  brec_version :: u16
  brec_id :: string
  brec_base :: "string option"
  brec_root :: content_hash
  brec_status :: branch_status
  brec_score :: "'f option"
  brec_summary :: "string option"

definition branch_base_record :: "string \<Rightarrow> content_hash \<Rightarrow> 'f branch_record" where
  "branch_base_record ident root =
     \<lparr>brec_version = 1, brec_id = ident, brec_base = None, brec_root = root, brec_status = BranchActive,
      brec_score = None, brec_summary = None\<rparr>"

definition branch_fork_record :: "string \<Rightarrow> string \<Rightarrow> content_hash \<Rightarrow> 'f branch_record" where
  "branch_fork_record ident base root =
     \<lparr>brec_version = 1, brec_id = ident, brec_base = Some base, brec_root = root, brec_status = BranchActive,
      brec_score = None, brec_summary = None\<rparr>"

datatype 'f branch_command =
    Fork string string string
  | Score string 'f "string option"
  | Select string
  | Discard string

record 'f selected_branch =
  sb_id :: string
  sb_root :: content_hash
  sb_score :: "'f option"

datatype 'f branch_event =
    EvBase string content_hash
  | EvFork string string content_hash
  | EvScore string 'f "string option"
  | EvSelect string content_hash
  | EvDiscard string content_hash

record 'f branch_json =
  bj_command :: "string \<Rightarrow> 'f branch_command option"
  bj_record :: "'f branch_record \<Rightarrow> bytes option"
  bj_selected :: "'f selected_branch \<Rightarrow> bytes option"
  bj_event :: "'f branch_event \<Rightarrow> bytes option"
  bj_is_finite :: "'f \<Rightarrow> bool"

section \<open>State\<close>

datatype branch_node = BranchRoot | BranchCtl | BranchesDir | Branch string | BranchSelectedFile | BranchEvents

record branch_fid =
  bf_node :: branch_node
  bf_mode :: "open_mode option"
  bf_write_buf :: bytes
  bf_wrote :: bool

record 'f branch_state =
  bs_store :: knowledge_store
  bs_branches :: "(string, 'f branch_record) btree"
  bs_selected :: "string option"
  bs_events :: stream
  bs_versions :: version_table
  bs_fids :: "fid \<rightharpoonup> branch_fid"

definition branch_max_doc_bytes :: nat where
  "branch_max_doc_bytes = 2 ^ 20"

definition branchfs_new :: "'f branch_state" where
  "branchfs_new = \<lparr>bs_store = ks_new, bs_branches = [], bs_selected = None, bs_events = stream_new,
     bs_versions = vt_new, bs_fids = Map.empty\<rparr>"

definition branch_fid_at :: "branch_node \<Rightarrow> branch_fid" where
  "branch_fid_at node = \<lparr>bf_node = node, bf_mode = None, bf_write_buf = [], bf_wrote = False\<rparr>"

definition is_ascii_alphanumeric :: "char \<Rightarrow> bool" where
  "is_ascii_alphanumeric c \<longleftrightarrow>
     (let n = of_char c :: nat in n \<in> {0x30..0x39} \<or> n \<in> {0x41..0x5A} \<or> n \<in> {0x61..0x7A})"

definition validate_branch_id :: "string \<Rightarrow> unit res" where
  "validate_branch_id ident =
     (if ident = [] \<or> \<not> list_all (\<lambda>c. is_ascii_alphanumeric c \<or> c = CHR ''-'' \<or> c = CHR ''_'') ident
      then Err BadRequest else Ok ())"

fun branch_knowledge_error :: "knowledge_error \<Rightarrow> error_code" where
  "branch_knowledge_error (MissingBlock _) = NotFound"
| "branch_knowledge_error (MissingNode _) = NotFound"
| "branch_knowledge_error (UnknownRoot _) = NotFound"
| "branch_knowledge_error RootNoAccess = NoAccess"
| "branch_knowledge_error (HashMismatch _) = BadRequest"
| "branch_knowledge_error (Cycle _) = BadRequest"

fun branch_node_identity :: "(string \<Rightarrow> u64) \<Rightarrow> branch_node \<Rightarrow> file_kind \<times> u64" where
  "branch_node_identity hasher BranchRoot = (KDir, hasher ''/'')"
| "branch_node_identity hasher BranchCtl = (KFile, hasher ''ctl'')"
| "branch_node_identity hasher BranchesDir = (KDir, hasher ''branches'')"
| "branch_node_identity hasher (Branch ident) = (KFile, hasher (''branches/'' @ ident))"
| "branch_node_identity hasher BranchSelectedFile = (KFile, hasher ''selected'')"
| "branch_node_identity hasher BranchEvents = (KStream, hasher ''events'')"

definition branch_bump :: "(string \<Rightarrow> u64) \<Rightarrow> branch_node \<Rightarrow> 'f branch_state \<Rightarrow> 'f branch_state" where
  "branch_bump hasher node s = s\<lparr>bs_versions := vt_bump (snd (branch_node_identity hasher node)) (bs_versions s)\<rparr>"

definition branch_node_of :: "'f branch_state \<Rightarrow> fid \<Rightarrow> branch_node res" where
  "branch_node_of s fid = (if fid = ROOT then Ok BranchRoot else ok_or (map_option bf_node (bs_fids s fid)) NotFound)"

definition branch_qid :: "(string \<Rightarrow> u64) \<Rightarrow> 'f branch_state \<Rightarrow> branch_node \<Rightarrow> qid" where
  "branch_qid hasher s node =
     (let (kind, path) = branch_node_identity hasher node in
      \<lparr>qid_kind = kind, qid_version = vt_get (bs_versions s) path, qid_path = path\<rparr>)"

definition branch_child :: "'f branch_state \<Rightarrow> branch_node \<Rightarrow> string \<Rightarrow> branch_node res" where
  "branch_child s node name =
     (case node of
        BranchRoot \<Rightarrow>
          if name = ''ctl'' then Ok BranchCtl
          else if name = ''branches'' then Ok BranchesDir
          else if name = ''selected'' then Ok BranchSelectedFile
          else if name = ''events'' then Ok BranchEvents
          else Err NotFound
      | BranchesDir \<Rightarrow> if bt_has (bs_branches s) name then Ok (Branch name) else Err NotFound
      | _ \<Rightarrow> Err NotDirectory)"

fun branch_walk_names :: "'f branch_state \<Rightarrow> branch_node \<Rightarrow> string list \<Rightarrow> branch_node res" where
  "branch_walk_names s node [] = Ok node"
| "branch_walk_names s node (name # names) =
     (case branch_child s node name of Inl e \<Rightarrow> Err e | Inr child \<Rightarrow> branch_walk_names s child names)"

definition json_line :: "bytes option \<Rightarrow> bytes res" where
  "json_line encoded = map_sum id (\<lambda>bs. bs @ [newline]) (ok_or encoded BadRequest)"

definition branch_listing :: "string list \<Rightarrow> bytes" where
  "branch_listing names = concat (map (\<lambda>name. name @ [newline]) names)"

definition selected_bytes :: "'f branch_json \<Rightarrow> 'f branch_state \<Rightarrow> bytes res" where
  "selected_bytes j s =
     (case bs_selected s of
        None \<Rightarrow> Ok (''null'' @ [newline])
      | Some ident \<Rightarrow>
          (case bt_get (bs_branches s) ident of
             None \<Rightarrow> Err NotFound
           | Some r \<Rightarrow> json_line (bj_selected j \<lparr>sb_id = ident, sb_root = brec_root r, sb_score = brec_score r\<rparr>)))"

definition branch_computed_bytes :: "'f branch_json \<Rightarrow> 'f branch_state \<Rightarrow> branch_node \<Rightarrow> bytes res" where
  "branch_computed_bytes j s node =
     (case node of
        BranchRoot \<Rightarrow> Ok (join_with [newline] [''ctl'', ''branches'', ''selected'', ''events''])
      | BranchCtl \<Rightarrow> Ok (''# branchfs ctl: write one branch command JSON document, then clunk'' @ [newline])
      | BranchesDir \<Rightarrow> Ok (branch_listing (bt_keys (bs_branches s)))
      | Branch ident \<Rightarrow>
          (case bt_get (bs_branches s) ident of None \<Rightarrow> Err NotFound | Some r \<Rightarrow> json_line (bj_record j r))
      | BranchSelectedFile \<Rightarrow> selected_bytes j s
      | BranchEvents \<Rightarrow> Err Unsupported)"

definition branch_stream_for :: "'f branch_state \<Rightarrow> branch_node \<Rightarrow> stream option" where
  "branch_stream_for s node = (case node of BranchEvents \<Rightarrow> Some (bs_events s) | _ \<Rightarrow> None)"

section \<open>Commands\<close>

definition branch_append_event ::
  "'f branch_json \<Rightarrow> 'f branch_event \<Rightarrow> 'f branch_state \<Rightarrow> unit res \<times> 'f branch_state" where
  "branch_append_event j event s =
     (case bj_event j event of
        None \<Rightarrow> (Err BadRequest, s)
      | Some bs \<Rightarrow> (Ok (), s\<lparr>bs_events := stream_append (bs @ [newline]) (bs_events s)\<rparr>))"

definition install_base_branch ::
  "hashing \<Rightarrow> 'f branch_json \<Rightarrow> (string \<Rightarrow> u64) \<Rightarrow> string \<Rightarrow> bytes list \<Rightarrow> 'f branch_state \<Rightarrow>
     content_hash res \<times> 'f branch_state" where
  "install_base_branch hs j hasher ident blocks s =
     (case validate_branch_id ident of
        Inl e \<Rightarrow> (Err e, s)
      | Inr _ \<Rightarrow>
          if bt_has (bs_branches s) ident then (Err BadRequest, s)
          else
            (case checkpoint_from_bytes hs blocks (bs_store s) of
               (Inl e, store) \<Rightarrow> (Err (branch_knowledge_error e), s\<lparr>bs_store := store\<rparr>)
             | (Inr root, store) \<Rightarrow>
                 (let s1 = s\<lparr>bs_store := store, bs_branches := bt_insert ident (branch_base_record ident root) (bs_branches s)\<rparr>;
                      s2 = branch_bump hasher (Branch ident) (branch_bump hasher BranchesDir s1)
                  in case branch_append_event j (EvBase ident root) s2 of
                       (Inl e, s3) \<Rightarrow> (Err e, s3)
                     | (Inr _, s3) \<Rightarrow> (Ok root, s3))))"

definition fork_branch ::
  "hashing \<Rightarrow> 'f branch_json \<Rightarrow> (string \<Rightarrow> u64) \<Rightarrow> string \<Rightarrow> string \<Rightarrow> string \<Rightarrow> 'f branch_state \<Rightarrow>
     unit res \<times> 'f branch_state" where
  "fork_branch hs j hasher ident from delta s =
     (case validate_branch_id ident of
        Inl e \<Rightarrow> (Err e, s)
      | Inr _ \<Rightarrow>
          (case validate_branch_id from of
             Inl e \<Rightarrow> (Err e, s)
           | Inr _ \<Rightarrow>
               if bt_has (bs_branches s) ident then (Err BadRequest, s)
               else
                 (case bt_get (bs_branches s) from of
                    None \<Rightarrow> (Err NotFound, s)
                  | Some base \<Rightarrow>
                      (case fork_append_bytes hs (brec_root base) [delta] (bs_store s) of
                         (Inl e, store) \<Rightarrow> (Err (branch_knowledge_error e), s\<lparr>bs_store := store\<rparr>)
                       | (Inr root, store) \<Rightarrow>
                           (let s1 = s\<lparr>bs_store := store,
                                bs_branches := bt_insert ident (branch_fork_record ident from root) (bs_branches s)\<rparr>;
                                s2 = branch_bump hasher (Branch ident) (branch_bump hasher BranchesDir s1)
                            in branch_append_event j (EvFork ident from root) s2)))))"

definition score_branch ::
  "'f branch_json \<Rightarrow> (string \<Rightarrow> u64) \<Rightarrow> string \<Rightarrow> 'f \<Rightarrow> string option \<Rightarrow> 'f branch_state \<Rightarrow>
     unit res \<times> 'f branch_state" where
  "score_branch j hasher ident score summary s =
     (case validate_branch_id ident of
        Inl e \<Rightarrow> (Err e, s)
      | Inr _ \<Rightarrow>
          if \<not> bj_is_finite j score then (Err BadRequest, s)
          else
            (case bt_get (bs_branches s) ident of
               None \<Rightarrow> (Err NotFound, s)
             | Some r \<Rightarrow>
                 (let s1 = branch_bump hasher (Branch ident)
                        (s\<lparr>bs_branches := bt_insert ident (r\<lparr>brec_score := Some score, brec_summary := summary\<rparr>) (bs_branches s)\<rparr>);
                      s2 = (if bs_selected s1 = Some ident then branch_bump hasher BranchSelectedFile s1 else s1)
                  in branch_append_event j (EvScore ident score summary) s2)))"

text \<open>The branch selected so far, if it is still visible, becomes active again.\<close>

definition deselect_previous :: "(string \<Rightarrow> u64) \<Rightarrow> 'f branch_state \<Rightarrow> 'f branch_state" where
  "deselect_previous hasher s =
     (let s1 = s\<lparr>bs_selected := None\<rparr> in
      case bs_selected s of
        None \<Rightarrow> s1
      | Some previous \<Rightarrow>
          (case bt_get (bs_branches s1) previous of
             None \<Rightarrow> s1
           | Some r \<Rightarrow> branch_bump hasher (Branch previous)
               (s1\<lparr>bs_branches := bt_insert previous (r\<lparr>brec_status := BranchActive\<rparr>) (bs_branches s1)\<rparr>)))"

definition select_branch ::
  "'f branch_json \<Rightarrow> (string \<Rightarrow> u64) \<Rightarrow> string \<Rightarrow> 'f branch_state \<Rightarrow> unit res \<times> 'f branch_state" where
  "select_branch j hasher ident s =
     (case validate_branch_id ident of
        Inl e \<Rightarrow> (Err e, s)
      | Inr _ \<Rightarrow>
          if \<not> bt_has (bs_branches s) ident then (Err NotFound, s)
          else
            (let s1 = deselect_previous hasher s in
             case bt_get (bs_branches s1) ident of
               None \<Rightarrow> (Err NotFound, s1)
             | Some r \<Rightarrow>
                 (let s2 = s1\<lparr>bs_branches := bt_insert ident (r\<lparr>brec_status := BranchSelected\<rparr>) (bs_branches s1),
                        bs_selected := Some ident\<rparr>;
                      s3 = branch_bump hasher (Branch ident) (branch_bump hasher BranchSelectedFile s2)
                  in branch_append_event j (EvSelect ident (brec_root r)) s3)))"

definition discard_branch ::
  "'f branch_json \<Rightarrow> (string \<Rightarrow> u64) \<Rightarrow> string \<Rightarrow> 'f branch_state \<Rightarrow> unit res \<times> 'f branch_state" where
  "discard_branch j hasher ident s =
     (case validate_branch_id ident of
        Inl e \<Rightarrow> (Err e, s)
      | Inr _ \<Rightarrow>
          (case bt_get (bs_branches s) ident of
             None \<Rightarrow> (Err NotFound, s)
           | Some r \<Rightarrow>
               (let s1 = s\<lparr>bs_branches := bt_remove ident (bs_branches s)\<rparr>;
                    s2 = (if bs_selected s1 = Some ident then branch_bump hasher BranchSelectedFile (s1\<lparr>bs_selected := None\<rparr>) else s1);
                    s3 = branch_bump hasher (Branch ident) (branch_bump hasher BranchesDir s2)
                in branch_append_event j (EvDiscard ident (brec_root r)) s3)))"

definition branch_commit_ctl ::
  "hashing \<Rightarrow> 'f branch_json \<Rightarrow> (string \<Rightarrow> u64) \<Rightarrow> bytes \<Rightarrow> 'f branch_state \<Rightarrow> unit res \<times> 'f branch_state" where
  "branch_commit_ctl hs j hasher bs s =
     (if \<not> utf8_valid bs then (Err BadRequest, s)
      else
        (case bj_command j bs of
           None \<Rightarrow> (Err BadRequest, s)
         | Some (Fork ident from delta) \<Rightarrow> fork_branch hs j hasher ident from delta s
         | Some (Score ident score summary) \<Rightarrow> score_branch j hasher ident score summary s
         | Some (Select ident) \<Rightarrow> select_branch j hasher ident s
         | Some (Discard ident) \<Rightarrow> discard_branch j hasher ident s))"

section \<open>The file server\<close>

definition branch_is_writable :: "branch_node \<Rightarrow> bool" where
  "branch_is_writable node \<longleftrightarrow> node = BranchCtl"

definition branch_walk ::
  "(string \<Rightarrow> u64) \<Rightarrow> fid \<Rightarrow> fid \<Rightarrow> string list \<Rightarrow> 'f branch_state \<Rightarrow> qid res \<times> 'f branch_state" where
  "branch_walk hasher fid newfid names s =
     (if newfid = ROOT \<or> bs_fids s newfid \<noteq> None then (Err BadRequest, s)
      else
        (case branch_node_of s fid of
           Inl e \<Rightarrow> (Err e, s)
         | Inr start \<Rightarrow>
             (case branch_walk_names s start names of
                Inl e \<Rightarrow> (Err e, s)
              | Inr node \<Rightarrow> (Ok (branch_qid hasher s node), s\<lparr>bs_fids := (bs_fids s)(newfid \<mapsto> branch_fid_at node)\<rparr>))))"

definition branch_open ::
  "(string \<Rightarrow> u64) \<Rightarrow> fid \<Rightarrow> open_mode \<Rightarrow> 'f branch_state \<Rightarrow> qid res \<times> 'f branch_state" where
  "branch_open hasher fid mode s =
     (case branch_node_of s fid of
        Inl e \<Rightarrow> (Err e, s)
      | Inr node \<Rightarrow>
          if fid \<noteq> ROOT \<and> already_open bf_mode (bs_fids s fid) then (Err BadRequest, s)
          else if write_intent mode \<and> \<not> branch_is_writable node then (Err NoAccess, s)
          else if fid = ROOT then (Ok (branch_qid hasher s node), s)
          else
            (case bs_fids s fid of
               None \<Rightarrow> (Err NotFound, s)
             | Some f \<Rightarrow>
                 (Ok (branch_qid hasher s node), s\<lparr>bs_fids := (bs_fids s)(fid \<mapsto> f\<lparr>bf_mode := Some mode\<rparr>)\<rparr>)))"

definition branch_read_allowed :: "'f branch_state \<Rightarrow> fid \<Rightarrow> unit res" where
  "branch_read_allowed s fid =
     (if fid = ROOT then Ok ()
      else
        (case bs_fids s fid of
           None \<Rightarrow> Err NotFound
         | Some f \<Rightarrow> if opened_for_read (bf_mode f) then Ok () else Err NoAccess))"

definition branch_read ::
  "'f branch_json \<Rightarrow> fid \<Rightarrow> offset \<Rightarrow> u32 \<Rightarrow> 'f branch_state \<Rightarrow> bytes poll \<times> 'f branch_state" where
  "branch_read j fid offset count s =
     (case branch_read_allowed s fid of
        Inl e \<Rightarrow> (Some (Err e), s)
      | Inr _ \<Rightarrow>
          (case branch_node_of s fid of
             Inl e \<Rightarrow> (Some (Err e), s)
           | Inr node \<Rightarrow>
               (case branch_stream_for s node of
                  Some st \<Rightarrow> (map_option Ok (stream_read st offset count), s)
                | None \<Rightarrow> (Some (map_sum id (\<lambda>bs. slice bs offset count) (branch_computed_bytes j s node)), s))))"

definition branch_write ::
  "fid \<Rightarrow> offset \<Rightarrow> bytes \<Rightarrow> 'f branch_state \<Rightarrow> u32 res \<times> 'f branch_state" where
  "branch_write fid offset data s =
     (case branch_node_of s fid of
        Inl e \<Rightarrow> (Err e, s)
      | Inr node \<Rightarrow>
          (case bs_fids s fid of
             None \<Rightarrow> (Err NotFound, s)
           | Some f \<Rightarrow>
               if \<not> opened_for_write (bf_mode f) then (Err NoAccess, s)
               else if \<not> branch_is_writable node then (Err Unsupported, s)
               else
                 (case doc_write branch_max_doc_bytes offset data (bf_write_buf f) of
                    Inl e \<Rightarrow> (Err e, s)
                  | Inr buf \<Rightarrow>
                      (Ok (of_nat (length data)),
                       s\<lparr>bs_fids := (bs_fids s)(fid \<mapsto> f\<lparr>bf_write_buf := buf, bf_wrote := True\<rparr>)\<rparr>))))"

definition branch_stat_length :: "'f branch_json \<Rightarrow> 'f branch_state \<Rightarrow> branch_node \<Rightarrow> u64 res" where
  "branch_stat_length j s node =
     (case node of
        BranchEvents \<Rightarrow> map_sum id stream_len (ok_or (branch_stream_for s node) NotFound)
      | _ \<Rightarrow> map_sum id (\<lambda>bs. of_nat (length bs)) (branch_computed_bytes j s node))"

definition branch_stat ::
  "'f branch_json \<Rightarrow> (string \<Rightarrow> u64) \<Rightarrow> fid \<Rightarrow> 'f branch_state \<Rightarrow> stat res \<times> 'f branch_state" where
  "branch_stat j hasher fid s =
     (case branch_node_of s fid of
        Inl e \<Rightarrow> (Err e, s)
      | Inr node \<Rightarrow>
          (map_sum id (\<lambda>len. \<lparr>stat_name = [], stat_qid = branch_qid hasher s node, stat_length = len,
             stat_executable = False, stat_writable = branch_is_writable node\<rparr>) (branch_stat_length j s node), s))"

definition branch_create :: "fid \<Rightarrow> fid \<Rightarrow> string \<Rightarrow> file_kind \<Rightarrow> 'f branch_state \<Rightarrow> qid res \<times> 'f branch_state" where
  "branch_create fid newfid name kind s = (Err Unsupported, s)"

definition branch_remove :: "fid \<Rightarrow> 'f branch_state \<Rightarrow> unit res \<times> 'f branch_state" where
  "branch_remove fid s = (Err Unsupported, s)"

definition branch_clunk ::
  "hashing \<Rightarrow> 'f branch_json \<Rightarrow> (string \<Rightarrow> u64) \<Rightarrow> fid \<Rightarrow> 'f branch_state \<Rightarrow> unit res \<times> 'f branch_state" where
  "branch_clunk hs j hasher fid s =
     (if fid = ROOT then (Ok (), s)
      else
        (case bs_fids s fid of
           None \<Rightarrow> (Err NotFound, s)
         | Some f \<Rightarrow>
             (let s1 = s\<lparr>bs_fids := (bs_fids s)(fid := None)\<rparr> in
              if \<not> bf_wrote f then (Ok (), s1)
              else (case bf_node f of BranchCtl \<Rightarrow> branch_commit_ctl hs j hasher (bf_write_buf f) s1 | _ \<Rightarrow> (Ok (), s1)))))"

definition branch_server :: "hashing \<Rightarrow> 'f branch_json \<Rightarrow> (string \<Rightarrow> u64) \<Rightarrow> 'f branch_state file_server" where
  "branch_server hs j hasher =
     \<lparr>fs_walk = (\<lambda>f n ns s. ready (branch_walk hasher f n ns s)), fs_open = (\<lambda>f m s. ready (branch_open hasher f m s)),
      fs_read = branch_read j, fs_write = (\<lambda>f off d s. ready (branch_write f off d s)),
      fs_stat = (\<lambda>f s. ready (branch_stat j hasher f s)),
      fs_create = (\<lambda>f n nm k s. ready (branch_create f n nm k s)),
      fs_remove = (\<lambda>f s. ready (branch_remove f s)), fs_clunk = (\<lambda>f s. ready (branch_clunk hs j hasher f s))\<rparr>"

section \<open>Fids\<close>

definition branch_live :: "'f branch_state \<Rightarrow> fid set" where
  "branch_live s = dom (bs_fids s) - {ROOT}"

lemma branch_bump_simps [simp]:
  "bs_store (branch_bump hasher n s) = bs_store s" "bs_branches (branch_bump hasher n s) = bs_branches s"
  "bs_selected (branch_bump hasher n s) = bs_selected s" "bs_fids (branch_bump hasher n s) = bs_fids s"
  "bs_events (branch_bump hasher n s) = bs_events s"
  by (simp_all add: branch_bump_def)

lemma branch_append_event_simps [simp]:
  "bs_store (snd (branch_append_event j e s)) = bs_store s" "bs_branches (snd (branch_append_event j e s)) = bs_branches s"
  "bs_selected (snd (branch_append_event j e s)) = bs_selected s" "bs_fids (snd (branch_append_event j e s)) = bs_fids s"
  by (simp_all add: branch_append_event_def split: option.split)

lemma deselect_previous_simps [simp]:
  "bs_store (deselect_previous hasher s) = bs_store s" "bs_selected (deselect_previous hasher s) = None"
  "bs_fids (deselect_previous hasher s) = bs_fids s"
  by (simp_all add: deselect_previous_def Let_def split: option.split)

lemmas branch_command_defs = fork_branch_def score_branch_def select_branch_def discard_branch_def

lemma branch_commit_fids [simp]: "bs_fids (snd (branch_commit_ctl hs j hasher bs s)) = bs_fids s"
  by (simp add: branch_commit_ctl_def branch_command_defs Let_def split: option.split branch_command.split sum.split prod.split)

lemma branch_clunk_fids: "fid \<noteq> ROOT \<Longrightarrow> bs_fids (snd (branch_clunk hs j hasher fid s)) = (bs_fids s)(fid := None)"
  by (auto simp: branch_clunk_def Let_def split: option.split branch_node.split)

interpretation branch: fid_server "branch_server hs j hasher" branch_live
proof
  fix f s
  show "branch_live (snd (fs_clunk (branch_server hs j hasher) f s)) = branch_live s - {f}"
    by (cases "f = ROOT") (auto simp: branch_server_def branch_live_def ready_def branch_clunk_fids, simp_all add: branch_clunk_def)
qed (auto simp: branch_server_def branch_live_def ready_def branch_walk_def branch_open_def branch_read_def branch_write_def
    branch_stat_def branch_create_def branch_remove_def Let_def
    split: option.splits sum.splits if_splits branch_node.splits)

section \<open>The invariant\<close>

text \<open>
  Every visible branch is recorded under its own well-formed name, its root is in the store, and it is
  marked selected exactly when it is the selected branch; the selected branch is visible.
\<close>

definition record_ok :: "'f branch_state \<Rightarrow> string \<Rightarrow> 'f branch_record \<Rightarrow> bool" where
  "record_ok s ident r \<longleftrightarrow>
     brec_id r = ident \<and> validate_branch_id ident = Ok () \<and> contains_node (bs_store s) (brec_root r) \<and>
     (brec_status r = BranchSelected \<longleftrightarrow> bs_selected s = Some ident)"

definition branch_inv :: "hashing \<Rightarrow> 'f branch_state \<Rightarrow> bool" where
  "branch_inv hs s \<longleftrightarrow>
     store_inv hs (bs_store s) \<and> bt_inv (bs_branches s) \<and>
     (\<forall>ident r. bt_get (bs_branches s) ident = Some r \<longrightarrow> record_ok s ident r) \<and>
     (\<forall>ident. bs_selected s = Some ident \<longrightarrow> bt_has (bs_branches s) ident)"

text \<open>A step of the server: the invariant holds after it, and the store has only grown.\<close>

definition branch_step :: "hashing \<Rightarrow> 'f branch_state \<Rightarrow> 'f branch_state \<Rightarrow> bool" where
  "branch_step hs s s' \<longleftrightarrow> branch_inv hs s' \<and> extends (bs_store s) (bs_store s')"

lemma branch_inv_new: "branch_inv hs branchfs_new"
  by (simp add: branch_inv_def branchfs_new_def)

lemma branch_step_frame:
  "branch_inv hs s \<Longrightarrow> bs_store s' = bs_store s \<Longrightarrow> bs_branches s' = bs_branches s \<Longrightarrow> bs_selected s' = bs_selected s \<Longrightarrow>
   branch_step hs s s'"
  by (simp add: branch_step_def branch_inv_def record_ok_def)

lemma branch_step_refl: "branch_inv hs s \<Longrightarrow> branch_step hs s s"
  by (simp add: branch_step_frame)

lemma extends_contains: "extends st st' \<Longrightarrow> contains_node st h \<Longrightarrow> contains_node st' h"
  by (auto simp: extends_def contains_node_def)

text \<open>Adding a branch whose root is in the grown store.\<close>

lemma branch_step_add:
  assumes "branch_inv hs s" "validate_branch_id ident = Ok ()" "\<not> bt_has (bs_branches s) ident"
    "store_inv hs store" "extends (bs_store s) store" "contains_node store (brec_root r)"
    "brec_id r = ident" "brec_status r = BranchActive"
    "bs_store s' = store" "bs_branches s' = bt_insert ident r (bs_branches s)" "bs_selected s' = bs_selected s"
  shows "branch_step hs s s'"
  using assms extends_contains [OF assms(5)]
  by (auto simp: branch_step_def branch_inv_def record_ok_def bt_has_def)

lemma branch_step_grow:
  assumes "branch_inv hs s" "store_inv hs store" "extends (bs_store s) store"
    "bs_store s' = store" "bs_branches s' = bs_branches s" "bs_selected s' = bs_selected s"
  shows "branch_step hs s s'"
  using assms extends_contains [OF assms(3)] by (auto simp: branch_step_def branch_inv_def record_ok_def)

lemma fork_append_bytes_contains:
  "fork_append_bytes hs base bss st = (Inr root, st') \<Longrightarrow> contains_node st' root"
  by (auto simp: fork_append_bytes_def fork_append_blocks_def case_prod_beta map_prod_def put_node_def Let_def contains_node_def
      split: if_splits sum.splits)

lemma checkpoint_from_bytes_contains:
  "checkpoint_from_bytes hs bss st = (Inr root, st') \<Longrightarrow> contains_node st' root"
  by (auto simp: checkpoint_from_bytes_def checkpoint_from_blocks_def case_prod_beta map_prod_def put_node_def Let_def contains_node_def
      split: if_splits sum.splits)

lemma fork_branch_step:
  assumes inv: "branch_inv hs s"
  shows "branch_step hs s (snd (fork_branch hs j hasher ident from delta s))"
proof (cases "validate_branch_id ident = Ok () \<and> validate_branch_id from = Ok () \<and> \<not> bt_has (bs_branches s) ident")
  case True
  show ?thesis
  proof (cases "bt_get (bs_branches s) from")
    case (Some base)
    obtain q store where fork: "fork_append_bytes hs (brec_root base) [delta] (bs_store s) = (q, store)" by fastforce
    have grow: "store_inv hs store" "extends (bs_store s) store"
      using fork_append_bytes_inv [of hs "bs_store s" "brec_root base" "[delta]"] extends_checkpoint_bytes(2) [of "bs_store s" hs "brec_root base" "[delta]"]
        inv by (simp_all add: fork branch_inv_def)
    show ?thesis
    proof (cases q)
      case (Inl e)
      then show ?thesis using True Some fork
        by (auto simp: fork_branch_def intro!: branch_step_grow [OF inv grow] split: sum.splits)
    next
      case (Inr root)
      have "contains_node store root" using fork_append_bytes_contains fork Inr by blast
      then show ?thesis using True Some fork Inr
        by (auto simp: fork_branch_def Let_def branch_fork_record_def
            intro!: branch_step_add [OF inv _ _ grow, of ident "branch_fork_record ident from root"] split: sum.splits)
    qed
  qed (use True in \<open>auto simp: fork_branch_def branch_step_refl [OF inv] split: sum.splits\<close>)
qed (auto simp: fork_branch_def branch_step_refl [OF inv] split: sum.splits)

lemma install_base_branch_step:
  assumes inv: "branch_inv hs s"
  shows "branch_step hs s (snd (install_base_branch hs j hasher ident blocks s))"
proof (cases "validate_branch_id ident = Ok () \<and> \<not> bt_has (bs_branches s) ident")
  case True
  obtain q store where chk: "checkpoint_from_bytes hs blocks (bs_store s) = (q, store)" by fastforce
  have grow: "store_inv hs store" "extends (bs_store s) store"
    using checkpoint_from_bytes_inv [of hs "bs_store s" blocks] extends_checkpoint_bytes(1) [of "bs_store s" hs blocks]
      inv by (simp_all add: chk branch_inv_def)
  show ?thesis
  proof (cases q)
    case (Inl e)
    then show ?thesis using True chk
      by (auto simp: install_base_branch_def intro!: branch_step_grow [OF inv grow] split: sum.splits)
  next
    case (Inr root)
    have root: "contains_node store root" using checkpoint_from_bytes_contains chk Inr by blast
    let ?s = "branch_bump hasher (Branch ident) (branch_bump hasher BranchesDir
        (s\<lparr>bs_store := store, bs_branches := bt_insert ident (branch_base_record ident root) (bs_branches s)\<rparr>))"
    have "snd (install_base_branch hs j hasher ident blocks s) = snd (branch_append_event j (EvBase ident root) ?s)"
      using True chk Inr by (auto simp: install_base_branch_def Let_def split: sum.splits prod.split)
    then show ?thesis using True root
      by (auto simp: branch_base_record_def
          intro!: branch_step_add [OF inv _ _ grow, of ident "branch_base_record ident root"])
  qed
qed (auto simp: install_base_branch_def branch_step_refl [OF inv] split: sum.splits)

lemma score_branch_step:
  "branch_inv hs s \<Longrightarrow> branch_step hs s (snd (score_branch j hasher ident score summary s))"
  by (auto simp: score_branch_def Let_def branch_step_refl branch_step_def branch_inv_def record_ok_def bt_has_def
      split: sum.split option.split)

lemma discard_branch_step:
  "branch_inv hs s \<Longrightarrow> branch_step hs s (snd (discard_branch j hasher ident s))"
  by (auto simp: discard_branch_def Let_def branch_step_refl branch_step_def branch_inv_def record_ok_def bt_has_def
      split: sum.split option.split)

lemma deselect_previous_step: "branch_inv hs s \<Longrightarrow> branch_step hs s (deselect_previous hasher s)"
  by (auto simp: deselect_previous_def Let_def branch_step_def branch_inv_def record_ok_def bt_has_def
      split: option.split)

lemma select_marked:
  assumes "branch_inv hs s" "bs_selected s = None" "bt_get (bs_branches s) ident = Some r"
    "bs_store s' = bs_store s" "bs_branches s' = bt_insert ident (r\<lparr>brec_status := BranchSelected\<rparr>) (bs_branches s)"
    "bs_selected s' = Some ident"
  shows "branch_inv hs s'"
  using assms by (auto simp: branch_inv_def record_ok_def bt_has_def)

lemma select_branch_step:
  assumes inv: "branch_inv hs s"
  shows "branch_step hs s (snd (select_branch j hasher ident s))"
proof -
  have d: "branch_inv hs (deselect_previous hasher s)"
    using deselect_previous_step [OF inv] by (simp add: branch_step_def)
  have "branch_inv hs (snd (select_branch j hasher ident s))"
    using inv d by (auto simp: select_branch_def Let_def split: sum.split option.split intro!: select_marked [OF d])
  moreover have "bs_store (snd (select_branch j hasher ident s)) = bs_store s"
    by (simp add: select_branch_def Let_def split: sum.split option.split)
  ultimately show ?thesis by (simp add: branch_step_def)
qed

lemma branch_commit_ctl_step:
  "branch_inv hs s \<Longrightarrow> branch_step hs s (snd (branch_commit_ctl hs j hasher bs s))"
  by (simp add: branch_commit_ctl_def branch_step_refl fork_branch_step score_branch_step select_branch_step discard_branch_step
      split: option.split branch_command.split)

lemma branch_clunk_step:
  assumes inv: "branch_inv hs s"
  shows "branch_step hs s (snd (branch_clunk hs j hasher fid s))"
proof -
  let ?s = "s\<lparr>bs_fids := (bs_fids s)(fid := None)\<rparr>"
  have q: "branch_step hs s ?s" by (rule branch_step_frame [OF inv]) simp_all
  then have "branch_step hs ?s (snd (branch_commit_ctl hs j hasher bs ?s))" for bs
    by (intro branch_commit_ctl_step) (simp add: branch_step_def)
  then have "branch_step hs s (snd (branch_commit_ctl hs j hasher bs ?s))" for bs
    by (simp add: branch_step_def)
  with q show ?thesis
    by (auto simp: branch_clunk_def Let_def branch_step_refl [OF inv] split: option.split branch_node.split)
qed

section \<open>Runs\<close>

datatype branch_op = BranchCall request | InstallBase string "bytes list"

fun branch_apply ::
  "hashing \<Rightarrow> 'f branch_json \<Rightarrow> (string \<Rightarrow> u64) \<Rightarrow> branch_op \<Rightarrow> 'f branch_state \<Rightarrow> 'f branch_state" where
  "branch_apply hs j hasher (BranchCall req) s = snd (in_process_call (branch_server hs j hasher) req s)"
| "branch_apply hs j hasher (InstallBase ident blocks) s = snd (install_base_branch hs j hasher ident blocks s)"

definition branch_run ::
  "hashing \<Rightarrow> 'f branch_json \<Rightarrow> (string \<Rightarrow> u64) \<Rightarrow> branch_op list \<Rightarrow> 'f branch_state \<Rightarrow> 'f branch_state" where
  "branch_run hs j hasher ops s = fold (branch_apply hs j hasher) ops s"

lemma branch_call_quiet:
  assumes "\<And>fid. req \<noteq> ReqClunk fid"
  shows "bs_store (snd (in_process_call (branch_server hs j hasher) req s)) = bs_store s"
    "bs_branches (snd (in_process_call (branch_server hs j hasher) req s)) = bs_branches s"
    "bs_selected (snd (in_process_call (branch_server hs j hasher) req s)) = bs_selected s"
  using assms
  by (cases req; simp add: branch_server_def ready_def branch_walk_def branch_open_def branch_read_def branch_write_def
      branch_stat_def branch_create_def branch_remove_def split: option.split sum.split)+

lemma branch_apply_step: "branch_inv hs s \<Longrightarrow> branch_step hs s (branch_apply hs j hasher op s)"
proof (induction hs j hasher op s rule: branch_apply.induct)
  case (1 hs j hasher req s)
  show ?case
  proof (cases "\<exists>fid. req = ReqClunk fid")
    case True
    then show ?thesis using branch_clunk_step [OF 1] by (auto simp: branch_server_def ready_def)
  next
    case False
    then show ?thesis by (auto intro!: branch_step_frame [OF 1] branch_call_quiet)
  qed
qed (simp add: install_base_branch_step)

lemma branch_run_step: "branch_inv hs s \<Longrightarrow> branch_step hs s (branch_run hs j hasher ops s)"
proof (induction ops arbitrary: s)
  case (Cons op ops)
  have a: "branch_step hs s (branch_apply hs j hasher op s)" by (rule branch_apply_step [OF Cons.prems])
  then have "branch_step hs (branch_apply hs j hasher op s) (branch_run hs j hasher ops (branch_apply hs j hasher op s))"
    by (intro Cons.IH) (simp add: branch_step_def)
  with a show ?case by (auto simp: branch_run_def branch_step_def intro: extends_trans)
qed (simp add: branch_run_def branch_step_refl)

lemma branch_run_inv: "branch_inv hs (branch_run hs j hasher ops branchfs_new)"
  using branch_run_step [OF branch_inv_new, of hs j hasher ops] by (simp add: branch_step_def)

lemma branch_root_persists:
  assumes "branch_inv hs s" "bt_get (bs_branches s) ident = Some r"
  shows "\<exists>bs. materialize_node (bs_store s) (brec_root r) {} = Inr bs \<and>
     materialize_node (bs_store (branch_run hs j hasher ops s)) (brec_root r) {} = Inr bs"
proof -
  have inv: "store_inv hs (bs_store s)" "contains_node (bs_store s) (brec_root r)"
    using assms by (auto simp: branch_inv_def record_ok_def)
  have "extends (bs_store s) (bs_store (branch_run hs j hasher ops s))"
    using branch_run_step [OF assms(1), of j hasher ops] by (simp add: branch_step_def)
  from extends_materialize [OF inv this, of "{}"] contained_materialize [OF inv] show ?thesis by simp
qed

text \<open>
  (C31) The branch tree stays consistent: after any requests and base installations, every visible
  branch is recorded under its own well-formed name, is marked selected exactly when it is the one
  selected branch, which is itself visible, and its root's content can be read and is the same
  after whatever runs later, even when the branch has been discarded by then.
\<close>

theorem branches_stay_consistent:
  "let s = branch_run hs j hasher ops branchfs_new; s' = branch_run hs j hasher later s in
   (\<forall>ident r. bt_get (bs_branches s) ident = Some r \<longrightarrow>
      brec_id r = ident \<and> validate_branch_id ident = Ok () \<and>
      (brec_status r = BranchSelected \<longleftrightarrow> bs_selected s = Some ident) \<and>
      (\<exists>bs. materialize_node (bs_store s) (brec_root r) {} = Inr bs \<and>
         materialize_node (bs_store s') (brec_root r) {} = Inr bs)) \<and>
   (\<forall>ident. bs_selected s = Some ident \<longrightarrow> bt_has (bs_branches s) ident)"
proof -
  let ?s = "branch_run hs j hasher ops branchfs_new"
  note inv = branch_run_inv [of hs j hasher ops]
  have "record_ok ?s ident r" if "bt_get (bs_branches ?s) ident = Some r" for ident r
    using inv that by (simp add: branch_inv_def)
  then show ?thesis using branch_root_persists [OF inv] inv by (simp add: Let_def record_ok_def branch_inv_def)
qed

text \<open>
  A codec that knows two commands: any document forks \<open>try\<close> from \<open>main\<close>, except the document
  \<open>d\<close>, which discards \<open>main\<close>.
\<close>

definition demo_branch_json :: "unit branch_json" where
  "demo_branch_json = \<lparr>bj_command = (\<lambda>doc. Some (if doc = ''d'' then Discard ''main'' else Fork ''try'' ''main'' ''yo'')),
     bj_record = (\<lambda>r. Some (brec_root r)), bj_selected = (\<lambda>r. Some (sb_id r)), bj_event = (\<lambda>_. Some ''event''),
     bj_is_finite = (\<lambda>_. True)\<rparr>"

definition demo_discard_ops :: "branch_op list" where
  "demo_discard_ops = [BranchCall (ReqWalk ROOT 1 [''ctl'']), BranchCall (ReqOpen 1 OpenWrite),
     BranchCall (ReqWrite 1 0 ''d''), BranchCall (ReqClunk 1)]"

definition demo_main_state :: "unit branch_state" where
  "demo_main_state = branch_run plain_hashing demo_branch_json (\<lambda>_. 0) [InstallBase ''main'' [''hi'']] branchfs_new"

lemma demo_validate [simp]: "validate_branch_id ''main'' = Ok ()" "validate_branch_id ''try'' = Ok ()"
  by code_simp+

definition demo_main_store :: knowledge_store where
  "demo_main_store = \<lparr>ks_blocks = fmupd ''sha256:hi'' ''hi'' fmempty,
     ks_nodes = fmupd ''sha256:bsha256:hi'' \<lparr>dn_version = 1, dn_kind = Sequence [BlockEntry ''sha256:hi'']\<rparr> fmempty,
     ks_roots = fmempty, ks_pinned = {}\<rparr>"

lemma demo_main_checkpoint:
  "checkpoint_from_bytes plain_hashing [''hi''] ks_new = (Inr ''sha256:bsha256:hi'', demo_main_store)"
  by (simp add: demo_main_store_def ks_op_defs plain_hashing_def ks_new_def Let_def)

lemma demo_main_eq:
  "bs_branches demo_main_state = [(''main'', branch_base_record ''main'' ''sha256:bsha256:hi'')]"
  "bs_store demo_main_state = demo_main_store" "bs_selected demo_main_state = None"
  by (simp_all add: demo_main_state_def branch_run_def install_base_branch_def branchfs_new_def bt_has_def
      demo_main_checkpoint branch_append_event_def demo_branch_json_def Let_def)

theorem branches_stay_consistent_witness:
  "bt_get (bs_branches demo_main_state) ''main'' = Some (branch_base_record ''main'' ''sha256:bsha256:hi'') \<and>
   (\<exists>bs. materialize_node (bs_store (branch_run plain_hashing demo_branch_json (\<lambda>_. 0) demo_discard_ops demo_main_state))
      ''sha256:bsha256:hi'' {} = Inr bs)"
proof -
  have b: "bt_get (bs_branches demo_main_state) ''main'' = Some (branch_base_record ''main'' ''sha256:bsha256:hi'')"
    by (simp add: demo_main_eq)
  note c = branches_stay_consistent [of plain_hashing demo_branch_json "\<lambda>_. 0" "[InstallBase ''main'' [''hi'']]" demo_discard_ops,
      unfolded Let_def, folded demo_main_state_def, THEN conjunct1, rule_format, OF b]
  from c b show ?thesis by (auto simp: branch_base_record_def)
qed

text \<open>
  (C32) A fork speculates in isolation: forking a visible branch adds a branch whose content is the
  base's content followed by the delta, unless what is written collides with different stored
  content, and neither the fork's content nor the base's is changed by anything that runs later,
  nor is any other visible branch changed by the fork.
\<close>

theorem fork_is_isolated:
  assumes s: "s = branch_run hs j hasher ops branchfs_new" and base: "bt_get (bs_branches s) from = Some base"
    and fork: "fork_branch hs j hasher ident from delta s = (Ok (), s1)"
    and fresh: "no_collision hs (bs_store s) [delta] (blocks_node hs [NodeEntry (brec_root base)] [delta])"
  shows "\<exists>root bs. bs_branches s1 = bt_insert ident (branch_fork_record ident from root) (bs_branches s) \<and>
     bt_get (bs_branches s) ident = None \<and>
     materialize_node (bs_store s) (brec_root base) {} = Inr bs \<and>
     materialize_node (bs_store (branch_run hs j hasher later s1)) root {} = Inr (bs @ delta) \<and>
     materialize_node (bs_store (branch_run hs j hasher later s1)) (brec_root base) {} = Inr bs"
proof -
  note inv = branch_run_inv [of hs j hasher ops, folded s]
  have s1: "branch_inv hs s1" using fork_branch_step [OF inv, of j hasher ident "from" delta] fork by (simp add: branch_step_def)
  have here: "store_inv hs (bs_store s)" "contains_node (bs_store s) (brec_root base)"
    using inv base by (auto simp: branch_inv_def record_ok_def)
  obtain root store where root: "fork_append_bytes hs (brec_root base) [delta] (bs_store s) = (Inr root, store)"
    "\<not> bt_has (bs_branches s) ident" "bs_store s1 = store"
    "bs_branches s1 = bt_insert ident (branch_fork_record ident from root) (bs_branches s)"
  proof (cases "fork_append_bytes hs (brec_root base) [delta] (bs_store s)")
    case (Pair q store)
    let ?s = "\<lambda>root. branch_bump hasher (Branch ident) (branch_bump hasher BranchesDir
      (s\<lparr>bs_store := store, bs_branches := bt_insert ident (branch_fork_record ident from root) (bs_branches s)\<rparr>))"
    obtain root where q: "q = Inr root" "s1 = snd (branch_append_event j (EvFork ident from root) (?s root))"
      "\<not> bt_has (bs_branches s) ident"
      using fork base Pair by (auto simp: fork_branch_def Let_def split: sum.splits if_splits)
    show thesis by (rule that [of root store]) (use q Pair in simp_all)
  qed
  obtain bs where bs: "materialize_node (bs_store s) (brec_root base) {} = Inr bs"
    "materialize_node store root {} = Inr (bs @ delta)"
    using fork_materialize [OF here root(1) fresh] by auto
  have ne: "ident \<noteq> from" using root(2) base by (auto simp: bt_has_def)
  have "bt_get (bs_branches s1) ident = Some (branch_fork_record ident from root)" "bt_get (bs_branches s1) from = Some base"
    using root(4) base ne by simp_all
  note keep = this [THEN branch_root_persists [OF s1], of j hasher later]
  have "materialize_node store (brec_root base) {} = Inr bs"
    using extends_materialize [OF here, of store] extends_checkpoint_bytes(2) [of "bs_store s" hs "brec_root base" "[delta]"] root(1) bs(1)
    by simp
  then show ?thesis using root bs keep by (auto simp: bt_has_def branch_fork_record_def)
qed

lemma demo_fork:
  "fst (fork_branch plain_hashing demo_branch_json (\<lambda>_. 0) ''try'' ''main'' ''yo'' demo_main_state) = Ok ()"
  by (simp add: fork_branch_def demo_main_eq bt_has_def branch_base_record_def demo_main_store_def ks_op_defs plain_hashing_def
      Let_def branch_append_event_def demo_branch_json_def)

theorem fork_is_isolated_witness:
  "\<exists>root bs.
     materialize_node demo_main_store ''sha256:bsha256:hi'' {} = Inr bs \<and>
     materialize_node (bs_store (branch_run plain_hashing demo_branch_json (\<lambda>_. 0) demo_discard_ops
       (snd (fork_branch plain_hashing demo_branch_json (\<lambda>_. 0) ''try'' ''main'' ''yo'' demo_main_state)))) root {} = Inr (bs @ ''yo'')"
proof -
  have c: "no_collision plain_hashing (bs_store demo_main_state) [''yo'']
      (blocks_node plain_hashing [NodeEntry (brec_root (branch_base_record ''main'' ''sha256:bsha256:hi''))] [''yo''])"
    by (simp add: no_collision_def blocks_node_def demo_main_eq demo_main_store_def branch_base_record_def ks_op_defs plain_hashing_def)
  have f: "fork_branch plain_hashing demo_branch_json (\<lambda>_. 0) ''try'' ''main'' ''yo'' demo_main_state =
      (Ok (), snd (fork_branch plain_hashing demo_branch_json (\<lambda>_. 0) ''try'' ''main'' ''yo'' demo_main_state))"
    using demo_fork by (simp add: prod_eq_iff)
  have b: "bt_get (bs_branches demo_main_state) ''main'' = Some (branch_base_record ''main'' ''sha256:bsha256:hi'')"
    by (simp add: demo_main_eq)
  show ?thesis using fork_is_isolated [OF demo_main_state_def b f c, of demo_discard_ops]
    by (auto simp: demo_main_eq branch_base_record_def)
qed

end
