(* ===== verification/Json_Value.thy ===== *)
theory Json_Value
  imports AP_Prelude
begin

text \<open>
  JSON values as the engine sees them (\<open>serde_json::Value\<close>): objects are ordered maps, numbers are
  the three cases of the library's number type, a float being its 64 bits. Printing and parsing are
  the library's and stay parameters of the definitions that use them.
\<close>

datatype json_number = PosInt u64 | NegInt int | Float u64

datatype json =
    JNull
  | JBool bool
  | JNumber json_number
  | JString string
  | JArray "json list"
  | JObject "(string \<times> json) list"

text \<open>\<open>Value::get\<close> with a key, \<open>as_str\<close>, \<open>as_u64\<close> and \<open>as_object\<close>.\<close>

definition json_get :: "string \<Rightarrow> json \<Rightarrow> json option" where
  "json_get key v = (case v of JObject m \<Rightarrow> bt_get m key | _ \<Rightarrow> None)"

definition json_str :: "json \<Rightarrow> string option" where
  "json_str v = (case v of JString s \<Rightarrow> Some s | _ \<Rightarrow> None)"

definition json_u64 :: "json \<Rightarrow> u64 option" where
  "json_u64 v = (case v of JNumber (PosInt n) \<Rightarrow> Some n | _ \<Rightarrow> None)"

lemma json_get_simps [simp]:
  "json_get key (JObject m) = bt_get m key" "json_get key (JString s) = None" "json_get key (JArray vs) = None"
  "json_get key JNull = None" "json_get key (JBool b) = None" "json_get key (JNumber n) = None"
  by (simp_all add: json_get_def)

lemma json_str_simps [simp]: "json_str (JString s) = Some s" "json_str (JObject m) = None" "json_str JNull = None"
  by (simp_all add: json_str_def)

text \<open>The number of characters of a UTF-8 string: its bytes that do not continue a character.\<close>

definition char_count :: "string \<Rightarrow> nat" where
  "char_count s = length (filter (\<lambda>c. \<not> (0x80 \<le> (of_char c :: nat) \<and> (of_char c :: nat) \<le> 0xBF)) s)"

lemma char_count_append [simp]: "char_count (s @ t) = char_count s + char_count t"
  by (simp add: char_count_def)

lemma char_count_le: "char_count s \<le> length s"
  by (simp add: char_count_def)

end
