(* ===== verification/Agent_Tape.thy ===== *)
theory Agent_Tape
  imports Json_Value Rust_Text
begin

text \<open>
  The conversation tape of an agent machine (\<open>crates/agent-engine/src/tape.rs\<close>) with the content
  parts of the protocol (\<open>crates/agent-protocol/src/content.rs\<close>) and the taxonomy of runtime
  confirmation checkpoints (\<open>crates/agent-engine/src/approval.rs\<close>). The JSON printer and parser and
  SHA-256 are the fields of \<open>tape_env\<close>; token estimates are natural numbers.
\<close>

section \<open>Content\<close>

datatype content_part =
    PartText string
  | PartThinking string "string option"
  | PartRedactedThinking string
  | PartAttachment string string json
  | PartStructured json

record tape_env =
  te_print :: "json \<Rightarrow> string"
  te_parse :: "string \<Rightarrow> json option"
  te_sha_hex :: "bytes \<Rightarrow> string"

definition as_text :: "content_part \<Rightarrow> string option" where
  "as_text p = (case p of PartText s \<Rightarrow> Some s | PartThinking s _ \<Rightarrow> Some s | _ \<Rightarrow> None)"

definition to_text_lossy :: "tape_env \<Rightarrow> content_part \<Rightarrow> string" where
  "to_text_lossy env p =
     (case p of
        PartText s \<Rightarrow> s
      | PartThinking s _ \<Rightarrow> s
      | PartRedactedThinking _ \<Rightarrow> ''[redacted_thinking]''
      | PartStructured v \<Rightarrow> te_print env v
      | PartAttachment hash mime _ \<Rightarrow> ''[attachment: '' @ hash @ '' ('' @ mime @ '')]'')"

definition parts_to_text :: "content_part list \<Rightarrow> string" where
  "parts_to_text parts = concat (List.map_filter (\<lambda>p. case p of PartText s \<Rightarrow> Some s | _ \<Rightarrow> None) parts)"

section \<open>Messages\<close>

record tool_request =
  tr_id :: string
  tr_name :: string
  tr_arguments :: json

record tool_response =
  ts_id :: string
  ts_content :: "content_part list"

definition response_text_content :: "tape_env \<Rightarrow> tool_response \<Rightarrow> string" where
  "response_text_content env r = concat (map (to_text_lossy env) (ts_content r))"

datatype message =
    UserMessage "content_part list"
  | AssistantMessage "content_part list" "tool_request list"
  | ToolMessage "tool_response list"
  | SystemMessage "content_part list"
  | ContextMessage "content_part list"

datatype message_role = RoleSystem | RoleContext | RoleUser | RoleAssistant | RoleTool

primrec message_role_of :: "message \<Rightarrow> message_role" where
  "message_role_of (UserMessage _) = RoleUser"
| "message_role_of (AssistantMessage _ _) = RoleAssistant"
| "message_role_of (ToolMessage _) = RoleTool"
| "message_role_of (SystemMessage _) = RoleSystem"
| "message_role_of (ContextMessage _) = RoleContext"

primrec message_parts :: "message \<Rightarrow> content_part list" where
  "message_parts (UserMessage ps) = ps"
| "message_parts (AssistantMessage ps _) = ps"
| "message_parts (ToolMessage _) = []"
| "message_parts (SystemMessage ps) = ps"
| "message_parts (ContextMessage ps) = ps"

primrec tool_requests :: "message \<Rightarrow> tool_request list" where
  "tool_requests (UserMessage _) = []"
| "tool_requests (AssistantMessage _ rs) = rs"
| "tool_requests (ToolMessage _) = []"
| "tool_requests (SystemMessage _) = []"
| "tool_requests (ContextMessage _) = []"

primrec tool_responses :: "message \<Rightarrow> tool_response list" where
  "tool_responses (UserMessage _) = []"
| "tool_responses (AssistantMessage _ _) = []"
| "tool_responses (ToolMessage rs) = rs"
| "tool_responses (SystemMessage _) = []"
| "tool_responses (ContextMessage _) = []"

definition text_content :: "tape_env \<Rightarrow> message \<Rightarrow> string" where
  "text_content env m =
     (case m of
        ToolMessage rs \<Rightarrow> join_with [newline] (map (response_text_content env) rs)
      | _ \<Rightarrow> concat (map (to_text_lossy env) (message_parts m)))"

definition thinking_content :: "message \<Rightarrow> string option" where
  "thinking_content m =
     (case m of
        AssistantMessage ps _ \<Rightarrow>
          (let thinking = concat (List.map_filter (\<lambda>p. case p of PartThinking s _ \<Rightarrow> Some s | _ \<Rightarrow> None) ps) in
           if thinking = [] then None else Some thinking)
      | _ \<Rightarrow> None)"

definition part_signature :: "content_part \<Rightarrow> string option" where
  "part_signature p =
     (case p of PartThinking _ (Some sig) \<Rightarrow> if trim sig = [] then None else Some sig | _ \<Rightarrow> None)"

definition thinking_signature :: "message \<Rightarrow> string option" where
  "thinking_signature m =
     (case m of
        AssistantMessage ps _ \<Rightarrow>
          (case List.map_filter part_signature (rev ps) of [] \<Rightarrow> None | sig # _ \<Rightarrow> Some sig)
      | _ \<Rightarrow> None)"

definition redacted_thinking_blocks :: "message \<Rightarrow> string list" where
  "redacted_thinking_blocks m =
     (case m of
        AssistantMessage ps _ \<Rightarrow> List.map_filter (\<lambda>p. case p of PartRedactedThinking d \<Rightarrow> Some d | _ \<Rightarrow> None) ps
      | _ \<Rightarrow> [])"

definition is_thinking :: "content_part \<Rightarrow> bool" where
  "is_thinking p = (case p of PartThinking _ _ \<Rightarrow> True | PartRedactedThinking _ \<Rightarrow> True | _ \<Rightarrow> False)"

definition non_thinking_text_content :: "tape_env \<Rightarrow> message \<Rightarrow> string" where
  "non_thinking_text_content env m =
     (case m of
        AssistantMessage ps _ \<Rightarrow> concat (map (to_text_lossy env) (filter (\<lambda>p. \<not> is_thinking p) ps))
      | _ \<Rightarrow> text_content env m)"

definition is_user_message :: "message \<Rightarrow> bool" where
  "is_user_message m = (case m of UserMessage _ \<Rightarrow> True | _ \<Rightarrow> False)"

definition is_tool_message :: "message \<Rightarrow> bool" where
  "is_tool_message m = (case m of ToolMessage _ \<Rightarrow> True | _ \<Rightarrow> False)"

section \<open>Runtime control messages\<close>

definition runtime_confirmation_control_kind :: "string \<Rightarrow> string option" where
  "runtime_confirmation_control_kind checkpoint_type =
     (if checkpoint_type = ''tool_escalation'' then Some ''tool_escalation_confirmation''
      else if checkpoint_type = ''effect_replay_confirmation'' then Some ''effect_replay_confirmation''
      else None)"

definition runtime_confirmation_checkpoint_prefix :: "string \<Rightarrow> string option" where
  "runtime_confirmation_checkpoint_prefix checkpoint_type =
     (if checkpoint_type = ''tool_escalation'' then Some ''tool_escalation_''
      else if checkpoint_type = ''effect_replay_confirmation'' then Some ''effect_replay_''
      else None)"

definition is_runtime_confirmation_checkpoint_type :: "string \<Rightarrow> bool" where
  "is_runtime_confirmation_checkpoint_type checkpoint_type \<longleftrightarrow> runtime_confirmation_control_kind checkpoint_type \<noteq> None"

definition replays_tool_calls :: "string \<Rightarrow> bool" where
  "replays_tool_calls checkpoint_type \<longleftrightarrow>
     checkpoint_type = ''tool_escalation'' \<or> checkpoint_type = ''effect_replay_confirmation''"

definition is_effect_replay_confirmation :: "string \<Rightarrow> bool" where
  "is_effect_replay_confirmation checkpoint_type \<longleftrightarrow> checkpoint_type = ''effect_replay_confirmation''"

definition is_internal_control_payload :: "json \<Rightarrow> bool" where
  "is_internal_control_payload payload =
     (case Option.bind (Option.bind (json_get ''checkpoint_type'' payload) json_str) runtime_confirmation_control_kind of
        None \<Rightarrow> False
      | Some expected_kind \<Rightarrow>
          (let marker = json_get ''__alan_internal_control'' payload;
               field = (\<lambda>name. Option.bind marker (json_get name))
           in Option.bind (field ''kind'') json_str = Some expected_kind \<and>
              Option.bind (field ''version'') json_u64 = Some 1 \<and>
              Option.bind (field ''source'') json_str = Some ''runtime/submission_handlers''))"

definition is_internal_control_part :: "tape_env \<Rightarrow> content_part \<Rightarrow> bool" where
  "is_internal_control_part env p =
     (case p of
        PartStructured v \<Rightarrow> is_internal_control_payload v
      | PartText s \<Rightarrow> (case te_parse env (trim s) of Some v \<Rightarrow> is_internal_control_payload v | None \<Rightarrow> False)
      | _ \<Rightarrow> False)"

definition is_internal_control_message :: "tape_env \<Rightarrow> message \<Rightarrow> bool" where
  "is_internal_control_message env m =
     (case m of UserMessage ps \<Rightarrow> list_ex (is_internal_control_part env) ps | _ \<Rightarrow> False)"

definition is_non_control_user_turn_boundary :: "tape_env \<Rightarrow> message \<Rightarrow> bool" where
  "is_non_control_user_turn_boundary env m \<longleftrightarrow> is_user_message m \<and> \<not> is_internal_control_message env m"

section \<open>Token estimates\<close>

definition estimate_text_tokens :: "string \<Rightarrow> nat" where
  "estimate_text_tokens s = (char_count s + 3) div 4"

definition estimate_json_tokens :: "tape_env \<Rightarrow> json \<Rightarrow> nat" where
  "estimate_json_tokens env v = estimate_text_tokens (te_print env v)"

definition estimate_content_part_tokens :: "tape_env \<Rightarrow> content_part \<Rightarrow> nat" where
  "estimate_content_part_tokens env p =
     (case p of
        PartText s \<Rightarrow> estimate_text_tokens s
      | PartThinking s _ \<Rightarrow> estimate_text_tokens s
      | PartRedactedThinking d \<Rightarrow> estimate_text_tokens d
      | PartAttachment hash mime _ \<Rightarrow> estimate_text_tokens hash + estimate_text_tokens mime + 10
      | PartStructured v \<Rightarrow> estimate_json_tokens env v)"

definition estimate_tool_request_tokens :: "tape_env \<Rightarrow> tool_request \<Rightarrow> nat" where
  "estimate_tool_request_tokens env r =
     estimate_text_tokens (tr_id r) + estimate_text_tokens (tr_name r) + estimate_json_tokens env (tr_arguments r) + 4"

definition estimate_tool_response_tokens :: "tape_env \<Rightarrow> tool_response \<Rightarrow> nat" where
  "estimate_tool_response_tokens env r =
     sum_list (map (estimate_content_part_tokens env) (ts_content r)) + estimate_text_tokens (ts_id r) + 4"

definition estimate_message_tokens :: "tape_env \<Rightarrow> message \<Rightarrow> nat" where
  "estimate_message_tokens env m =
     sum_list (map (estimate_content_part_tokens env) (message_parts m)) +
     sum_list (map (estimate_tool_request_tokens env) (tool_requests m)) +
     sum_list (map (estimate_tool_response_tokens env) (tool_responses m)) + 6"

definition estimate_user_message_tokens :: "tape_env \<Rightarrow> content_part list \<Rightarrow> nat" where
  "estimate_user_message_tokens env ps = sum_list (map (estimate_content_part_tokens env) ps) + 6"

section \<open>Reference context\<close>

record context_item =
  ci_id :: string
  ci_kind :: string
  ci_title :: string
  ci_content :: string
  ci_fingerprint :: string

record context_items_delta =
  cd_changed :: bool
  cd_reordered :: bool
  cd_revision :: u64
  cd_added_ids :: "string list"
  cd_updated_ids :: "string list"
  cd_removed_ids :: "string list"

record reference_context =
  rc_items :: "context_item list"
  rc_rendered_messages :: "message list"
  rc_rendered_token_estimate :: nat
  rc_revision :: u64
  rc_last_delta :: context_items_delta

definition context_items_delta_default :: context_items_delta where
  "context_items_delta_default = \<lparr>cd_changed = False, cd_reordered = False, cd_revision = 0,
     cd_added_ids = [], cd_updated_ids = [], cd_removed_ids = []\<rparr>"

definition reference_context_default :: reference_context where
  "reference_context_default = \<lparr>rc_items = [], rc_rendered_messages = [], rc_rendered_token_estimate = 0,
     rc_revision = 0, rc_last_delta = context_items_delta_default\<rparr>"

definition fingerprint_context :: "tape_env \<Rightarrow> string \<Rightarrow> string \<Rightarrow> string \<Rightarrow> string" where
  "fingerprint_context env kind title content =
     ''sha256:'' @ te_sha_hex env (kind @ [newline] @ title @ [newline] @ content)"

definition context_item_new :: "tape_env \<Rightarrow> string \<Rightarrow> string \<Rightarrow> string \<Rightarrow> string \<Rightarrow> context_item" where
  "context_item_new env ident kind title content =
     \<lparr>ci_id = ident, ci_kind = kind, ci_title = title, ci_content = content,
      ci_fingerprint = fingerprint_context env kind title content\<rparr>"

definition ensure_fingerprint_matches :: "tape_env \<Rightarrow> context_item \<Rightarrow> context_item" where
  "ensure_fingerprint_matches env item =
     (let expected = fingerprint_context env (ci_kind item) (ci_title item) (ci_content item) in
      if ci_fingerprint item \<noteq> expected then item\<lparr>ci_fingerprint := expected\<rparr> else item)"

definition normalize_context_items :: "tape_env \<Rightarrow> context_item list \<Rightarrow> context_item list" where
  "normalize_context_items env items = map (ensure_fingerprint_matches env) items"

text \<open>The hash maps of the diff are built by insertion, so the last item with an id wins.\<close>

definition fingerprint_map :: "context_item list \<Rightarrow> string \<rightharpoonup> string" where
  "fingerprint_map items = map_of (rev (map (\<lambda>i. (ci_id i, ci_fingerprint i)) items))"

definition diff_context_items :: "context_item list \<Rightarrow> context_item list \<Rightarrow> u64 \<Rightarrow> context_items_delta" where
  "diff_context_items old_items new_items current_revision =
     (let old_map = fingerprint_map old_items;
          new_map = fingerprint_map new_items;
          added = map ci_id (filter (\<lambda>i. old_map (ci_id i) = None) new_items);
          updated = map ci_id (filter (\<lambda>i. case old_map (ci_id i) of None \<Rightarrow> False | Some fp \<Rightarrow> fp \<noteq> ci_fingerprint i) new_items);
          removed = map ci_id (filter (\<lambda>i. new_map (ci_id i) = None) old_items);
          reordered = (map ci_id old_items \<noteq> map ci_id new_items \<and> added = [] \<and> updated = [] \<and> removed = []);
          changed = (reordered \<or> added \<noteq> [] \<or> updated \<noteq> [] \<or> removed \<noteq> [])
      in \<lparr>cd_changed = changed, cd_reordered = reordered,
          cd_revision = (if changed then saturating_succ current_revision else current_revision),
          cd_added_ids = added, cd_updated_ids = updated, cd_removed_ids = removed\<rparr>)"

definition format_context_item :: "context_item \<Rightarrow> string" where
  "format_context_item item =
     (let content = trim (ci_content item) in
      if content = [] then [] else trim (ci_title item) @ '':'' @ [newline] @ content)"

definition context_message :: "string \<Rightarrow> message" where
  "context_message s = ContextMessage [PartText s]"

fun render_context_items :: "tape_env \<Rightarrow> context_item list \<Rightarrow> message list \<times> nat" where
  "render_context_items env [] = ([], 0)"
| "render_context_items env (item # items) =
     (let (rendered, tokens) = render_context_items env items; content = format_context_item item in
      if content = [] then (rendered, tokens)
      else (context_message content # rendered, estimate_message_tokens env (context_message content) + tokens))"

section \<open>The tape\<close>

record tape =
  tp_reference_context :: reference_context
  tp_messages :: "message list"
  tp_messages_token_estimate :: nat
  tp_summary :: "string option"
  tp_summary_token_estimate :: nat
  tp_compaction_count :: nat

definition tape_new :: tape where
  "tape_new = \<lparr>tp_reference_context = reference_context_default, tp_messages = [], tp_messages_token_estimate = 0,
     tp_summary = None, tp_summary_token_estimate = 0, tp_compaction_count = 0\<rparr>"

definition summary_prefix :: string where
  "summary_prefix = ''The following is a compacted summary of the earlier conversation history in this machine. '' @
     ''Use this context to continue the work seamlessly without duplicating what has already been done:''"

definition summary_prompt_message :: "string \<Rightarrow> message" where
  "summary_prompt_message summary = context_message (summary_prefix @ [newline] @ summary)"

definition estimated_prompt_tokens :: "tape \<Rightarrow> nat" where
  "estimated_prompt_tokens t =
     rc_rendered_token_estimate (tp_reference_context t) + tp_summary_token_estimate t + tp_messages_token_estimate t"

record reference_context_snapshot =
  rs_revision :: u64
  rs_item_count :: nat
  rs_delta :: context_items_delta

record prompt_context_view =
  pv_messages :: "message list"
  pv_estimated_tokens :: nat
  pv_reference_context :: reference_context_snapshot

definition prompt_view :: "tape \<Rightarrow> prompt_context_view" where
  "prompt_view t =
     \<lparr>pv_messages = rc_rendered_messages (tp_reference_context t) @
        (case tp_summary t of None \<Rightarrow> [] | Some s \<Rightarrow> [summary_prompt_message s]) @ tp_messages t,
      pv_estimated_tokens = estimated_prompt_tokens t,
      pv_reference_context = \<lparr>rs_revision = rc_revision (tp_reference_context t),
        rs_item_count = length (rc_items (tp_reference_context t)), rs_delta = rc_last_delta (tp_reference_context t)\<rparr>\<rparr>"

definition tape_push :: "tape_env \<Rightarrow> message \<Rightarrow> tape \<Rightarrow> tape" where
  "tape_push env m t =
     t\<lparr>tp_messages_token_estimate := tp_messages_token_estimate t + estimate_message_tokens env m, tp_messages := tp_messages t @ [m]\<rparr>"

definition tape_clear :: "tape \<Rightarrow> tape" where
  "tape_clear t =
     t\<lparr>tp_reference_context := reference_context_default, tp_messages := [], tp_messages_token_estimate := 0,
       tp_summary := None, tp_summary_token_estimate := 0, tp_compaction_count := 0\<rparr>"

definition tape_replace :: "tape_env \<Rightarrow> message list \<Rightarrow> tape \<Rightarrow> tape" where
  "tape_replace env ms t =
     t\<lparr>tp_messages := ms, tp_messages_token_estimate := sum_list (map (estimate_message_tokens env) ms)\<rparr>"

definition apply_context_items :: "tape_env \<Rightarrow> context_item list \<Rightarrow> tape \<Rightarrow> context_items_delta \<times> tape" where
  "apply_context_items env new_items t =
     (let items = normalize_context_items env new_items;
          rc = tp_reference_context t;
          delta = diff_context_items (rc_items rc) items (rc_revision rc);
          rc1 = (if cd_changed delta
                 then (let (rendered, tokens) = render_context_items env items in
                       rc\<lparr>rc_items := items, rc_rendered_messages := rendered, rc_rendered_token_estimate := tokens,
                          rc_revision := cd_revision delta\<rparr>)
                 else rc)
      in (delta, t\<lparr>tp_reference_context := rc1\<lparr>rc_last_delta := delta\<rparr>\<rparr>))"

definition tape_set_summary :: "tape_env \<Rightarrow> string \<Rightarrow> tape \<Rightarrow> tape" where
  "tape_set_summary env summary t =
     t\<lparr>tp_summary_token_estimate := estimate_message_tokens env (summary_prompt_message summary), tp_summary := Some summary\<rparr>"

definition tape_clear_summary :: "tape \<Rightarrow> tape" where
  "tape_clear_summary t = t\<lparr>tp_summary := None, tp_summary_token_estimate := 0\<rparr>"

section \<open>Compaction\<close>

datatype span_kind = UserTurnSpan | ControlSpan

record message_span =
  sp_start :: nat
  sp_end :: nat
  sp_kind :: span_kind

function span_end :: "tape_env \<Rightarrow> message list \<Rightarrow> nat \<Rightarrow> nat" where
  "span_end env ms e =
     (if e < length ms \<and> \<not> is_non_control_user_turn_boundary env (ms ! e) then span_end env ms (Suc e) else e)"
  by pat_completeness auto
termination
  by (relation "measure (\<lambda>(_, ms, e). length ms - e)") auto

declare span_end.simps [simp del]

lemma span_end_ge: "e \<le> span_end env ms e"
  by (induction env ms e rule: span_end.induct) (subst span_end.simps, auto)

function spans_from :: "tape_env \<Rightarrow> message list \<Rightarrow> nat \<Rightarrow> message_span list" where
  "spans_from env ms start =
     (if start < length ms
      then (let kind = (if is_non_control_user_turn_boundary env (ms ! start) then UserTurnSpan else ControlSpan);
                e = span_end env ms (Suc start)
            in \<lparr>sp_start = start, sp_end = e, sp_kind = kind\<rparr> # spans_from env ms e)
      else [])"
  by pat_completeness auto
termination
  by (relation "measure (\<lambda>(_, ms, s). length ms - s)") (auto dest: Suc_le_lessD [OF order_trans [OF _ span_end_ge]]
      intro: diff_less_mono2 less_le_trans [OF lessI span_end_ge])

declare spans_from.simps [simp del]

definition semantic_message_spans :: "tape_env \<Rightarrow> message list \<Rightarrow> message_span list" where
  "semantic_message_spans env ms = spans_from env ms 0"

text \<open>The loop over the earlier spans, latest first, that stops at the first one that does not fit.\<close>

fun retain_spans :: "nat \<Rightarrow> message_span list \<Rightarrow> nat \<Rightarrow> nat \<Rightarrow> nat" where
  "retain_spans keep_last [] retention_start retained = retention_start"
| "retain_spans keep_last (span # spans) retention_start retained =
     (let span_len = sp_end span - sp_start span in
      if retained + span_len > keep_last then retention_start
      else retain_spans keep_last spans (sp_start span) (retained + span_len))"

fun first_tool_idx :: "message list \<Rightarrow> nat \<Rightarrow> nat" where
  "first_tool_idx ms 0 = 0"
| "first_tool_idx ms (Suc i) = (if is_tool_message (ms ! i) then first_tool_idx ms i else Suc i)"

definition align_retention_start_to_tool_block :: "message list \<Rightarrow> nat \<Rightarrow> nat" where
  "align_retention_start_to_tool_block ms retention_start =
     (if retention_start \<ge> length ms \<or> \<not> is_tool_message (ms ! retention_start) then retention_start
      else
        (let i = first_tool_idx ms retention_start in
         if i > 0 \<and> tool_requests (ms ! (i - 1)) \<noteq> [] then i - 1 else retention_start))"

definition span_retention_start :: "tape_env \<Rightarrow> message list \<Rightarrow> nat \<Rightarrow> message_span list \<Rightarrow> nat" where
  "span_retention_start env ms keep_last spans =
     (let last_span = last spans;
          last_len = sp_end last_span - sp_start last_span;
          retention_start = retain_spans keep_last (rev (butlast spans)) (sp_start last_span) last_len
      in if last_len > keep_last \<and> keep_last < length ms then length ms - keep_last else retention_start)"

definition compaction_retention_start :: "tape_env \<Rightarrow> message list \<Rightarrow> nat \<Rightarrow> nat" where
  "compaction_retention_start env ms keep_last =
     (if ms = [] then 0
      else if keep_last = 0 then length ms
      else
        (case semantic_message_spans env ms of
           [] \<Rightarrow> 0
         | spans \<Rightarrow> align_retention_start_to_tool_block ms (span_retention_start env ms keep_last spans)))"

definition tape_compact :: "tape_env \<Rightarrow> string \<Rightarrow> nat \<Rightarrow> tape \<Rightarrow> tape" where
  "tape_compact env summary keep_last t =
     (let ms = drop (compaction_retention_start env (tp_messages t) keep_last) (tp_messages t);
          t1 = tape_set_summary env summary
            (t\<lparr>tp_messages := ms, tp_messages_token_estimate := sum_list (map (estimate_message_tokens env) ms)\<rparr>)
      in t1\<lparr>tp_compaction_count := tp_compaction_count t1 + 1\<rparr>)"

section \<open>Estimates are exact\<close>

lemma render_tokens:
  "snd (render_context_items env items) = sum_list (map (estimate_message_tokens env) (fst (render_context_items env items)))"
  by (induction items) (auto simp: Let_def case_prod_beta)

definition tape_inv :: "tape_env \<Rightarrow> tape \<Rightarrow> bool" where
  "tape_inv env t \<longleftrightarrow>
     tp_messages_token_estimate t = sum_list (map (estimate_message_tokens env) (tp_messages t)) \<and>
     tp_summary_token_estimate t =
       (case tp_summary t of None \<Rightarrow> 0 | Some s \<Rightarrow> estimate_message_tokens env (summary_prompt_message s)) \<and>
     (rc_rendered_messages (tp_reference_context t), rc_rendered_token_estimate (tp_reference_context t)) =
       render_context_items env (rc_items (tp_reference_context t))"

datatype tape_op =
    TapePush message
  | TapeClear
  | TapeReplace "message list"
  | TapeContext "context_item list"
  | TapeSetSummary string
  | TapeClearSummary
  | TapeCompact string nat

fun tape_apply :: "tape_env \<Rightarrow> tape_op \<Rightarrow> tape \<Rightarrow> tape" where
  "tape_apply env (TapePush m) t = tape_push env m t"
| "tape_apply env TapeClear t = tape_clear t"
| "tape_apply env (TapeReplace ms) t = tape_replace env ms t"
| "tape_apply env (TapeContext items) t = snd (apply_context_items env items t)"
| "tape_apply env (TapeSetSummary summary) t = tape_set_summary env summary t"
| "tape_apply env TapeClearSummary t = tape_clear_summary t"
| "tape_apply env (TapeCompact summary keep_last) t = tape_compact env summary keep_last t"

lemma tape_apply_inv: "tape_inv env t \<Longrightarrow> tape_inv env (tape_apply env op t)"
  by (cases op) (auto simp: tape_inv_def tape_push_def tape_clear_def tape_replace_def apply_context_items_def tape_set_summary_def
      tape_clear_summary_def tape_compact_def reference_context_default_def Let_def split: prod.split)

definition tape_run :: "tape_env \<Rightarrow> tape_op list \<Rightarrow> tape" where
  "tape_run env ops = fold (tape_apply env) ops tape_new"

lemma tape_run_inv: "tape_inv env (tape_run env ops)"
proof -
  have "tape_inv env t \<Longrightarrow> tape_inv env (fold (tape_apply env) ops t)" for t
    by (induction ops arbitrary: t) (simp_all add: tape_apply_inv)
  moreover have "tape_inv env tape_new" by (simp add: tape_inv_def tape_new_def reference_context_default_def)
  ultimately show ?thesis by (simp add: tape_run_def)
qed

text \<open>
  (C37) The prompt budget is exact: after any operations on the tape, the cached estimate that drives
  compaction is the sum of the estimates of the messages the model will be sent, and the rendered
  reference context is the rendering of the current context items.
\<close>

theorem prompt_estimate_exact:
  "let view = prompt_view (tape_run env ops); rc = tp_reference_context (tape_run env ops) in
   pv_estimated_tokens view = sum_list (map (estimate_message_tokens env) (pv_messages view)) \<and>
   rc_rendered_messages rc = fst (render_context_items env (rc_items rc))"
proof -
  have inv: "tape_inv env (tape_run env ops)" by (rule tape_run_inv)
  let ?rc = "tp_reference_context (tape_run env ops)"
  from inv have r: "rc_rendered_messages ?rc = fst (render_context_items env (rc_items ?rc))"
    "rc_rendered_token_estimate ?rc = snd (render_context_items env (rc_items ?rc))"
    by (auto simp: tape_inv_def prod_eq_iff)
  with inv show ?thesis
    by (auto simp: prompt_view_def estimated_prompt_tokens_def tape_inv_def render_tokens Let_def split: option.split)
qed

section \<open>The context diff\<close>

definition item_key :: "context_item \<Rightarrow> string \<times> string" where
  "item_key i = (ci_id i, ci_fingerprint i)"

lemma fingerprint_map_distinct:
  "distinct (map ci_id items) \<Longrightarrow> fingerprint_map items x = Some fp \<longleftrightarrow> (x, fp) \<in> item_key ` set items"
  unfolding fingerprint_map_def item_key_def
  by (subst map_of_eq_Some_iff) (auto simp: comp_def simp flip: rev_map)

lemma fingerprint_map_None: "fingerprint_map items x = None \<longleftrightarrow> x \<notin> ci_id ` set items"
  by (auto simp: fingerprint_map_def map_of_eq_None_iff image_image)

text \<open>
  With distinct ids the diff reports a change exactly when the sequence of ids and fingerprints has
  changed.
\<close>

lemma diff_detects_change:
  assumes d: "distinct (map ci_id old_items)" "distinct (map ci_id new_items)"
  shows "cd_changed (diff_context_items old_items new_items rev') \<longleftrightarrow> map item_key old_items \<noteq> map item_key new_items"
proof
  assume c: "cd_changed (diff_context_items old_items new_items rev')"
  show "map item_key old_items \<noteq> map item_key new_items"
  proof
    assume eq: "map item_key old_items = map item_key new_items"
    then have ids: "map ci_id old_items = map ci_id new_items"
      by (metis (no_types, lifting) comp_apply fst_conv item_key_def list.map_comp map_eq_conv)
    then have im: "ci_id ` set old_items = ci_id ` set new_items" by (metis set_map)
    have "fingerprint_map old_items (ci_id i) = Some (ci_fingerprint i)" if "i \<in> set new_items" for i
      using that eq fingerprint_map_distinct [OF d(1)] by (metis imageI item_key_def set_map)
    then show False using c ids im by (auto simp: diff_context_items_def Let_def fingerprint_map_None filter_empty_conv)
  qed
next
  assume ne: "map item_key old_items \<noteq> map item_key new_items"
  show "cd_changed (diff_context_items old_items new_items rev')"
  proof (rule ccontr)
    assume "\<not> ?thesis"
    then have ids: "map ci_id old_items = map ci_id new_items"
      and same: "\<forall>i \<in> set new_items. fingerprint_map old_items (ci_id i) \<noteq> None \<and>
        (\<forall>fp. fingerprint_map old_items (ci_id i) = Some fp \<longrightarrow> fp = ci_fingerprint i)"
      by (auto simp: diff_context_items_def Let_def filter_empty_conv split: option.splits)
    have len: "length old_items = length new_items" using ids by (metis length_map)
    have "item_key (old_items ! k) = item_key (new_items ! k)" if k: "k < length old_items" for k
    proof -
      have id: "ci_id (old_items ! k) = ci_id (new_items ! k)" using ids k len by (metis nth_map)
      have "fingerprint_map old_items (ci_id (new_items ! k)) = Some (ci_fingerprint (old_items ! k))"
        using fingerprint_map_distinct [OF d(1)] k id by (metis imageI item_key_def nth_mem)
      then show ?thesis using same id k len by (auto simp: item_key_def)
    qed
    then have "map item_key old_items = map item_key new_items" using len by (simp add: list_eq_iff_nth_eq)
    with ne show False ..
  qed
qed

section \<open>Compaction keeps tool blocks\<close>

text \<open>Every tool result follows, through tool results only, the assistant message that asked for tools.\<close>

definition tool_blocks_ok :: "message list \<Rightarrow> bool" where
  "tool_blocks_ok ms \<longleftrightarrow>
     (\<forall>i < length ms. is_tool_message (ms ! i) \<longrightarrow>
        (\<exists>k < i. tool_requests (ms ! k) \<noteq> [] \<and> (\<forall>j. k < j \<and> j < i \<longrightarrow> is_tool_message (ms ! j))))"

fun span_chain :: "message_span list \<Rightarrow> nat \<Rightarrow> nat \<Rightarrow> bool" where
  "span_chain [] a b \<longleftrightarrow> a = b"
| "span_chain (s # ss) a b \<longleftrightarrow> sp_start s = a \<and> a < sp_end s \<and> span_chain ss (sp_end s) b"

lemma span_chain_append: "span_chain (xs @ ys) a b \<longleftrightarrow> (\<exists>m. span_chain xs a m \<and> span_chain ys m b)"
  by (induction xs arbitrary: a) auto

lemma span_chain_le: "span_chain xs a b \<Longrightarrow> a \<le> b"
  by (induction xs arbitrary: a) fastforce+

lemma span_end_le: "e \<le> length ms \<Longrightarrow> span_end env ms e \<le> length ms"
  by (induction env ms e rule: span_end.induct) (subst span_end.simps, auto)

lemma spans_from_chain: "start \<le> length ms \<Longrightarrow> span_chain (spans_from env ms start) start (length ms)"
proof (induction env ms start rule: spans_from.induct)
  case (1 env ms start)
  show ?case
  proof (cases "start < length ms")
    case True
    have e: "Suc start \<le> span_end env ms (Suc start)" "span_end env ms (Suc start) \<le> length ms"
      using span_end_ge [of "Suc start" env ms] span_end_le [of "Suc start" ms env] True by auto
    then show ?thesis using 1 True by (subst spans_from.simps) (simp add: Let_def Suc_le_eq)
  qed (use 1 in \<open>subst spans_from.simps, simp\<close>)
qed

lemma retain_spans_bound:
  "span_chain (rev xs) a m \<Longrightarrow> m \<le> n \<Longrightarrow> retained = n - m \<Longrightarrow> retained \<le> keep_last \<Longrightarrow>
   a \<le> retain_spans keep_last xs m retained \<and> retain_spans keep_last xs m retained \<le> m \<and>
   n - retain_spans keep_last xs m retained \<le> keep_last"
proof (induction xs arbitrary: m retained)
  case (Cons x xs)
  from Cons.prems(1) have x: "span_chain (rev xs) a (sp_start x)" "sp_start x < sp_end x" "sp_end x = m"
    by (auto simp: span_chain_append)
  show ?case
  proof (cases "retained + (sp_end x - sp_start x) > keep_last")
    case True
    then have "retain_spans keep_last (x # xs) m retained = m" by (simp only: retain_spans.simps Let_def if_True)
    then show ?thesis using Cons.prems span_chain_le [OF Cons.prems(1)] by simp
  next
    case False
    have "n - sp_start x = retained + (sp_end x - sp_start x)" using x Cons.prems by auto
    then show ?thesis using Cons.IH [OF x(1), of "retained + (sp_end x - sp_start x)"] x Cons.prems False by (simp add: Let_def)
  qed
qed simp

lemma span_retention_bound:
  assumes "ms \<noteq> []" "0 < keep_last"
  shows "span_retention_start env ms keep_last (semantic_message_spans env ms) < length ms"
    "length ms - span_retention_start env ms keep_last (semantic_message_spans env ms) \<le> keep_last"
proof -
  let ?spans = "semantic_message_spans env ms"
  have c: "span_chain ?spans 0 (length ms)" using spans_from_chain [of 0 ms env] by (simp add: semantic_message_spans_def)
  have ne: "?spans \<noteq> []" using c assms by auto
  let ?l = "last ?spans" and ?n = "length ms"
  have "span_chain (butlast ?spans @ [?l]) 0 ?n" using c ne by simp
  then have m: "span_chain (butlast ?spans) 0 (sp_start ?l)" "sp_start ?l < ?n" "sp_end ?l = ?n"
    by (auto simp: span_chain_append)
  have "span_retention_start env ms keep_last ?spans < ?n \<and> ?n - span_retention_start env ms keep_last ?spans \<le> keep_last"
  proof (cases "?n - sp_start ?l \<le> keep_last")
    case True
    then show ?thesis
      using retain_spans_bound [of "rev (butlast ?spans)" 0 "sp_start ?l" ?n "?n - sp_start ?l" keep_last] m
      by (auto simp: span_retention_start_def Let_def)
  next
    case False
    then show ?thesis using m assms by (auto simp: span_retention_start_def Let_def)
  qed
  then show "span_retention_start env ms keep_last ?spans < ?n"
    "?n - span_retention_start env ms keep_last ?spans \<le> keep_last" by simp_all
qed

lemma first_tool_idx_props:
  "first_tool_idx ms r \<le> r" "first_tool_idx ms r \<le> j \<Longrightarrow> j < r \<Longrightarrow> is_tool_message (ms ! j)"
  "0 < first_tool_idx ms r \<Longrightarrow> \<not> is_tool_message (ms ! (first_tool_idx ms r - 1))"
  by (induction r) (auto simp: less_Suc_eq le_Suc_eq split: if_splits)

lemma requests_not_tool: "tool_requests m \<noteq> [] \<Longrightarrow> \<not> is_tool_message m"
  by (cases m) (simp_all add: is_tool_message_def)

lemma align_props:
  assumes "r < length ms"
  defines "r' \<equiv> align_retention_start_to_tool_block ms r"
  shows "r' \<le> r" "r' < r \<Longrightarrow> tool_requests (ms ! r') \<noteq> []" "r' < j \<Longrightarrow> j \<le> r \<Longrightarrow> is_tool_message (ms ! j)"
    "tool_blocks_ok ms \<Longrightarrow> \<not> is_tool_message (ms ! r')"
proof -
  let ?i = "first_tool_idx ms r"
  note p = first_tool_idx_props [of ms r]
  show "r' \<le> r" using p(1) by (auto simp: r'_def align_retention_start_to_tool_block_def Let_def)
  show "r' < r \<Longrightarrow> tool_requests (ms ! r') \<noteq> []"
    by (auto simp: r'_def align_retention_start_to_tool_block_def Let_def split: if_splits)
  show "is_tool_message (ms ! j)" if "r' < j" "j \<le> r"
  proof -
    have "is_tool_message (ms ! r)" "?i \<le> j"
      using that by (auto simp: r'_def align_retention_start_to_tool_block_def Let_def split: if_splits)
    then show ?thesis using p(2) [of j] that(2) by (cases "j = r") auto
  qed
  assume ok: "tool_blocks_ok ms"
  show "\<not> is_tool_message (ms ! r')"
  proof (cases "is_tool_message (ms ! r)")
    case True
    obtain k where k: "k < r" "tool_requests (ms ! k) \<noteq> []" "\<forall>j. k < j \<and> j < r \<longrightarrow> is_tool_message (ms ! j)"
      using ok True assms(1) by (auto simp: tool_blocks_ok_def)
    have "\<not> is_tool_message (ms ! k)" by (rule requests_not_tool [OF k(2)])
    then have "k < ?i" using p(2) [of k] k(1) by (meson not_less)
    moreover have "?i \<le> Suc k"
    proof (rule ccontr)
      assume "\<not> ?i \<le> Suc k"
      then have "k < ?i - 1" "?i - 1 < r" using p(1) k(1) by auto
      then show False using p(3) k(3) \<open>k < ?i\<close> by auto
    qed
    ultimately have "?i - 1 = k" "0 < ?i" by auto
    then have "r' = k" using True assms(1) k(2) by (simp add: r'_def align_retention_start_to_tool_block_def Let_def)
    then show ?thesis using requests_not_tool [OF k(2)] by simp
  qed (use assms in \<open>auto simp: r'_def align_retention_start_to_tool_block_def\<close>)
qed

lemma tool_blocks_drop:
  assumes "tool_blocks_ok ms" "r < length ms" "\<not> is_tool_message (ms ! r)"
  shows "tool_blocks_ok (drop r ms)"
  unfolding tool_blocks_ok_def
proof (intro allI impI)
  fix i assume i: "i < length (drop r ms)" "is_tool_message (drop r ms ! i)"
  obtain k where k: "k < r + i" "tool_requests (ms ! k) \<noteq> []" "\<forall>j. k < j \<and> j < r + i \<longrightarrow> is_tool_message (ms ! j)"
    using assms(1,2) i unfolding tool_blocks_ok_def by (auto dest: spec [of _ "r + i"])
  have "r \<le> k"
  proof (rule ccontr)
    assume "\<not> r \<le> k"
    then have "is_tool_message (ms ! r)" using k(3) i by (cases "i = 0") auto
    with assms(3) show False ..
  qed
  then show "\<exists>k<i. tool_requests (drop r ms ! k) \<noteq> [] \<and> (\<forall>j. k < j \<and> j < i \<longrightarrow> is_tool_message (drop r ms ! j))"
    using k assms(2) by (intro exI [of _ "k - r"]) auto
qed

definition kept_ok :: "message list \<Rightarrow> nat \<Rightarrow> message list \<Rightarrow> bool" where
  "kept_ok ms keep_last kept \<longleftrightarrow>
     (\<exists>dropped. ms = dropped @ kept) \<and> tool_blocks_ok kept \<and> (ms \<noteq> [] \<and> 0 < keep_last \<longrightarrow> kept \<noteq> []) \<and>
     (length kept \<le> keep_last \<or>
      (tool_requests (hd kept) \<noteq> [] \<and> (\<forall>j. 0 < j \<and> j + keep_last < length kept \<longrightarrow> is_tool_message (kept ! j))))"

lemma retention_kept_ok:
  assumes ok: "tool_blocks_ok ms" and ms: "ms \<noteq> []" "0 < keep_last"
  shows "kept_ok ms keep_last (drop (compaction_retention_start env ms keep_last) ms)"
proof -
  let ?r' = "compaction_retention_start env ms keep_last"
  let ?r = "span_retention_start env ms keep_last (semantic_message_spans env ms)"
  note r = span_retention_bound [OF ms, of env]
  have "semantic_message_spans env ms \<noteq> []"
    using ms by (simp add: semantic_message_spans_def spans_from.simps [of env ms 0] Let_def)
  then have r': "?r' = align_retention_start_to_tool_block ms ?r"
    using ms by (simp add: compaction_retention_start_def split: list.split)
  note a = align_props [OF r(1), folded r']
  have lt: "?r' < length ms" using a(1) r(1) by simp
  have "length ms - ?r' \<le> keep_last \<or> tool_requests (ms ! ?r') \<noteq> [] \<and>
      (\<forall>j. 0 < j \<and> j + keep_last < length ms - ?r' \<longrightarrow> is_tool_message (ms ! (?r' + j)))"
  proof (cases "?r' = ?r")
    case False
    then have "?r' < ?r" using a(1) by simp
    moreover have "is_tool_message (ms ! (?r' + j))" if "0 < j" "j + keep_last < length ms - ?r'" for j
      by (rule a(3)) (use that r in auto)
    ultimately show ?thesis using a(2) by blast
  qed (use r in simp)
  then show ?thesis
    using lt tool_blocks_drop [OF ok lt a(4) [OF ok]] unfolding kept_ok_def
    by (auto simp: hd_drop_conv_nth intro: exI [of _ "take ?r' ms"])
qed

text \<open>
  (C36) Compaction keeps tool blocks whole: on a tape whose tool results all follow the assistant
  message that asked for them, what is kept is an end of the tape with the same property, it is not
  empty unless nothing was to be kept, and it is longer than asked for only by reaching back through
  tool results to the assistant message that asked for them.
\<close>

theorem compaction_keeps_tool_blocks:
  assumes "tool_blocks_ok (tp_messages t)"
  shows "let kept = tp_messages (tape_compact env summary keep_last t) in
     (\<exists>dropped. tp_messages t = dropped @ kept) \<and> tool_blocks_ok kept \<and>
     (tp_messages t \<noteq> [] \<and> 0 < keep_last \<longrightarrow> kept \<noteq> []) \<and>
     (length kept \<le> keep_last \<or>
      (tool_requests (hd kept) \<noteq> [] \<and> (\<forall>j. 0 < j \<and> j + keep_last < length kept \<longrightarrow> is_tool_message (kept ! j))))"
proof -
  have "kept_ok (tp_messages t) keep_last (drop (compaction_retention_start env (tp_messages t) keep_last) (tp_messages t))"
  proof (cases "tp_messages t = [] \<or> keep_last = 0")
    case True
    then show ?thesis by (auto simp: kept_ok_def compaction_retention_start_def tool_blocks_ok_def)
  qed (use retention_kept_ok [OF assms] in simp)
  then show ?thesis by (simp add: tape_compact_def tape_set_summary_def Let_def kept_ok_def)
qed

definition demo_tape_env :: tape_env where
  "demo_tape_env = \<lparr>te_print = (\<lambda>_. ''{}''), te_parse = (\<lambda>_. None), te_sha_hex = id\<rparr>"

definition demo_tape_messages :: "message list" where
  "demo_tape_messages =
     [UserMessage [PartAttachment ''h'' ''image/png'' JNull], AssistantMessage [] [\<lparr>tr_id = ''a'', tr_name = ''run'', tr_arguments = JNull\<rparr>],
      ToolMessage [\<lparr>ts_id = ''a'', ts_content = [PartText ''one'']\<rparr>], ToolMessage [\<lparr>ts_id = ''b'', ts_content = []\<rparr>],
      AssistantMessage [PartText ''done''] []]"

theorem compaction_keeps_tool_blocks_witness:
  "let t = tape_replace demo_tape_env demo_tape_messages tape_new in
   tool_blocks_ok (tp_messages t) \<and> tool_blocks_ok (tp_messages (tape_compact demo_tape_env ''s'' 2 t)) \<and>
   tp_messages (tape_compact demo_tape_env ''s'' 2 t) = drop 1 demo_tape_messages"
proof -
  let ?t = "tape_replace demo_tape_env demo_tape_messages tape_new"
  have "is_tool_message (demo_tape_messages ! i) \<longrightarrow> (\<exists>k<i. tool_requests (demo_tape_messages ! k) \<noteq> [] \<and>
      (\<forall>j. k < j \<and> j < i \<longrightarrow> is_tool_message (demo_tape_messages ! j)))" if "i < 5" for i
  proof -
    have "i = 0 \<or> i = 1 \<or> i = 4 \<or> i = 2 \<or> i = 3" using that by auto
    then show ?thesis
      by (elim disjE) (auto simp: demo_tape_messages_def is_tool_message_def less_Suc_eq numeral_eq_Suc intro!: exI [of _ "Suc 0"])
  qed
  then have ok: "tool_blocks_ok (tp_messages ?t)"
    by (simp add: tape_replace_def tool_blocks_ok_def) (simp add: demo_tape_messages_def)
  have "tp_messages (tape_compact demo_tape_env ''s'' 2 ?t) = drop 1 demo_tape_messages" by code_simp
  then show ?thesis using ok compaction_keeps_tool_blocks [OF ok, of demo_tape_env "''s''" 2] by (simp add: Let_def)
qed

end
