(* ===== verification/Agent_Ops.thy ===== *)
theory Agent_Ops
  imports Agent_Tape
begin

text \<open>
  The operations an agent process accepts and the data its interactive requests carry
  (\<open>crates/agent-protocol/src\<close>: \<open>op.rs\<close>, \<open>user_input.rs\<close>, \<open>adaptive.rs\<close>, \<open>reasoning.rs\<close>;
  \<open>crates/agent-engine/src/approval.rs\<close>).
\<close>

datatype reasoning_effort = EffortNone | Minimal | Low | Medium | High | XHigh | Max | Ultra

datatype tool_capability = CapRead | CapWrite | CapNetwork | CapUnknown

datatype input_mode = Steer | FollowUp | NextTurn

datatype plan_item_status = PlanPending | PlanInProgress | PlanCompleted

record plan_item =
  pi_id :: string
  pi_content :: string
  pi_status :: plan_item_status

record turn_context =
  tc_reasoning_effort :: "reasoning_effort option"

datatype op =
    OpTurn "content_part list" "turn_context option"
  | OpInput "content_part list" input_mode
  | OpResume string "content_part list"
  | OpInterrupt
  | OpInterruptSubmission string
  | OpSelectProjectDirectory string
  | OpSelectModel string
  | OpContinueQueue
  | OpDiscardQueue
  | OpCompactWithOptions "string option"
  | OpRollback u32

datatype input_intent = IntentAgent | IntentForceAgent | IntentCommand

record submission =
  sub_id :: string
  sub_intent :: input_intent
  sub_op :: op

text \<open>At most one prefix character is consumed; the body is kept byte for byte.\<close>

definition parse_input_prefix :: "string \<Rightarrow> input_intent \<times> string" where
  "parse_input_prefix s =
     (case strip_prefix ''!'' s of
        Some body \<Rightarrow> (IntentCommand, body)
      | None \<Rightarrow>
          (case strip_prefix '':'' s of
             Some body \<Rightarrow> (IntentForceAgent, body)
           | None \<Rightarrow> (IntentAgent, s)))"

lemma parse_input_prefix_body:
  "parse_input_prefix s = (intent, body) \<Longrightarrow>
   s = (case intent of IntentCommand \<Rightarrow> ''!'' | IntentForceAgent \<Rightarrow> '':'' | IntentAgent \<Rightarrow> []) @ body"
  by (auto simp: parse_input_prefix_def strip_prefix_Some split: option.splits)

section \<open>Interactive requests\<close>

datatype adaptive_presentation_hint = HintRadio | HintToggle | HintSearchable | HintMultiline | HintCompact | HintDangerous

record structured_input_option =
  so_value :: string
  so_label :: string
  so_description :: "string option"

datatype structured_input_kind = KindText | KindBoolean | KindNumber | KindInteger | KindSingleSelect | KindMultiSelect

record structured_input_question =
  sq_id :: string
  sq_label :: string
  sq_prompt :: string
  sq_kind :: structured_input_kind
  sq_required :: bool
  sq_placeholder :: "string option"
  sq_help_text :: "string option"
  sq_default_value :: "string option"
  sq_default_values :: "string list"
  sq_min_selected :: "u32 option"
  sq_max_selected :: "u32 option"
  sq_options :: "structured_input_option list"
  sq_presentation_hints :: "adaptive_presentation_hint list"

record pending_structured_input =
  ps_request_id :: string
  ps_title :: string
  ps_prompt :: string
  ps_questions :: "structured_input_question list"

record pending_confirmation =
  pc_checkpoint_id :: string
  pc_checkpoint_type :: string
  pc_summary :: string
  pc_details :: json
  pc_options :: "string list"

record confirmation_yield_payload =
  cy_checkpoint_type :: string
  cy_summary :: string
  cy_details :: "json option"
  cy_options :: "string list"
  cy_default_option :: "string option"
  cy_presentation_hints :: "adaptive_presentation_hint list"

definition runtime_confirmation_yield_payload :: "pending_confirmation \<Rightarrow> confirmation_yield_payload" where
  "runtime_confirmation_yield_payload p =
     (let default_option =
        (case find (\<lambda>opt. opt = ''approve'') (pc_options p) of
           Some opt \<Rightarrow> Some opt
         | None \<Rightarrow> (case pc_options p of [] \<Rightarrow> None | opt # _ \<Rightarrow> Some opt))
      in \<lparr>cy_checkpoint_type = pc_checkpoint_type p, cy_summary = pc_summary p, cy_details = Some (pc_details p),
          cy_options = pc_options p, cy_default_option = default_option,
          cy_presentation_hints =
            (if is_runtime_confirmation_checkpoint_type (pc_checkpoint_type p) then [HintDangerous] else [])\<rparr>)"

text \<open>The default offered is one of the options, and approval when it is offered.\<close>

lemma default_option_offered:
  "cy_default_option (runtime_confirmation_yield_payload p) = Some opt \<Longrightarrow> opt \<in> set (pc_options p)"
  "''approve'' \<in> set (pc_options p) \<Longrightarrow> cy_default_option (runtime_confirmation_yield_payload p) = Some ''approve''"
  by (auto simp: runtime_confirmation_yield_payload_def Let_def find_None_iff split: option.splits list.splits dest!: find_holds)

section \<open>Recorded runtime confirmations\<close>

text \<open>\<open>agent_machine/runtime_control.rs\<close>: what rollback takes for the answer to a confirmation.\<close>

definition runtime_confirmation_control_checkpoint :: "json \<Rightarrow> (string \<times> string) option" where
  "runtime_confirmation_control_checkpoint payload =
     (case (Option.bind (json_get ''checkpoint_id'' payload) json_str,
            Option.bind (json_get ''checkpoint_type'' payload) json_str,
            Option.bind (json_get ''choice'' payload) json_str) of
        (Some checkpoint_id, Some checkpoint_type, Some choice) \<Rightarrow>
          if \<not> is_runtime_confirmation_checkpoint_type checkpoint_type then None
          else if choice \<noteq> ''approve'' \<and> choice \<noteq> ''reject'' then None
          else
            (case runtime_confirmation_checkpoint_prefix checkpoint_type of
               None \<Rightarrow> None
             | Some pre \<Rightarrow> if starts_with checkpoint_id pre then Some (checkpoint_id, checkpoint_type) else None)
      | _ \<Rightarrow> None)"

definition has_runtime_confirmation_control_kind_and_version :: "json \<Rightarrow> string \<Rightarrow> bool" where
  "has_runtime_confirmation_control_kind_and_version payload checkpoint_type \<longleftrightarrow>
     (let marker = json_get ''__alan_internal_control'' payload in
      Option.bind (Option.bind marker (json_get ''kind'')) json_str = runtime_confirmation_control_kind checkpoint_type \<and>
      Option.bind (Option.bind marker (json_get ''version'')) json_u64 = Some 1)"

definition runtime_confirmation_control_source :: "json \<Rightarrow> string option" where
  "runtime_confirmation_control_source payload =
     Option.bind (Option.bind (json_get ''__alan_internal_control'' payload) (json_get ''source'')) json_str"

definition is_runtime_confirmation_control_payload :: "json \<Rightarrow> bool" where
  "is_runtime_confirmation_control_payload payload =
     (case runtime_confirmation_control_checkpoint payload of
        None \<Rightarrow> False
      | Some (_, checkpoint_type) \<Rightarrow>
          has_runtime_confirmation_control_kind_and_version payload checkpoint_type \<and>
          runtime_confirmation_control_source payload = Some ''runtime/submission_handlers'')"

definition is_runtime_confirmation_control_message :: "message \<Rightarrow> bool" where
  "is_runtime_confirmation_control_message m =
     (case m of
        UserMessage ps \<Rightarrow>
          list_ex (\<lambda>p. case p of PartStructured v \<Rightarrow> is_runtime_confirmation_control_payload v | _ \<Rightarrow> False) ps
      | _ \<Rightarrow> False)"

text \<open>What rollback skips as control, compaction skips too.\<close>

lemma runtime_control_is_internal_control:
  "is_runtime_confirmation_control_message m \<Longrightarrow> is_internal_control_message env m"
proof (cases m)
  case (UserMessage ps)
  assume "is_runtime_confirmation_control_message m"
  then obtain p where p: "p \<in> set ps" "case p of PartStructured v \<Rightarrow> is_runtime_confirmation_control_payload v | _ \<Rightarrow> False"
    using UserMessage by (auto simp: is_runtime_confirmation_control_message_def list_ex_iff)
  then obtain v where v: "PartStructured v \<in> set ps" "is_runtime_confirmation_control_payload v"
    by (cases p rule: content_part.exhaust) auto
  then have "is_internal_control_payload v"
    by (auto simp: is_runtime_confirmation_control_payload_def runtime_confirmation_control_checkpoint_def
        has_runtime_confirmation_control_kind_and_version_def runtime_confirmation_control_source_def
        is_internal_control_payload_def is_runtime_confirmation_checkpoint_type_def Let_def Option.bind_eq_Some_conv
        split: option.splits if_splits)
  then show ?thesis using v(1) UserMessage
    by (auto simp: is_internal_control_message_def list_ex_iff is_internal_control_part_def intro!: bexI [of _ "PartStructured v"])
qed (auto simp: is_runtime_confirmation_control_message_def)

end
