(* ===== verification/Agent_Machine.thy ===== *)
theory Agent_Machine
  imports Agent_Ops
begin

text \<open>
  The in-memory state of an agent machine (\<open>crates/agent-engine/src/agent_machine.rs\<close> and
  \<open>agent_machine/transition_state.rs\<close>): the tape, the turn in progress, what the turn waits for, the
  guardian's circuit breaker and the compaction budget. Data the machine only carries is a type
  parameter: \<open>'b\<close> the model binding of an input, \<open>'sk\<close> an active skill, \<open>'job\<close> a deferred memory job.
  The order in which a hash map is iterated is an argument. What the recorder is asked to write is
  kept as a list; \<open>None\<close> is a machine without a recorder.
\<close>

section \<open>State\<close>

record pending_host_mount =
  ph_request_id :: string
  ph_tool_call_id :: string
  ph_namespace_path :: string
  ph_access :: string
  ph_reason :: string
  ph_label :: "string option"
  ph_request_events_offset :: u64

datatype pending_yield =
    YieldConfirmation pending_confirmation
  | YieldStructuredInput pending_structured_input
  | YieldHostMount pending_host_mount

datatype turn_activity_state = TurnIdle | TurnRunning | TurnPaused

record plan_snapshot =
  pl_explanation :: "string option"
  pl_items :: "plan_item list"

record normalized_tool_call =
  nt_id :: string
  nt_name :: string
  nt_arguments :: json

record pending_tool_replay_batch =
  rb_tool_calls :: "normalized_tool_call list"
  rb_resume_with_generation :: bool

datatype 'job queued_runtime_item = QueuedSubmission submission | QueuedDeferred 'job

datatype ui_input_status = InputCompleted | InputFailed | InputCancelled

record ('b, 'job) machine_input_queue =
  iq_queue_evidence_known :: bool
  iq_queue_uncertain_ids :: "string set"
  iq_pending :: "'job queued_runtime_item list"
  iq_paused :: bool
  iq_recovered :: bool
  iq_admitted_ids :: "string set"
  iq_settled_ids :: "string set"
  iq_pending_binding_rejections :: "string set"
  iq_confirmed_binding :: "'b option"
  iq_model_selection_outcomes :: "string \<rightharpoonup> ui_input_status"
  iq_bindings :: "string \<rightharpoonup> 'b"
  iq_active_submission_ids :: "string list"
  iq_active_cancel_requested :: bool
  iq_inband :: "submission list"
  iq_buffered_inband_submissions :: "submission list"
  iq_queued_next_turn_inputs :: "(string option \<times> content_part list) list"

record ('b, 'sk, 'job) machine_transition_state =
  mt_current_submission_id :: "string option"
  mt_related_submission_ids :: "string list"
  mt_submission_cancelled :: bool
  mt_pending :: "string \<rightharpoonup> pending_yield"
  mt_pending_tool_replay_batches :: "string \<rightharpoonup> pending_tool_replay_batch"
  mt_pending_order :: "string list"
  mt_turn_activity :: turn_activity_state
  mt_input_queue :: "('b, 'job) machine_input_queue"
  mt_compactions_this_turn :: u32
  mt_last_compaction_prompt_tokens :: "nat option"
  mt_active_turn_message_start :: "nat option"
  mt_active_skills :: "'sk list"
  mt_request_control_intent :: "reasoning_effort option"
  mt_plan_snapshot :: "plan_snapshot option"
  mt_plan_snapshot_turn_start :: "nat option"
  mt_plan_snapshot_message_count :: "nat option"
  mt_deferred_runtime_actions :: "'job list"
  mt_guardian_consecutive_denials :: u32
  mt_guardian_recent_reviews :: "bool list"

record responses_continuation_state =
  re_provider :: string
  re_last_response_id :: string
  re_boundary_message_count :: nat
  re_reference_context_revision :: u64

datatype recorded_item = RecordedMessage message | RecordedEvent string json

record ('b, 'sk, 'job) agent_machine =
  am_tape :: tape
  am_recorder :: "recorded_item list option"
  am_has_active_task :: bool
  am_transition_state :: "('b, 'sk, 'job) machine_transition_state"
  am_user_turn_ordinal :: u64
  am_compaction_failure_streak :: u32
  am_auto_memory_flush_attempted :: bool
  am_responses_continuation :: "responses_continuation_state option"

definition machine_input_queue_default :: "('b, 'job) machine_input_queue" where
  "machine_input_queue_default = \<lparr>iq_queue_evidence_known = False, iq_queue_uncertain_ids = {}, iq_pending = [],
     iq_paused = False, iq_recovered = False, iq_admitted_ids = {}, iq_settled_ids = {},
     iq_pending_binding_rejections = {}, iq_confirmed_binding = None, iq_model_selection_outcomes = Map.empty,
     iq_bindings = Map.empty, iq_active_submission_ids = [], iq_active_cancel_requested = False, iq_inband = [],
     iq_buffered_inband_submissions = [], iq_queued_next_turn_inputs = []\<rparr>"

definition machine_transition_state_default :: "('b, 'sk, 'job) machine_transition_state" where
  "machine_transition_state_default = \<lparr>mt_current_submission_id = None, mt_related_submission_ids = [],
     mt_submission_cancelled = False, mt_pending = Map.empty, mt_pending_tool_replay_batches = Map.empty,
     mt_pending_order = [], mt_turn_activity = TurnIdle, mt_input_queue = machine_input_queue_default,
     mt_compactions_this_turn = 0, mt_last_compaction_prompt_tokens = None, mt_active_turn_message_start = None,
     mt_active_skills = [], mt_request_control_intent = None, mt_plan_snapshot = None,
     mt_plan_snapshot_turn_start = None, mt_plan_snapshot_message_count = None, mt_deferred_runtime_actions = [],
     mt_guardian_consecutive_denials = 0, mt_guardian_recent_reviews = []\<rparr>"

definition agent_machine_new :: "('b, 'sk, 'job) agent_machine" where
  "agent_machine_new = \<lparr>am_tape = tape_new, am_recorder = None, am_has_active_task = False,
     am_transition_state = machine_transition_state_default, am_user_turn_ordinal = 0,
     am_compaction_failure_streak = 0, am_auto_memory_flush_attempted = False, am_responses_continuation = None\<rparr>"

abbreviation on_state ::
  "(('b, 'sk, 'job) machine_transition_state \<Rightarrow> ('b, 'sk, 'job) machine_transition_state) \<Rightarrow>
     ('b, 'sk, 'job) agent_machine \<Rightarrow> ('b, 'sk, 'job) agent_machine" where
  "on_state f m \<equiv> m\<lparr>am_transition_state := f (am_transition_state m)\<rparr>"

abbreviation on_queue ::
  "(('b, 'job) machine_input_queue \<Rightarrow> ('b, 'job) machine_input_queue) \<Rightarrow>
     ('b, 'sk, 'job) machine_transition_state \<Rightarrow> ('b, 'sk, 'job) machine_transition_state" where
  "on_queue f t \<equiv> t\<lparr>mt_input_queue := f (mt_input_queue t)\<rparr>"

definition record_item :: "recorded_item \<Rightarrow> ('b, 'sk, 'job) agent_machine \<Rightarrow> ('b, 'sk, 'job) agent_machine" where
  "record_item item m = m\<lparr>am_recorder := map_option (\<lambda>items. items @ [item]) (am_recorder m)\<rparr>"

definition record_event :: "string \<Rightarrow> json \<Rightarrow> ('b, 'sk, 'job) agent_machine \<Rightarrow> ('b, 'sk, 'job) agent_machine" where
  "record_event event_type payload m = record_item (RecordedEvent event_type payload) m"

section \<open>Submissions\<close>

definition sync_active_submission_ids ::
  "('b, 'sk, 'job) machine_transition_state \<Rightarrow> ('b, 'sk, 'job) machine_transition_state" where
  "sync_active_submission_ids t =
     on_queue (\<lambda>q. q\<lparr>iq_active_submission_ids :=
       mt_related_submission_ids t @ (case mt_current_submission_id t of None \<Rightarrow> [] | Some ident \<Rightarrow> [ident])\<rparr>) t"

definition accept_submission :: "string \<Rightarrow> ('b, 'sk, 'job) machine_transition_state \<Rightarrow> ('b, 'sk, 'job) machine_transition_state" where
  "accept_submission ident t =
     sync_active_submission_ids
       (on_queue (\<lambda>q. q\<lparr>iq_active_cancel_requested := False\<rparr>)
         (t\<lparr>mt_current_submission_id := Some ident, mt_submission_cancelled := False, mt_related_submission_ids := []\<rparr>))"

definition has_pending_interaction :: "('b, 'sk, 'job) machine_transition_state \<Rightarrow> bool" where
  "has_pending_interaction t \<longleftrightarrow> mt_pending t \<noteq> Map.empty"

definition finish_submission :: "('b, 'sk, 'job) machine_transition_state \<Rightarrow> ('b, 'sk, 'job) machine_transition_state" where
  "finish_submission t =
     (if has_pending_interaction t then t
      else sync_active_submission_ids
        (on_queue (\<lambda>q. q\<lparr>iq_active_cancel_requested := False\<rparr>)
          (t\<lparr>mt_current_submission_id := None, mt_submission_cancelled := False, mt_related_submission_ids := []\<rparr>)))"

definition mark_submission_cancelled :: "('b, 'sk, 'job) machine_transition_state \<Rightarrow> ('b, 'sk, 'job) machine_transition_state" where
  "mark_submission_cancelled t = t\<lparr>mt_submission_cancelled := True\<rparr>"

definition accept_steering_submission ::
  "string \<Rightarrow> ('b, 'sk, 'job) machine_transition_state \<Rightarrow> ('b, 'sk, 'job) machine_transition_state" where
  "accept_steering_submission ident t =
     (let t1 = t\<lparr>mt_current_submission_id := Some ident\<rparr> in
      sync_active_submission_ids
        (case mt_current_submission_id t of
           None \<Rightarrow> t1
         | Some previous \<Rightarrow>
             if previous \<in> set (mt_related_submission_ids t) then t1
             else t1\<lparr>mt_related_submission_ids := mt_related_submission_ids t @ [previous]\<rparr>))"

section \<open>Guardian\<close>

definition guardian_max_consecutive_denials :: u32 where
  "guardian_max_consecutive_denials = 3"

definition guardian_denial_window :: nat where
  "guardian_denial_window = 50"

definition guardian_max_denials_in_window :: nat where
  "guardian_max_denials_in_window = 10"

definition record_guardian_review ::
  "bool \<Rightarrow> ('b, 'sk, 'job) machine_transition_state \<Rightarrow> bool \<times> ('b, 'sk, 'job) machine_transition_state" where
  "record_guardian_review denied t =
     (let consecutive = (if denied then saturating_succ (mt_guardian_consecutive_denials t) else 0);
          pushed = mt_guardian_recent_reviews t @ [denied];
          recent = drop (length pushed - guardian_denial_window) pushed;
          denials = length (filter (\<lambda>d. d) recent)
      in (consecutive \<ge> guardian_max_consecutive_denials \<or> denials \<ge> guardian_max_denials_in_window,
          t\<lparr>mt_guardian_consecutive_denials := consecutive, mt_guardian_recent_reviews := recent\<rparr>))"

section \<open>Compaction budget\<close>

definition auto_mid_turn_compaction_limit :: u32 where
  "auto_mid_turn_compaction_limit = 2"

definition auto_mid_turn_compaction_min_growth_tokens :: nat where
  "auto_mid_turn_compaction_min_growth_tokens = 256"

definition is_auto_mid_turn_compaction_emergency :: "nat \<Rightarrow> nat \<Rightarrow> bool" where
  "is_auto_mid_turn_compaction_emergency prompt_tokens context_window_tokens \<longleftrightarrow>
     context_window_tokens > 0 \<and>
     prompt_tokens \<ge> context_window_tokens - auto_mid_turn_compaction_min_growth_tokens"

definition reset_auto_mid_turn_compaction_state ::
  "('b, 'sk, 'job) machine_transition_state \<Rightarrow> ('b, 'sk, 'job) machine_transition_state" where
  "reset_auto_mid_turn_compaction_state t = t\<lparr>mt_compactions_this_turn := 0, mt_last_compaction_prompt_tokens := None\<rparr>"

definition can_auto_mid_turn_compact :: "('b, 'sk, 'job) machine_transition_state \<Rightarrow> nat \<Rightarrow> nat \<Rightarrow> bool" where
  "can_auto_mid_turn_compact t prompt_tokens context_window_tokens =
     (if is_auto_mid_turn_compaction_emergency prompt_tokens context_window_tokens then True
      else if mt_compactions_this_turn t \<ge> auto_mid_turn_compaction_limit then False
      else
        (case mt_last_compaction_prompt_tokens t of
           Some last_prompt_tokens \<Rightarrow>
             \<not> prompt_tokens \<le> last_prompt_tokens + auto_mid_turn_compaction_min_growth_tokens
         | None \<Rightarrow> True))"

definition record_auto_mid_turn_compaction ::
  "nat \<Rightarrow> ('b, 'sk, 'job) machine_transition_state \<Rightarrow> ('b, 'sk, 'job) machine_transition_state" where
  "record_auto_mid_turn_compaction output_prompt_tokens t =
     t\<lparr>mt_compactions_this_turn := saturating_succ (mt_compactions_this_turn t),
       mt_last_compaction_prompt_tokens := Some output_prompt_tokens\<rparr>"

section \<open>Turns\<close>

definition host_mount_cleared_event :: "string \<Rightarrow> recorded_item" where
  "host_mount_cleared_event request_id =
     RecordedEvent ''host_mount_request_wait_cleared''
       (JObject [(''reason'', JString ''turn_reset''), (''request_id'', JString request_id)])"

definition cleared_host_mount_requests :: "string list \<Rightarrow> (string \<rightharpoonup> pending_yield) \<Rightarrow> string list" where
  "cleared_host_mount_requests order pending =
     List.map_filter (\<lambda>key. case pending key of Some (YieldHostMount p) \<Rightarrow> Some (ph_request_id p) | _ \<Rightarrow> None) order"

definition reset_turn_state :: "('b, 'sk, 'job) machine_transition_state \<Rightarrow> ('b, 'sk, 'job) machine_transition_state" where
  "reset_turn_state t =
     (let t1 = on_queue (\<lambda>q. q\<lparr>iq_buffered_inband_submissions := []\<rparr>)
        (t\<lparr>mt_pending := Map.empty, mt_pending_tool_replay_batches := Map.empty, mt_pending_order := [],
           mt_turn_activity := TurnIdle\<rparr>);
          t2 = reset_auto_mid_turn_compaction_state
            (t1\<lparr>mt_active_turn_message_start := None, mt_active_skills := [], mt_request_control_intent := None\<rparr>)
      in t2\<lparr>mt_guardian_consecutive_denials := 0, mt_guardian_recent_reviews := []\<rparr>)"

definition reset_turn :: "string list \<Rightarrow> ('b, 'sk, 'job) agent_machine \<Rightarrow> ('b, 'sk, 'job) agent_machine" where
  "reset_turn order m =
     on_state reset_turn_state
       (fold (\<lambda>request_id. record_item (host_mount_cleared_event request_id))
         (cleared_host_mount_requests order (mt_pending (am_transition_state m))) m)"

definition set_turn_activity ::
  "turn_activity_state \<Rightarrow> ('b, 'sk, 'job) machine_transition_state \<Rightarrow> ('b, 'sk, 'job) machine_transition_state" where
  "set_turn_activity activity t =
     (let t1 = t\<lparr>mt_turn_activity := activity\<rparr> in
      if activity = TurnIdle
      then on_queue (\<lambda>q. q\<lparr>iq_active_cancel_requested := False, iq_active_submission_ids := []\<rparr>)
        (t1\<lparr>mt_submission_cancelled := (mt_submission_cancelled t \<or> iq_active_cancel_requested (mt_input_queue t))\<rparr>)
      else t1)"

definition is_turn_active :: "('b, 'sk, 'job) machine_transition_state \<Rightarrow> bool" where
  "is_turn_active t \<longleftrightarrow> mt_turn_activity t \<noteq> TurnIdle"

definition begin_turn :: "nat \<Rightarrow> ('b, 'sk, 'job) machine_transition_state \<Rightarrow> ('b, 'sk, 'job) machine_transition_state" where
  "begin_turn tape_message_count t = t\<lparr>mt_active_turn_message_start := Some tape_message_count\<rparr>"

section \<open>Queued input\<close>

definition max_queued_next_turn_inputs :: nat where
  "max_queued_next_turn_inputs = 16"

definition queue_next_turn_input ::
  "content_part list \<Rightarrow> ('b, 'sk, 'job) machine_transition_state \<Rightarrow> nat option \<times> ('b, 'sk, 'job) machine_transition_state" where
  "queue_next_turn_input parts t =
     (let queued = iq_queued_next_turn_inputs (mt_input_queue t) in
      if length queued \<ge> max_queued_next_turn_inputs then (None, t)
      else
        (let queued' = queued @ [(mt_current_submission_id t, parts)] in
         (Some (length queued'), on_queue (\<lambda>q. q\<lparr>iq_queued_next_turn_inputs := queued'\<rparr>) t)))"

text \<open>One step of the drain: the identity of a queued input joins the submissions being answered.\<close>

definition relate_drained :: "string option \<Rightarrow> string option \<Rightarrow> string list \<Rightarrow> string list" where
  "relate_drained current ident related =
     (case ident of
        None \<Rightarrow> related
      | Some i \<Rightarrow> if current \<noteq> Some i \<and> i \<notin> set related then related @ [i] else related)"

definition drain_next_turn_inputs ::
  "('b, 'sk, 'job) machine_transition_state \<Rightarrow> content_part list list \<times> ('b, 'sk, 'job) machine_transition_state" where
  "drain_next_turn_inputs t =
     (let inputs = iq_queued_next_turn_inputs (mt_input_queue t);
          t1 = on_queue (\<lambda>q. q\<lparr>iq_queued_next_turn_inputs := []\<rparr>) t;
          related = fold (\<lambda>(ident, _). relate_drained (mt_current_submission_id t) ident) inputs (mt_related_submission_ids t)
      in (map snd inputs, sync_active_submission_ids (t1\<lparr>mt_related_submission_ids := related\<rparr>)))"

definition drain_buffered_inband_submissions ::
  "('b, 'sk, 'job) machine_transition_state \<Rightarrow> submission list \<times> ('b, 'sk, 'job) machine_transition_state" where
  "drain_buffered_inband_submissions t =
     (iq_buffered_inband_submissions (mt_input_queue t), on_queue (\<lambda>q. q\<lparr>iq_buffered_inband_submissions := []\<rparr>) t)"

definition push_buffered_inband_submission ::
  "submission \<Rightarrow> ('b, 'sk, 'job) machine_transition_state \<Rightarrow> ('b, 'sk, 'job) machine_transition_state" where
  "push_buffered_inband_submission sub t =
     on_queue (\<lambda>q. q\<lparr>iq_buffered_inband_submissions := iq_buffered_inband_submissions q @ [sub]\<rparr>) t"

definition pop_buffered_inband_submission ::
  "('b, 'sk, 'job) machine_transition_state \<Rightarrow> submission option \<times> ('b, 'sk, 'job) machine_transition_state" where
  "pop_buffered_inband_submission t =
     (case iq_buffered_inband_submissions (mt_input_queue t) of
        [] \<Rightarrow> (None, t)
      | sub # subs \<Rightarrow> (Some sub, on_queue (\<lambda>q. q\<lparr>iq_buffered_inband_submissions := subs\<rparr>) t))"

definition buffered_inband_user_input_count :: "('b, 'sk, 'job) machine_transition_state \<Rightarrow> nat" where
  "buffered_inband_user_input_count t =
     length (filter (\<lambda>sub. case sub_op sub of OpInput _ _ \<Rightarrow> True | _ \<Rightarrow> False)
       (iq_buffered_inband_submissions (mt_input_queue t)))"

definition clear_buffered_inband_submissions ::
  "('b, 'sk, 'job) machine_transition_state \<Rightarrow> nat \<times> ('b, 'sk, 'job) machine_transition_state" where
  "clear_buffered_inband_submissions t =
     (length (iq_buffered_inband_submissions (mt_input_queue t)),
      on_queue (\<lambda>q. q\<lparr>iq_buffered_inband_submissions := []\<rparr>) t)"

section \<open>Plan snapshots\<close>

definition clear_plan_snapshot :: "('b, 'sk, 'job) machine_transition_state \<Rightarrow> ('b, 'sk, 'job) machine_transition_state" where
  "clear_plan_snapshot t =
     t\<lparr>mt_plan_snapshot := None, mt_plan_snapshot_turn_start := None, mt_plan_snapshot_message_count := None\<rparr>"

definition set_plan_snapshot ::
  "string option \<Rightarrow> plan_item list \<Rightarrow> ('b, 'sk, 'job) machine_transition_state \<Rightarrow> ('b, 'sk, 'job) machine_transition_state" where
  "set_plan_snapshot explanation items t =
     t\<lparr>mt_plan_snapshot := Some \<lparr>pl_explanation = explanation, pl_items = items\<rparr>,
       mt_plan_snapshot_turn_start := mt_active_turn_message_start t, mt_plan_snapshot_message_count := None\<rparr>"

definition set_plan_snapshot_at_message_count ::
  "string option \<Rightarrow> plan_item list \<Rightarrow> nat \<Rightarrow> ('b, 'sk, 'job) machine_transition_state \<Rightarrow>
     ('b, 'sk, 'job) machine_transition_state" where
  "set_plan_snapshot_at_message_count explanation items tape_message_count t =
     (set_plan_snapshot explanation items t)\<lparr>mt_plan_snapshot_message_count := Some tape_message_count\<rparr>"

definition plan_snapshot_is_from_active_turn :: "('b, 'sk, 'job) machine_transition_state \<Rightarrow> bool" where
  "plan_snapshot_is_from_active_turn t \<longleftrightarrow>
     mt_active_turn_message_start t \<noteq> None \<and> mt_plan_snapshot_turn_start t = mt_active_turn_message_start t"

definition plan_snapshot_postdates_message :: "('b, 'sk, 'job) machine_transition_state \<Rightarrow> nat \<Rightarrow> bool" where
  "plan_snapshot_postdates_message t message_index =
     (case mt_plan_snapshot_message_count t of None \<Rightarrow> False | Some count \<Rightarrow> count > message_index)"

text \<open>An index kept only when it points into what compaction retains.\<close>

definition rebase_index :: "nat \<Rightarrow> nat option \<Rightarrow> nat option" where
  "rebase_index retention_start index =
     (case index of None \<Rightarrow> None | Some i \<Rightarrow> if i < retention_start then None else Some (i - retention_start))"

definition note_tape_compaction ::
  "nat \<Rightarrow> ('b, 'sk, 'job) machine_transition_state \<Rightarrow> ('b, 'sk, 'job) machine_transition_state" where
  "note_tape_compaction retention_start t =
     t\<lparr>mt_active_turn_message_start := map_option (\<lambda>i. i - retention_start) (mt_active_turn_message_start t),
       mt_plan_snapshot_turn_start := rebase_index retention_start (mt_plan_snapshot_turn_start t),
       mt_plan_snapshot_message_count := rebase_index retention_start (mt_plan_snapshot_message_count t)\<rparr>"

definition note_resumed_user_input :: "('b, 'sk, 'job) machine_transition_state \<Rightarrow> ('b, 'sk, 'job) machine_transition_state" where
  "note_resumed_user_input t = t\<lparr>mt_plan_snapshot_turn_start := None\<rparr>"

definition set_active_skills ::
  "'sk list \<Rightarrow> ('b, 'sk, 'job) machine_transition_state \<Rightarrow> ('b, 'sk, 'job) machine_transition_state" where
  "set_active_skills skills t = t\<lparr>mt_active_skills := skills\<rparr>"

definition set_active_turn_request_control_intent ::
  "reasoning_effort option \<Rightarrow> ('b, 'sk, 'job) machine_transition_state \<Rightarrow> ('b, 'sk, 'job) machine_transition_state" where
  "set_active_turn_request_control_intent intent t = t\<lparr>mt_request_control_intent := intent\<rparr>"

definition push_deferred_runtime_action ::
  "'job \<Rightarrow> ('b, 'sk, 'job) machine_transition_state \<Rightarrow> ('b, 'sk, 'job) machine_transition_state" where
  "push_deferred_runtime_action action t = t\<lparr>mt_deferred_runtime_actions := mt_deferred_runtime_actions t @ [action]\<rparr>"

definition drain_deferred_runtime_actions ::
  "('b, 'sk, 'job) machine_transition_state \<Rightarrow> 'job list \<times> ('b, 'sk, 'job) machine_transition_state" where
  "drain_deferred_runtime_actions t = (mt_deferred_runtime_actions t, t\<lparr>mt_deferred_runtime_actions := []\<rparr>)"

section \<open>Pending interactions\<close>

definition remove_key :: "string \<Rightarrow> string list \<Rightarrow> string list" where
  "remove_key key order = remove1 key order"

definition push_latest_key :: "string \<Rightarrow> string list \<Rightarrow> string list" where
  "push_latest_key key order = remove_key key order @ [key]"

definition set_pending ::
  "string \<Rightarrow> pending_yield \<Rightarrow> ('b, 'sk, 'job) machine_transition_state \<Rightarrow> ('b, 'sk, 'job) machine_transition_state" where
  "set_pending key item t =
     t\<lparr>mt_pending := (mt_pending t)(key \<mapsto> item), mt_pending_order := push_latest_key key (mt_pending_order t)\<rparr>"

definition set_confirmation_for_request ::
  "string \<Rightarrow> pending_confirmation \<Rightarrow> ('b, 'sk, 'job) machine_transition_state \<Rightarrow> ('b, 'sk, 'job) machine_transition_state" where
  "set_confirmation_for_request request_id pending t = set_pending request_id (YieldConfirmation pending) t"

definition set_structured_input_for_request ::
  "string \<Rightarrow> pending_structured_input \<Rightarrow> ('b, 'sk, 'job) machine_transition_state \<Rightarrow>
     ('b, 'sk, 'job) machine_transition_state" where
  "set_structured_input_for_request request_id pending t = set_pending request_id (YieldStructuredInput pending) t"

definition set_host_mount_request ::
  "pending_host_mount \<Rightarrow> ('b, 'sk, 'job) machine_transition_state \<Rightarrow> ('b, 'sk, 'job) machine_transition_state" where
  "set_host_mount_request pending t = set_pending (ph_request_id pending) (YieldHostMount pending) t"

definition pending_confirmation_latest :: "('b, 'sk, 'job) machine_transition_state \<Rightarrow> pending_confirmation option" where
  "pending_confirmation_latest t =
     (case List.map_filter (\<lambda>key. case mt_pending t key of Some (YieldConfirmation p) \<Rightarrow> Some p | _ \<Rightarrow> None)
        (rev (mt_pending_order t)) of
        [] \<Rightarrow> None | p # _ \<Rightarrow> Some p)"

definition pending_host_mount_of :: "('b, 'sk, 'job) machine_transition_state \<Rightarrow> string \<Rightarrow> pending_host_mount option" where
  "pending_host_mount_of t request_id =
     (case mt_pending t request_id of Some (YieldHostMount p) \<Rightarrow> Some p | _ \<Rightarrow> None)"

definition set_tool_replay_batch ::
  "string \<Rightarrow> normalized_tool_call list \<Rightarrow> bool \<Rightarrow> ('b, 'sk, 'job) machine_transition_state \<Rightarrow>
     ('b, 'sk, 'job) machine_transition_state" where
  "set_tool_replay_batch checkpoint_id tool_calls resume_with_generation t =
     t\<lparr>mt_pending_tool_replay_batches := (mt_pending_tool_replay_batches t)
       (checkpoint_id \<mapsto> \<lparr>rb_tool_calls = tool_calls, rb_resume_with_generation = resume_with_generation\<rparr>)\<rparr>"

definition take_tool_replay_batch ::
  "string \<Rightarrow> ('b, 'sk, 'job) machine_transition_state \<Rightarrow>
     pending_tool_replay_batch option \<times> ('b, 'sk, 'job) machine_transition_state" where
  "take_tool_replay_batch checkpoint_id t =
     (mt_pending_tool_replay_batches t checkpoint_id,
      t\<lparr>mt_pending_tool_replay_batches := (mt_pending_tool_replay_batches t)(checkpoint_id := None)\<rparr>)"

definition take_pending ::
  "string \<Rightarrow> ('b, 'sk, 'job) machine_transition_state \<Rightarrow> pending_yield option \<times> ('b, 'sk, 'job) machine_transition_state" where
  "take_pending request_id t =
     (case mt_pending t request_id of
        None \<Rightarrow> (None, t)
      | Some item \<Rightarrow>
          (Some item, t\<lparr>mt_pending := (mt_pending t)(request_id := None),
             mt_pending_order := remove_key request_id (mt_pending_order t)\<rparr>))"

section \<open>The tape of the machine\<close>

definition add_user_message_parts_internal ::
  "tape_env \<Rightarrow> content_part list \<Rightarrow> bool \<Rightarrow> ('b, 'sk, 'job) agent_machine \<Rightarrow> ('b, 'sk, 'job) agent_machine" where
  "add_user_message_parts_internal env parts count_as_turn m =
     (let m1 = (if count_as_turn then m\<lparr>am_user_turn_ordinal := saturating_succ (am_user_turn_ordinal m)\<rparr> else m) in
      record_item (RecordedMessage (UserMessage parts)) (m1\<lparr>am_tape := tape_push env (UserMessage parts) (am_tape m1)\<rparr>))"

definition reasoning_parts :: "string option \<Rightarrow> string option \<Rightarrow> string list \<Rightarrow> content_part list" where
  "reasoning_parts thinking signature redacted =
     (case thinking of
        Some t \<Rightarrow>
          if t = [] then []
          else (case signature of
                  Some sig \<Rightarrow> [PartThinking t (if trim sig \<noteq> [] then Some sig else None)]
                | None \<Rightarrow> [PartThinking t None])
      | None \<Rightarrow> []) @
     map PartRedactedThinking (filter (\<lambda>block. trim block \<noteq> []) redacted)"

definition add_assistant_message_with_reasoning ::
  "tape_env \<Rightarrow> string \<Rightarrow> string option \<Rightarrow> string option \<Rightarrow> string list \<Rightarrow>
     ('b, 'sk, 'job) agent_machine \<Rightarrow> ('b, 'sk, 'job) agent_machine" where
  "add_assistant_message_with_reasoning env content thinking signature redacted m =
     (let msg = AssistantMessage (reasoning_parts thinking signature redacted @ [PartText content]) [] in
      record_item (RecordedMessage msg) (m\<lparr>am_tape := tape_push env msg (am_tape m)\<rparr>))"

definition add_assistant_message_with_tool_calls_and_reasoning ::
  "tape_env \<Rightarrow> string \<Rightarrow> tool_request list \<Rightarrow> string option \<Rightarrow> string option \<Rightarrow> string list \<Rightarrow>
     ('b, 'sk, 'job) agent_machine \<Rightarrow> ('b, 'sk, 'job) agent_machine" where
  "add_assistant_message_with_tool_calls_and_reasoning env content tool_calls thinking signature redacted m =
     (let msg = AssistantMessage
        (reasoning_parts thinking signature redacted @ (if content \<noteq> [] then [PartText content] else [])) tool_calls in
      record_item (RecordedMessage msg) (m\<lparr>am_tape := tape_push env msg (am_tape m)\<rparr>))"

definition json_nat :: "nat \<Rightarrow> json" where
  "json_nat n = JNumber (PosInt (of_nat n))"

definition clear_responses_continuation :: "string \<Rightarrow> ('b, 'sk, 'job) agent_machine \<Rightarrow> ('b, 'sk, 'job) agent_machine" where
  "clear_responses_continuation reason m =
     (case am_responses_continuation m of
        None \<Rightarrow> m
      | Some previous \<Rightarrow>
          record_event ''responses_continuation''
            (JObject [(''boundary_message_count'', json_nat (re_boundary_message_count previous)), (''cleared'', JBool True),
              (''last_response_id'', JString (re_last_response_id previous)), (''provider'', JString (re_provider previous)),
              (''reason'', JString reason),
              (''reference_context_revision'', JNumber (PosInt (re_reference_context_revision previous)))])
            (m\<lparr>am_responses_continuation := None\<rparr>))"

definition note_compaction_failure :: "('b, 'sk, 'job) agent_machine \<Rightarrow> u32 \<times> ('b, 'sk, 'job) agent_machine" where
  "note_compaction_failure m =
     (let streak = saturating_succ (am_compaction_failure_streak m) in (streak, m\<lparr>am_compaction_failure_streak := streak\<rparr>))"

section \<open>Rollback\<close>

record rollback_outcome =
  ro_removed_turns :: nat
  ro_removed_messages :: nat

definition is_turn_message :: "message \<Rightarrow> bool" where
  "is_turn_message msg \<longleftrightarrow> is_user_message msg \<and> \<not> is_runtime_confirmation_control_message msg"

text \<open>The backward loop over the messages: how many turns were seen and where removal starts.\<close>

fun rollback_scan :: "message list \<Rightarrow> nat \<Rightarrow> nat \<Rightarrow> nat \<Rightarrow> nat \<times> nat" where
  "rollback_scan ms requested seen 0 = (seen, 0)"
| "rollback_scan ms requested seen (Suc i) =
     (let seen' = (if is_turn_message (ms ! i) then seen + 1 else seen) in
      if is_turn_message (ms ! i) \<and> seen' \<ge> requested then (seen', i)
      else rollback_scan ms requested seen' i)"

definition rollback_event :: "u32 \<Rightarrow> nat \<Rightarrow> nat \<Rightarrow> json" where
  "rollback_event requested removed_turns removed_messages =
     JObject [(''durable'', JBool False), (''removed_messages'', json_nat removed_messages),
       (''removed_turns'', json_nat removed_turns), (''requested_turns'', json_nat (unat requested)),
       (''scope'', JString ''in_memory''),
       (''warning'', JString ''Rollback is in-memory only and will not survive runtime restart.'')]"

definition rollback_last_turns ::
  "tape_env \<Rightarrow> u32 \<Rightarrow> ('b, 'sk, 'job) agent_machine \<Rightarrow> rollback_outcome \<times> ('b, 'sk, 'job) agent_machine" where
  "rollback_last_turns env requested m =
     (let ms = tp_messages (am_tape m); none = \<lparr>ro_removed_turns = 0, ro_removed_messages = 0\<rparr> in
      if requested = 0 then (none, m)
      else if ms = [] then (none, m)
      else
        (let (seen, remove_from) = rollback_scan ms (unat requested) 0 (length ms) in
         if seen = 0 then (none, m)
         else
           (let m1 = clear_responses_continuation ''rollback''
                  (m\<lparr>am_tape := tape_clear_summary (tape_replace env (take remove_from ms) (am_tape m))\<rparr>);
                m2 = (if tp_messages (am_tape m1) = [] then m1\<lparr>am_has_active_task := False\<rparr> else m1);
                removed = length ms - remove_from
            in (\<lparr>ro_removed_turns = seen, ro_removed_messages = removed\<rparr>,
                record_event ''machine_rollback'' (rollback_event requested seen removed) m2))))"

section \<open>Runs of the machine\<close>

text \<open>
  Automatic compaction in the middle of a turn is the one operation composed outside the machine
  (\<open>runtime/transition/turn_execution.rs\<close>): it is tried only when the machine allows it, and recorded
  when the compactor, whose outcome is an argument, reports the size of the prompt it has left.
\<close>

definition auto_compact :: "nat \<Rightarrow> nat \<Rightarrow> nat option \<Rightarrow> ('b, 'sk, 'job) machine_transition_state \<Rightarrow>
     ('b, 'sk, 'job) machine_transition_state" where
  "auto_compact prompt_tokens context_window_tokens outcome t =
     (if \<not> can_auto_mid_turn_compact t prompt_tokens context_window_tokens then t
      else
        (case outcome of
           Some output_prompt_tokens \<Rightarrow> record_auto_mid_turn_compaction output_prompt_tokens t
         | None \<Rightarrow> t))"

datatype ('sk, 'job) machine_op =
    MAccept string | MFinish | MCancel | MSteer string
  | MReview bool | MResetTurn "string list" | MNewTurn
  | MAutoCompact nat nat "nat option"
  | MActivity turn_activity_state | MBeginTurn nat
  | MQueueNextTurn "content_part list" | MDrainNextTurn
  | MPushInband submission | MPopInband | MDrainInband | MClearInband
  | MClearPlan | MSetPlan "string option" "plan_item list" | MSetPlanAt "string option" "plan_item list" nat
  | MTapeCompacted nat | MResumed
  | MSkills "'sk list" | MIntent "reasoning_effort option" | MPushDeferred 'job | MDrainDeferred
  | MConfirmation string pending_confirmation | MStructuredInput string pending_structured_input
  | MHostMount pending_host_mount | MTakePending string
  | MSetReplay string "normalized_tool_call list" bool | MTakeReplay string

primrec state_apply ::
  "('sk, 'job) machine_op \<Rightarrow> ('b, 'sk, 'job) machine_transition_state \<Rightarrow> ('b, 'sk, 'job) machine_transition_state" where
  "state_apply (MAccept ident) t = accept_submission ident t"
| "state_apply MFinish t = finish_submission t"
| "state_apply MCancel t = mark_submission_cancelled t"
| "state_apply (MSteer ident) t = accept_steering_submission ident t"
| "state_apply (MReview denied) t = snd (record_guardian_review denied t)"
| "state_apply (MResetTurn order) t = reset_turn_state t"
| "state_apply MNewTurn t = reset_auto_mid_turn_compaction_state t"
| "state_apply (MAutoCompact prompt_tokens window outcome) t = auto_compact prompt_tokens window outcome t"
| "state_apply (MActivity activity) t = set_turn_activity activity t"
| "state_apply (MBeginTurn n) t = begin_turn n t"
| "state_apply (MQueueNextTurn parts) t = snd (queue_next_turn_input parts t)"
| "state_apply MDrainNextTurn t = snd (drain_next_turn_inputs t)"
| "state_apply (MPushInband sub) t = push_buffered_inband_submission sub t"
| "state_apply MPopInband t = snd (pop_buffered_inband_submission t)"
| "state_apply MDrainInband t = snd (drain_buffered_inband_submissions t)"
| "state_apply MClearInband t = snd (clear_buffered_inband_submissions t)"
| "state_apply MClearPlan t = clear_plan_snapshot t"
| "state_apply (MSetPlan explanation items) t = set_plan_snapshot explanation items t"
| "state_apply (MSetPlanAt explanation items n) t = set_plan_snapshot_at_message_count explanation items n t"
| "state_apply (MTapeCompacted retention_start) t = note_tape_compaction retention_start t"
| "state_apply MResumed t = note_resumed_user_input t"
| "state_apply (MSkills skills) t = set_active_skills skills t"
| "state_apply (MIntent intent) t = set_active_turn_request_control_intent intent t"
| "state_apply (MPushDeferred job) t = push_deferred_runtime_action job t"
| "state_apply MDrainDeferred t = snd (drain_deferred_runtime_actions t)"
| "state_apply (MConfirmation key p) t = set_confirmation_for_request key p t"
| "state_apply (MStructuredInput key p) t = set_structured_input_for_request key p t"
| "state_apply (MHostMount p) t = set_host_mount_request p t"
| "state_apply (MTakePending key) t = snd (take_pending key t)"
| "state_apply (MSetReplay checkpoint calls resume) t = set_tool_replay_batch checkpoint calls resume t"
| "state_apply (MTakeReplay checkpoint) t = snd (take_tool_replay_batch checkpoint t)"

text \<open>The reset of a turn also asks the recorder to note the host mount requests it abandons.\<close>

lemma fold_record_state [simp]:
  "am_transition_state (fold (\<lambda>r. record_item (f r)) rs m) = am_transition_state m"
  by (induction rs arbitrary: m) (simp_all add: record_item_def)

lemma reset_turn_state_apply: "am_transition_state (reset_turn order m) = state_apply (MResetTurn order) (am_transition_state m)"
  by (simp add: reset_turn_def)

definition state_run ::
  "('sk, 'job) machine_op list \<Rightarrow> ('b, 'sk, 'job) machine_transition_state \<Rightarrow> ('b, 'sk, 'job) machine_transition_state" where
  "state_run ops t = fold state_apply ops t"

lemma state_run_simps [simp]:
  "state_run [] t = t" "state_run (ops @ [op]) t = state_apply op (state_run ops t)"
  by (simp_all add: state_run_def)

lemmas state_op_defs = accept_submission_def finish_submission_def mark_submission_cancelled_def accept_steering_submission_def
  sync_active_submission_ids_def record_guardian_review_def reset_turn_state_def reset_auto_mid_turn_compaction_state_def
  auto_compact_def record_auto_mid_turn_compaction_def set_turn_activity_def begin_turn_def queue_next_turn_input_def
  drain_next_turn_inputs_def push_buffered_inband_submission_def pop_buffered_inband_submission_def
  drain_buffered_inband_submissions_def clear_buffered_inband_submissions_def clear_plan_snapshot_def set_plan_snapshot_def
  set_plan_snapshot_at_message_count_def note_tape_compaction_def note_resumed_user_input_def set_active_skills_def
  set_active_turn_request_control_intent_def push_deferred_runtime_action_def drain_deferred_runtime_actions_def
  set_confirmation_for_request_def set_structured_input_for_request_def set_host_mount_request_def set_pending_def
  take_pending_def set_tool_replay_batch_def take_tool_replay_batch_def

section \<open>Pending interactions are exactly the listed ones\<close>

definition machine_inv :: "('b, 'sk, 'job) machine_transition_state \<Rightarrow> bool" where
  "machine_inv t \<longleftrightarrow>
     distinct (mt_pending_order t) \<and> set (mt_pending_order t) = dom (mt_pending t) \<and>
     length (mt_guardian_recent_reviews t) \<le> guardian_denial_window \<and>
     length (iq_queued_next_turn_inputs (mt_input_queue t)) \<le> max_queued_next_turn_inputs"

lemma push_latest_key_props:
  "distinct order \<Longrightarrow> distinct (push_latest_key key order)"
  "set (push_latest_key key order) = insert key (set order)"
  by (auto simp: push_latest_key_def remove_key_def dest: in_set_remove1 [THEN iffD2, rotated])

lemma set_pending_inv: "machine_inv t \<Longrightarrow> machine_inv (set_pending key item t)"
  by (simp add: machine_inv_def set_pending_def push_latest_key_props)

lemma take_pending_inv: "machine_inv t \<Longrightarrow> machine_inv (snd (take_pending key t))"
  by (auto simp: machine_inv_def take_pending_def remove_key_def split: option.split)

lemma state_apply_inv: "machine_inv t \<Longrightarrow> machine_inv (state_apply op t)"
proof (cases op)
  case (MTakePending key)
  then show "machine_inv t \<Longrightarrow> ?thesis" by (simp add: take_pending_inv)
qed (simp_all add: set_pending_inv set_confirmation_for_request_def set_structured_input_for_request_def
    set_host_mount_request_def, simp_all add: machine_inv_def state_op_defs Let_def
    split: option.split list.split)

lemma state_run_inv: "machine_inv t \<Longrightarrow> machine_inv (state_run ops t)"
  by (induction ops rule: rev_induct) (simp_all add: state_apply_inv)

lemma machine_inv_new: "machine_inv machine_transition_state_default"
  by (simp add: machine_inv_def machine_transition_state_default_def machine_input_queue_default_def)

text \<open>
  The machine's bookkeeping stays consistent: after any operations the requests listed for the
  user are exactly the ones that wait, each once, so that every listed request can be taken and the
  one set last is listed last; the guardian's window and the next-turn queue stay within their bounds.
\<close>

lemma pending_requests_consistent:
  "let t = state_run ops machine_transition_state_default in
   distinct (mt_pending_order t) \<and>
   (\<forall>key. key \<in> set (mt_pending_order t) \<longleftrightarrow> fst (take_pending key t) \<noteq> None) \<and>
   (\<forall>key item. last (mt_pending_order (set_pending key item t)) = key) \<and>
   length (mt_guardian_recent_reviews t) \<le> 50 \<and> length (iq_queued_next_turn_inputs (mt_input_queue t)) \<le> 16"
proof -
  have "machine_inv (state_run ops machine_transition_state_default)"
    by (rule state_run_inv [OF machine_inv_new])
  then show ?thesis
    by (auto simp: machine_inv_def guardian_denial_window_def max_queued_next_turn_inputs_def Let_def take_pending_def
        set_pending_def push_latest_key_def split: option.split)
qed

section \<open>The guardian's circuit breaker\<close>

text \<open>The reviews of the current turn: those since the last reset.\<close>

definition reviews_step :: "('sk, 'job) machine_op \<Rightarrow> bool list \<Rightarrow> bool list" where
  "reviews_step op reviews =
     (case op of MReview denied \<Rightarrow> reviews @ [denied] | MResetTurn _ \<Rightarrow> [] | _ \<Rightarrow> reviews)"

definition turn_reviews :: "('sk, 'job) machine_op list \<Rightarrow> bool list" where
  "turn_reviews ops = fold reviews_step ops []"

definition trailing_denials :: "bool list \<Rightarrow> nat" where
  "trailing_denials reviews = length (takeWhile (\<lambda>d. d) (rev reviews))"

definition last_reviews :: "bool list \<Rightarrow> bool list" where
  "last_reviews reviews = drop (length reviews - guardian_denial_window) reviews"

definition breaker_trips :: "bool list \<Rightarrow> bool" where
  "breaker_trips reviews \<longleftrightarrow>
     3 \<le> trailing_denials reviews \<or> 10 \<le> length (filter (\<lambda>d. d) (last_reviews reviews))"

definition guardian_follows :: "bool list \<Rightarrow> ('b, 'sk, 'job) machine_transition_state \<Rightarrow> bool" where
  "guardian_follows reviews t \<longleftrightarrow>
     mt_guardian_recent_reviews t = last_reviews reviews \<and>
     unat (mt_guardian_consecutive_denials t) = min (2 ^ 32 - 1) (trailing_denials reviews)"

lemma last_reviews_snoc:
  "drop (length (last_reviews rs @ [d]) - guardian_denial_window) (last_reviews rs @ [d]) = last_reviews (rs @ [d])"
proof (cases "length rs < guardian_denial_window")
  case False
  then have "Suc (length rs) - guardian_denial_window = Suc (length rs - guardian_denial_window)"
    "length (last_reviews rs) = guardian_denial_window" "length rs - guardian_denial_window < length rs"
    by (auto simp: last_reviews_def guardian_denial_window_def)
  then show ?thesis by (simp add: last_reviews_def drop_Suc)
qed (simp add: last_reviews_def)

lemma trailing_denials_snoc: "trailing_denials (rs @ [d]) = (if d then Suc (trailing_denials rs) else 0)"
  by (simp add: trailing_denials_def)

lemma guardian_review:
  assumes "guardian_follows reviews t"
  shows "fst (record_guardian_review d t) \<longleftrightarrow> breaker_trips (reviews @ [d])"
    "guardian_follows (reviews @ [d]) (snd (record_guardian_review d t))"
proof -
  have recent: "mt_guardian_recent_reviews t = last_reviews reviews" using assms by (simp add: guardian_follows_def)
  let ?c = "if d then saturating_succ (mt_guardian_consecutive_denials t) else 0"
  have c: "unat ?c = min (2 ^ 32 - 1) (trailing_denials (reviews @ [d]))"
    using assms by (auto simp: guardian_follows_def trailing_denials_snoc unat_saturating_succ min_def)
  have "3 \<le> ?c \<longleftrightarrow> 3 \<le> trailing_denials (reviews @ [d])"
    using c by (simp add: word_le_nat_alt)
  moreover have snoc: "drop (Suc (length (last_reviews reviews)) - guardian_denial_window) (last_reviews reviews @ [d]) =
      last_reviews (reviews @ [d])"
    using last_reviews_snoc [of reviews d] by simp
  ultimately show "fst (record_guardian_review d t) \<longleftrightarrow> breaker_trips (reviews @ [d])"
    by (simp add: record_guardian_review_def Let_def recent breaker_trips_def guardian_max_consecutive_denials_def
        guardian_max_denials_in_window_def)
  show "guardian_follows (reviews @ [d]) (snd (record_guardian_review d t))"
    using c snoc by (simp add: record_guardian_review_def Let_def recent guardian_follows_def)
qed

lemma guardian_step:
  assumes "guardian_follows reviews t"
  shows "guardian_follows (reviews_step op reviews) (state_apply op t)"
proof (cases op)
  case (MReview d)
  then show ?thesis using guardian_review(2) [OF assms] by (simp add: reviews_step_def)
next
  case (MResetTurn order)
  then show ?thesis
    by (simp add: reviews_step_def state_op_defs Let_def guardian_follows_def last_reviews_def trailing_denials_def)
qed (use assms in \<open>simp_all add: guardian_follows_def reviews_step_def state_op_defs Let_def split: option.split list.split\<close>)

lemma guardian_run: "guardian_follows (turn_reviews ops) (state_run ops machine_transition_state_default)"
proof (induction ops rule: rev_induct)
  case (snoc op ops)
  then show ?case using guardian_step [OF snoc] by (simp add: turn_reviews_def)
qed (simp add: turn_reviews_def guardian_follows_def machine_transition_state_default_def last_reviews_def trailing_denials_def)

text \<open>
  (C33) The guardian's circuit breaker is exact: after any operations, recording one more review
  trips it exactly when the last three reviews of the current turn were all denials or at least ten
  of its last fifty were, however the review is interleaved with other work and however long the
  turn is (the counter saturates, the window is bounded).
\<close>

theorem guardian_breaker_exact:
  "fst (record_guardian_review denied (state_run ops machine_transition_state_default)) \<longleftrightarrow>
   (let reviews = turn_reviews ops @ [denied] in
    3 \<le> length (takeWhile (\<lambda>d. d) (rev reviews)) \<or> 10 \<le> length (filter (\<lambda>d. d) (drop (length reviews - 50) reviews)))"
  using guardian_review(1) [OF guardian_run [of ops], of denied]
  by (simp add: breaker_trips_def trailing_denials_def last_reviews_def guardian_denial_window_def)

section \<open>Automatic compactions of a turn\<close>

text \<open>How many automatic compactions were made since the turn began that were not emergencies.\<close>

definition budget_step ::
  "('sk, 'job) machine_op \<Rightarrow> nat \<times> ('b, 'sk, 'job) machine_transition_state \<Rightarrow>
     nat \<times> ('b, 'sk, 'job) machine_transition_state" where
  "budget_step op = (\<lambda>(k, t).
     (case op of
        MResetTurn _ \<Rightarrow> 0
      | MNewTurn \<Rightarrow> 0
      | MAutoCompact prompt_tokens window outcome \<Rightarrow>
          if can_auto_mid_turn_compact t prompt_tokens window \<and> outcome \<noteq> None \<and>
            \<not> is_auto_mid_turn_compaction_emergency prompt_tokens window
          then Suc k else k
      | _ \<Rightarrow> k,
      state_apply op t))"

definition regular_compactions :: "('sk, 'job) machine_op list \<Rightarrow> ('b, 'sk, 'job) machine_transition_state \<Rightarrow> nat" where
  "regular_compactions ops t = fst (fold budget_step ops (0, t))"

definition within_budget :: "nat \<times> ('b, 'sk, 'job) machine_transition_state \<Rightarrow> bool" where
  "within_budget = (\<lambda>(k, t). k \<le> unat (mt_compactions_this_turn t) \<and> k \<le> 2)"

lemma budget_auto_compact:
  assumes "k \<le> unat (mt_compactions_this_turn t)" "k \<le> 2"
  shows "within_budget (budget_step (MAutoCompact p w out) (k, t))"
proof (cases "can_auto_mid_turn_compact t p w")
  case True
  have lt: "\<not> is_auto_mid_turn_compaction_emergency p w \<Longrightarrow> unat (mt_compactions_this_turn t) < 2"
    using True by (auto simp: can_auto_mid_turn_compact_def auto_mid_turn_compaction_limit_def word_le_nat_alt split: if_splits)
  have "unat (mt_compactions_this_turn t) < 2 ^ 32"
    using unsigned_less [of "mt_compactions_this_turn t", where 'a = nat] by simp
  then show ?thesis using assms True lt
    by (cases out)
      (auto simp: within_budget_def budget_step_def auto_compact_def record_auto_mid_turn_compaction_def unat_saturating_succ)
qed (use assms in \<open>simp add: within_budget_def budget_step_def auto_compact_def\<close>)

lemma budget_step_within: "within_budget (k, t) \<Longrightarrow> within_budget (budget_step op (k, t))"
proof (cases op)
  case (MAutoCompact p w out)
  then show "within_budget (k, t) \<Longrightarrow> ?thesis" using budget_auto_compact [of k t p w out] by (simp add: within_budget_def)
qed (simp_all add: within_budget_def budget_step_def state_op_defs Let_def split: option.split list.split)


section \<open>Plan snapshots across compaction\<close>

text \<open>For the messages that compaction retains, whether the plan is newer than them is unchanged.\<close>

lemma compaction_keeps_plan_age:
  "retention_start \<le> i \<Longrightarrow>
   plan_snapshot_postdates_message (note_tape_compaction retention_start t) (i - retention_start) \<longleftrightarrow>
   plan_snapshot_postdates_message t i"
  by (auto simp: plan_snapshot_postdates_message_def note_tape_compaction_def rebase_index_def split: option.splits)

section \<open>Rollback removes whole turns\<close>

definition turn_count :: "message list \<Rightarrow> nat" where
  "turn_count ms = length (filter is_turn_message ms)"

lemma turn_count_simps [simp]:
  "turn_count [] = 0" "turn_count (ms @ ms') = turn_count ms + turn_count ms'"
  "turn_count [x] = (if is_turn_message x then 1 else 0)"
  by (simp_all add: turn_count_def)

lemma rollback_scan_props:
  "i \<le> length ms \<Longrightarrow> seen < requested \<Longrightarrow> rollback_scan ms requested seen i = (n, start) \<Longrightarrow>
   start \<le> i \<and> n = seen + turn_count (take (i - start) (drop start ms)) \<and> n \<le> requested \<and>
   (n = requested \<longrightarrow> start < length ms \<and> is_turn_message (ms ! start)) \<and> (n < requested \<longrightarrow> start = 0)"
proof (induction i arbitrary: seen)
  case (Suc i)
  define seen' where "seen' = (if is_turn_message (ms ! i) then seen + 1 else seen)"
  have snoc: "take (Suc i - k) (drop k ms) = take (i - k) (drop k ms) @ [ms ! i]" if "k \<le> i" for k
    using that Suc.prems(1) by (simp add: Suc_diff_le take_Suc_conv_app_nth)
  show ?case
  proof (cases "is_turn_message (ms ! i) \<and> seen' \<ge> requested")
    case True
    then have "n = requested" "start = i" "n = Suc seen"
      using Suc.prems by (auto simp: Let_def seen'_def)
    then show ?thesis using True Suc.prems(1) snoc [of i] by simp
  next
    case False
    then have r: "seen' < requested" "rollback_scan ms requested seen' i = (n, start)"
      using Suc.prems by (auto simp: Let_def seen'_def split: if_splits)
    have i: "i \<le> length ms" using Suc.prems(1) by simp
    define c where "c = turn_count (take (i - start) (drop start ms))"
    have ih: "start \<le> i \<and> n = seen' + c \<and> n \<le> requested \<and>
        (n = requested \<longrightarrow> start < length ms \<and> is_turn_message (ms ! start)) \<and> (n < requested \<longrightarrow> start = 0)"
      using Suc.IH [OF i r] unfolding c_def .
    have "turn_count (take (Suc i - start) (drop start ms)) = c + (if is_turn_message (ms ! i) then 1 else 0)"
      unfolding snoc [OF conjunct1 [OF ih]] c_def by (rule turn_count_simps(2) [of _ "[ms ! i]", unfolded turn_count_simps(3)])
    then have "n = seen + turn_count (take (Suc i - start) (drop start ms))"
      using ih by (simp add: seen'_def)
    with ih show ?thesis by (meson le_SucI)
  qed
qed simp

lemma rollback_scan_tape:
  assumes "0 < requested" "rollback_scan ms requested 0 (length ms) = (n, start)"
  shows "n = turn_count (drop start ms)" "n = min requested (turn_count ms)" "start \<le> length ms"
    "n = requested \<Longrightarrow> start < length ms \<and> is_turn_message (ms ! start)" "n \<noteq> requested \<Longrightarrow> start = 0"
proof -
  have p: "start \<le> length ms" "n = turn_count (take (length ms - start) (drop start ms))" "n \<le> requested"
    "n = requested \<longrightarrow> start < length ms \<and> is_turn_message (ms ! start)" "n < requested \<longrightarrow> start = 0"
    using rollback_scan_props [OF order_refl assms] unfolding add_0 by (blast, blast, blast, blast, blast)
  from p(2) show n: "n = turn_count (drop start ms)" by (metis length_drop order_refl take_all)
  show "start \<le> length ms" by (rule p(1))
  show "n = requested \<Longrightarrow> start < length ms \<and> is_turn_message (ms ! start)" using p(4) by blast
  show zero: "n \<noteq> requested \<Longrightarrow> start = 0" using p(3,5) by linarith
  have total: "turn_count ms = turn_count (take start ms) + n"
    by (metis append_take_drop_id n turn_count_simps(2))
  show "n = min requested (turn_count ms)"
  proof (cases "n = requested")
    case True
    then show ?thesis using total by (metis le_add2 min.absorb1)
  next
    case False
    then have "turn_count (take start ms) = 0" using zero by (metis take_0 turn_count_simps(1))
    then show ?thesis using total p(3) by linarith
  qed
qed

lemma rollback_result:
  assumes "requested \<noteq> 0" "tp_messages (am_tape m) \<noteq> []"
    "rollback_scan (tp_messages (am_tape m)) (unat requested) 0 (length (tp_messages (am_tape m))) = (n, start)" "n \<noteq> 0"
  shows "fst (rollback_last_turns env requested m) =
      \<lparr>ro_removed_turns = n, ro_removed_messages = length (tp_messages (am_tape m)) - start\<rparr>"
    "tp_messages (am_tape (snd (rollback_last_turns env requested m))) = take start (tp_messages (am_tape m))"
  using assms by (simp_all add: rollback_last_turns_def Let_def record_event_def record_item_def
      clear_responses_continuation_def tape_clear_summary_def tape_replace_def split: option.split)

lemma rollback_nothing:
  assumes "requested = 0 \<or> tp_messages (am_tape m) = [] \<or>
    fst (rollback_scan (tp_messages (am_tape m)) (unat requested) 0 (length (tp_messages (am_tape m)))) = 0"
  shows "rollback_last_turns env requested m = (\<lparr>ro_removed_turns = 0, ro_removed_messages = 0\<rparr>, m)"
  using assms by (auto simp: rollback_last_turns_def Let_def case_prod_beta)

text \<open>
  (C34) Rollback removes whole turns: asked for some turns of a tape, it removes the least end of the
  tape that holds that many turn messages (everything when there are fewer, nothing when there are
  none), reports exactly the numbers of turns and messages removed, and keeps the rest unchanged.
\<close>

theorem rollback_removes_turns:
  assumes "rollback_last_turns env requested m = (outcome, m')"
  shows "\<exists>removed. tp_messages (am_tape m) = tp_messages (am_tape m') @ removed \<and>
     ro_removed_messages outcome = length removed \<and> ro_removed_turns outcome = turn_count removed \<and>
     turn_count removed = min (unat requested) (turn_count (tp_messages (am_tape m))) \<and>
     (removed \<noteq> [] \<longrightarrow> (if turn_count removed = unat requested then is_turn_message (hd removed) else tp_messages (am_tape m') = []))"
proof -
  let ?ms = "tp_messages (am_tape m)"
  obtain n start where scan: "rollback_scan ?ms (unat requested) 0 (length ?ms) = (n, start)" by fastforce
  show ?thesis
  proof (cases "requested = 0 \<or> ?ms = [] \<or> n = 0")
    case True
    then have m': "m' = m" "outcome = \<lparr>ro_removed_turns = 0, ro_removed_messages = 0\<rparr>"
      using assms rollback_nothing [of requested m env] scan by auto
    have "min (unat requested) (turn_count ?ms) = 0"
    proof (cases "requested = 0 \<or> ?ms = []")
      case False
      then have "0 < unat requested" by (simp add: unat_gt_0)
      from rollback_scan_tape(2) [OF this scan] True False show ?thesis by metis
    qed auto
    then show ?thesis using m' by (intro exI [of _ "[]"]) simp
  next
    case False
    then have req: "0 < unat requested" by (simp add: unat_gt_0)
    note p = rollback_scan_tape [OF req scan]
    have m': "tp_messages (am_tape m') = take start ?ms"
      "outcome = \<lparr>ro_removed_turns = n, ro_removed_messages = length ?ms - start\<rparr>"
      using assms rollback_result [OF _ _ scan, of env] False by simp_all
    have hd: "n = unat requested \<Longrightarrow> is_turn_message (hd (drop start ?ms))"
      using p(4) by (metis hd_drop_conv_nth)
    have "take start ?ms = []" if "n \<noteq> unat requested" using p(5) [OF that] by simp
    then show ?thesis using m' p(1,2) hd by (intro exI [of _ "drop start ?ms"]) (metis append_take_drop_id length_drop
        rollback_outcome.select_convs)
  qed
qed

definition demo_rollback_machine :: "(unit, unit, unit) agent_machine" where
  "demo_rollback_machine =
     agent_machine_new\<lparr>am_tape := tape_replace demo_tape_env (demo_tape_messages @ demo_tape_messages) tape_new\<rparr>"

theorem rollback_removes_turns_witness:
  "let (outcome, m') = rollback_last_turns demo_tape_env 1 demo_rollback_machine in
   outcome = \<lparr>ro_removed_turns = 1, ro_removed_messages = 5\<rparr> \<and> tp_messages (am_tape m') = demo_tape_messages \<and>
   turn_count demo_tape_messages = 1"
proof -
  let ?r = "rollback_last_turns demo_tape_env 1 demo_rollback_machine"
  have out: "fst ?r = \<lparr>ro_removed_turns = 1, ro_removed_messages = 5\<rparr>" "turn_count demo_tape_messages = 1"
    by code_simp+
  have ms: "tp_messages (am_tape demo_rollback_machine) = demo_tape_messages @ demo_tape_messages"
    by (simp add: demo_rollback_machine_def tape_replace_def)
  have "?r = (fst ?r, snd ?r)" by simp
  from rollback_removes_turns [OF this]
  obtain removed where "demo_tape_messages @ demo_tape_messages = tp_messages (am_tape (snd ?r)) @ removed" "length removed = 5"
    unfolding ms out(1) by auto
  moreover have "length demo_tape_messages = 5" by (simp add: demo_tape_messages_def)
  ultimately have "tp_messages (am_tape (snd ?r)) = demo_tape_messages" by (simp add: append_eq_append_conv)
  with out show ?thesis by (simp add: case_prod_beta)
qed

end
