(* ===== verification/Agent_Evidence.thy ===== *)
theory Agent_Evidence
  imports Json_Value Rust_Text
begin

text \<open>
  Redaction of what an agent records (\<open>crates/agent-engine/src/evidence.rs\<close> and
  \<open>rollout/durable_payload.rs\<close>): secrets are replaced by markers, large values by bounded previews.
  The JSON printer and parser, the deserialiser of a projection and SHA-256 are the fields of
  \<open>evidence_env\<close>. Sizes are natural numbers.
\<close>

record evidence_reference =
  er_path :: string
  er_offset :: "u64 option"
  er_length :: "u64 option"

record evidence_truncation =
  et_original_bytes :: nat
  et_preview_bytes :: nat
  et_full_content_recoverable :: bool
  et_fallback_reason :: "string option"

record redaction_marker =
  rm_marker :: string
  rm_reason_class :: string

record evidence_projection =
  ep_record_type :: string
  ep_preview :: string
  ep_reference :: "evidence_reference option"
  ep_truncation :: evidence_truncation
  ep_redactions :: "redaction_marker list"
  ep_metadata :: "(string \<times> json) list"

record evidence_env =
  ev_print :: "json \<Rightarrow> string"
  ev_parse :: "string \<Rightarrow> json option"
  ev_projection :: "json \<Rightarrow> evidence_projection option"
  ev_projection_json :: "evidence_projection \<Rightarrow> json"
  ev_sha_hex :: "bytes \<Rightarrow> string"

section \<open>Sensitive names\<close>

definition ascii_lower :: "char \<Rightarrow> char" where
  "ascii_lower c = (let n = of_char c :: nat in if 0x41 \<le> n \<and> n \<le> 0x5A then char_of (n + 0x20) else c)"

definition to_ascii_lowercase :: "string \<Rightarrow> string" where
  "to_ascii_lowercase s = map ascii_lower s"

definition ascii_alphanumeric :: "char \<Rightarrow> bool" where
  "ascii_alphanumeric c \<longleftrightarrow>
     (let n = of_char c :: nat in 0x30 \<le> n \<and> n \<le> 0x39 \<or> 0x41 \<le> n \<and> n \<le> 0x5A \<or> 0x61 \<le> n \<and> n \<le> 0x7A)"

definition sensitive_key :: "string \<Rightarrow> bool" where
  "sensitive_key key \<longleftrightarrow>
     (let normalized = to_ascii_lowercase (filter ascii_alphanumeric key) in
      normalized \<in> set [''authorization'', ''proxyauthorization'', ''cookie'', ''setcookie'', ''apikey'', ''xapikey'',
        ''accesstoken'', ''refreshtoken'', ''idtoken'', ''bearertoken'', ''clientsecret'', ''password'', ''passwd'',
        ''passphrase'', ''token'', ''secret''] \<or>
      str_contains normalized ''apikey'' \<or>
      list_ex (ends_with normalized) [''token'', ''secret'', ''password'', ''passwd'', ''passphrase''])"

section \<open>Markers\<close>

definition evidence_marker :: "string \<Rightarrow> string" where
  "evidence_marker reason = ''[REDACTED reason='' @ reason @ '']''"

definition push_marker :: "string \<Rightarrow> string \<Rightarrow> redaction_marker list \<Rightarrow> redaction_marker list" where
  "push_marker marker reason markers =
     (if list_ex (\<lambda>m. rm_reason_class m = reason) markers then markers
      else markers @ [\<lparr>rm_marker = marker, rm_reason_class = reason\<rparr>])"

section \<open>Text\<close>

text \<open>The first index from \<open>i\<close> on whose byte is one of the stops, or the length.\<close>

function scan_to :: "string \<Rightarrow> string \<Rightarrow> nat \<Rightarrow> nat" where
  "scan_to stops s i = (if i < length s \<and> s ! i \<notin> set stops then scan_to stops s (Suc i) else i)"
  by pat_completeness auto
termination
  by (relation "measure (\<lambda>(_, s, i). length s - i)") auto

declare scan_to.simps [simp del]

lemma scan_to_ge: "i \<le> scan_to stops s i"
  by (induction stops s i rule: scan_to.induct) (subst scan_to.simps, auto)

definition query_key_stops :: string where
  "query_key_stops = ''=&# '' @ [CHR 0x09, CHR 0x0D, CHR 0x0A]"

definition query_value_stops :: string where
  "query_value_stops = ''&# '' @ [CHR 0x09, CHR 0x0D, CHR 0x0A, CHR 0x27, CHR 0x22] @ ''<>''"

function url_query_loop :: "string \<Rightarrow> nat \<Rightarrow> nat \<Rightarrow> string \<Rightarrow> bool \<Rightarrow> nat \<times> string \<times> bool" where
  "url_query_loop s cursor copied_through redacted found =
     (if cursor < length s
      then
        if s ! cursor \<noteq> CHR ''?'' \<and> s ! cursor \<noteq> CHR ''&'' then url_query_loop s (Suc cursor) copied_through redacted found
        else
          (let key_start = Suc cursor; separator = scan_to query_key_stops s key_start in
           if separator \<ge> length s \<or> s ! separator \<noteq> CHR ''='' \<or> \<not> sensitive_key (subrange s key_start separator)
           then url_query_loop s (max separator (Suc cursor)) copied_through redacted found
           else
             (let value_start = Suc separator; value_end = scan_to query_value_stops s value_start in
              url_query_loop s value_end value_end
                (redacted @ subrange s copied_through value_start @ ''[REDACTED reason=secret_key]'') True))
      else (copied_through, redacted, found))"
  by pat_completeness auto
termination
  by (relation "measure (\<lambda>(s, cursor, _). length s - cursor)")
    (auto simp: Let_def intro!: diff_less_mono2 dest: not_le_imp_less
      intro: less_le_trans [OF lessI] order_trans [OF scan_to_ge] less_le_trans [OF le_imp_less_Suc [OF order_trans [OF Suc_leD [OF scan_to_ge]]] scan_to_ge])

declare url_query_loop.simps [simp del]

definition redact_url_query_secrets :: "string \<Rightarrow> redaction_marker list \<Rightarrow> string \<times> redaction_marker list" where
  "redact_url_query_secrets s markers =
     (case url_query_loop s 0 0 [] False of
        (copied_through, redacted, found) \<Rightarrow>
          if \<not> found then (s, markers)
          else (redacted @ drop copied_through s, push_marker (evidence_marker ''secret_key'') ''secret_key'' markers))"

text \<open>The bytes before the first white-space character.\<close>

fun before_white :: "string \<Rightarrow> nat" where
  "before_white [] = 0"
| "before_white (c # cs) = (if white_at (c # cs) \<noteq> None then 0 else Suc (before_white cs))"

lemma split_once_length: "split_once pat s = Some (a, b) \<Longrightarrow> length s = length a + length pat + length b"
  by (induction pat s arbitrary: a b rule: split_once.induct)
    (auto simp: strip_prefix_Some split: option.splits, metis length_append length_Cons)

function bearer_loop :: "string \<Rightarrow> string \<times> bool" where
  "bearer_loop remaining =
     (case split_once ''bearer '' (to_ascii_lowercase remaining) of
        None \<Rightarrow> (remaining, False)
      | Some (before, _) \<Rightarrow>
          (let token_start = length before + 7;
               token_end = token_start + before_white (drop token_start remaining)
           in (take token_start remaining @ evidence_marker ''credential_token'' @ fst (bearer_loop (drop token_end remaining)),
               True)))"
  by pat_completeness auto
termination
  by (relation "measure length") (auto simp: to_ascii_lowercase_def dest!: split_once_length)

declare bearer_loop.simps [simp del]

definition redact_bearer :: "string \<Rightarrow> redaction_marker list \<Rightarrow> string \<times> redaction_marker list" where
  "redact_bearer s markers =
     (case bearer_loop s of
        (redacted, found) \<Rightarrow>
          if found then (redacted, push_marker (evidence_marker ''credential_token'') ''credential_token'' markers)
          else (s, markers))"

definition redact_sensitive_line :: "string \<Rightarrow> redaction_marker list \<Rightarrow> string \<times> redaction_marker list" where
  "redact_sensitive_line line markers =
     (let separator = scan_to '':='' line 0; key = take separator line in
      if separator < length line \<and> sensitive_key (trim key)
      then (key @ [line ! separator] @ '' '' @ evidence_marker ''secret_key'',
            push_marker (evidence_marker ''secret_key'') ''secret_key'' markers)
      else
        (let (redacted, markers1) = redact_url_query_secrets line markers in
         if str_contains (to_ascii_lowercase line) ''bearer '' then redact_bearer redacted markers1
         else (redacted, markers1)))"

fun redact_lines :: "string list \<Rightarrow> redaction_marker list \<Rightarrow> string list \<times> redaction_marker list" where
  "redact_lines [] markers = ([], markers)"
| "redact_lines (line # lines) markers =
     (let (l, markers1) = redact_sensitive_line line markers; (ls, markers2) = redact_lines lines markers1 in
      (l # ls, markers2))"

definition redact_line_oriented_text :: "string \<Rightarrow> redaction_marker list \<Rightarrow> string \<times> redaction_marker list" where
  "redact_line_oriented_text s markers =
     (let (ls, markers1) = redact_lines (str_lines s) markers; joined = join_with [newline] ls in
      (if ends_with s [newline] then joined @ [newline] else joined, markers1))"

section \<open>JSON\<close>

fun redact_json_value :: "json \<Rightarrow> redaction_marker list \<Rightarrow> json \<times> redaction_marker list"
and redact_json_fields :: "(string \<times> json) list \<Rightarrow> redaction_marker list \<Rightarrow> (string \<times> json) list \<times> redaction_marker list"
and redact_json_values :: "json list \<Rightarrow> redaction_marker list \<Rightarrow> json list \<times> redaction_marker list" where
  "redact_json_value (JObject m) markers = apfst JObject (redact_json_fields m markers)"
| "redact_json_value (JArray vs) markers = apfst JArray (redact_json_values vs markers)"
| "redact_json_value (JString s) markers = apfst JString (redact_line_oriented_text s markers)"
| "redact_json_value JNull markers = (JNull, markers)"
| "redact_json_value (JBool b) markers = (JBool b, markers)"
| "redact_json_value (JNumber n) markers = (JNumber n, markers)"
| "redact_json_fields [] markers = ([], markers)"
| "redact_json_fields ((key, v) # m) markers =
     (if sensitive_key key
      then apfst (Cons (key, JString (evidence_marker ''secret_key'')))
        (redact_json_fields m (push_marker (evidence_marker ''secret_key'') ''secret_key'' markers))
      else
        (let (v1, markers1) = redact_json_value v markers in apfst (Cons (key, v1)) (redact_json_fields m markers1)))"
| "redact_json_values [] markers = ([], markers)"
| "redact_json_values (v # vs) markers =
     (let (v1, markers1) = redact_json_value v markers in apfst (Cons v1) (redact_json_values vs markers1))"

definition redact_evidence_payload :: "json \<Rightarrow> json" where
  "redact_evidence_payload payload = fst (redact_json_value payload [])"

definition redact_durable_evidence_text :: "evidence_env \<Rightarrow> string \<Rightarrow> string \<times> redaction_marker list" where
  "redact_durable_evidence_text env s =
     (case ev_parse env s of
        Some v \<Rightarrow>
          (let (v1, markers) = redact_json_value v [] in
           if markers = [] then (s, markers) else (ev_print env v1, markers))
      | None \<Rightarrow> redact_line_oriented_text s [])"

definition redaction_markers_in_text :: "string \<Rightarrow> redaction_marker list" where
  "redaction_markers_in_text s =
     List.map_filter (\<lambda>reason.
       if str_contains s (evidence_marker reason)
       then Some \<lparr>rm_marker = evidence_marker reason, rm_reason_class = reason\<rparr> else None)
     [''secret_key'', ''credential_token'']"

definition is_retention_expired_record :: "evidence_env \<Rightarrow> bytes \<Rightarrow> bool" where
  "is_retention_expired_record env bs \<longleftrightarrow>
     Option.bind (Option.bind (ev_parse env bs) (json_get ''type'')) json_str = Some ''evidence_retention_expired''"

section \<open>Projections\<close>

definition max_inline_evidence_bytes :: nat where
  "max_inline_evidence_bytes = 30000"

definition max_evidence_preview_bytes :: nat where
  "max_evidence_preview_bytes = 8000"

definition max_evidence_metadata_value_bytes :: nat where
  "max_evidence_metadata_value_bytes = 512"

definition payload_needs_projection :: "evidence_env \<Rightarrow> json \<Rightarrow> bool" where
  "payload_needs_projection env payload \<longleftrightarrow> length (ev_print env payload) > max_inline_evidence_bytes"

definition truncation_marker :: string where
  "truncation_marker = ''...[truncated; inspect reference]''"

fun floor_char_boundary :: "string \<Rightarrow> nat \<Rightarrow> nat" where
  "floor_char_boundary s 0 = 0"
| "floor_char_boundary s (Suc n) = (if is_char_boundary s (Suc n) then Suc n else floor_char_boundary s n)"

definition utf8_prefix_with_marker :: "string \<Rightarrow> nat \<Rightarrow> string" where
  "utf8_prefix_with_marker s max_bytes =
     (if length s \<le> max_bytes then s
      else
        (let prefix_budget = max_bytes - length truncation_marker in
         take (floor_char_boundary s (min prefix_budget (length s))) s @ truncation_marker))"

definition bounded_metadata_value :: "evidence_env \<Rightarrow> json \<Rightarrow> json" where
  "bounded_metadata_value env v =
     (case v of
        JString s \<Rightarrow> JString (utf8_prefix_with_marker s max_evidence_metadata_value_bytes)
      | JArray _ \<Rightarrow> JString (utf8_prefix_with_marker (ev_print env v) max_evidence_metadata_value_bytes)
      | JObject _ \<Rightarrow> JString (utf8_prefix_with_marker (ev_print env v) max_evidence_metadata_value_bytes)
      | _ \<Rightarrow> v)"

definition bounded_projection_preview :: "evidence_env \<Rightarrow> json \<Rightarrow> string option" where
  "bounded_projection_preview env payload =
     (case ev_projection env payload of
        None \<Rightarrow> None
      | Some p \<Rightarrow>
          if ep_record_type p \<noteq> ''evidence_projection'' \<or> length (ep_preview p) > max_evidence_preview_bytes \<or>
             et_preview_bytes (ep_truncation p) \<noteq> length (ep_preview p)
          then None
          else Option.bind (json_get ''preview'' payload) json_str)"

definition projection_metadata :: "evidence_env \<Rightarrow> json \<Rightarrow> (string \<times> json) list" where
  "projection_metadata env redacted =
     fold (\<lambda>key m. case json_get key redacted of None \<Rightarrow> m | Some v \<Rightarrow> bt_insert key (bounded_metadata_value env v) m)
       [''success'', ''exit_code'', ''process'', ''action_id'', ''status'', ''summary''] []"

definition evidence_projection_of ::
  "evidence_env \<Rightarrow> json \<Rightarrow> evidence_reference option \<Rightarrow> redaction_marker list \<Rightarrow> string option \<Rightarrow> evidence_projection" where
  "evidence_projection_of env payload reference redactions fallback_reason =
     (let (redacted, found) = redact_json_value payload [];
          merged = fold (\<lambda>m. push_marker (rm_marker m) (rm_reason_class m)) found redactions;
          serialized = ev_print env redacted;
          preview = utf8_prefix_with_marker serialized max_evidence_preview_bytes
      in \<lparr>ep_record_type = ''evidence_projection'', ep_preview = preview, ep_reference = reference,
          ep_truncation = \<lparr>et_original_bytes = length serialized, et_preview_bytes = length preview,
            et_full_content_recoverable = (reference \<noteq> None), et_fallback_reason = fallback_reason\<rparr>,
          ep_redactions = merged, ep_metadata = projection_metadata env redacted\<rparr>)"

definition project_evidence_payload ::
  "evidence_env \<Rightarrow> json \<Rightarrow> evidence_reference option \<Rightarrow> redaction_marker list \<Rightarrow> string option \<Rightarrow> json" where
  "project_evidence_payload env payload reference redactions fallback_reason =
     ev_projection_json env (evidence_projection_of env payload reference redactions fallback_reason)"

section \<open>Durable tool payloads\<close>

definition durable_max_string_chars :: nat where
  "durable_max_string_chars = 512"

definition durable_max_array_items :: nat where
  "durable_max_array_items = 32"

definition durable_max_object_fields :: nat where
  "durable_max_object_fields = 64"

definition durable_preview_max_chars :: nat where
  "durable_preview_max_chars = 160"

record redaction_summary =
  rd_redacted_fields :: nat
  rd_truncated_values :: nat

record durable_tool_payload =
  dp_payload :: json
  dp_digest :: string
  dp_preview :: "string option"
  dp_redaction :: "redaction_summary option"

definition normalize_sensitive_key :: "string \<Rightarrow> string" where
  "normalize_sensitive_key key = to_ascii_lowercase (filter ascii_alphanumeric key)"

definition is_sensitive_key :: "string \<Rightarrow> bool" where
  "is_sensitive_key key \<longleftrightarrow>
     (let normalized = normalize_sensitive_key key in
      normalized \<in> set [''authorization'', ''proxyauthorization'', ''cookie'', ''setcookie'', ''apikey'', ''xapikey'',
        ''accesstoken'', ''refreshtoken'', ''idtoken'', ''bearertoken'', ''clientsecret'', ''password'', ''passwd'',
        ''passphrase'', ''token'', ''secret''] \<or>
      str_contains normalized ''apikey'' \<or>
      list_ex (ends_with normalized) [''token'', ''secret'', ''password'', ''passwd'', ''passphrase''])"

text \<open>The recorder and the evidence store agree on what is sensitive.\<close>

lemma is_sensitive_key_eq: "is_sensitive_key = sensitive_key"
  by (simp add: fun_eq_iff is_sensitive_key_def sensitive_key_def normalize_sensitive_key_def)

text \<open>The first characters of a string: each takes the continuation bytes that follow it.\<close>

definition continues_char :: "char \<Rightarrow> bool" where
  "continues_char c \<longleftrightarrow> 0x80 \<le> (of_char c :: nat) \<and> (of_char c :: nat) \<le> 0xBF"

fun take_chars :: "nat \<Rightarrow> string \<Rightarrow> string" where
  "take_chars 0 s = []"
| "take_chars (Suc n) [] = []"
| "take_chars (Suc n) (c # cs) = c # takeWhile continues_char cs @ take_chars n (dropWhile continues_char cs)"

definition truncate_string_for_rollout :: "string \<Rightarrow> redaction_summary \<Rightarrow> string \<times> redaction_summary" where
  "truncate_string_for_rollout s summary =
     (let preview = take_chars durable_max_string_chars s in
      if length preview = length s then (s, summary)
      else (preview @ ''...[truncated]'', summary\<lparr>rd_truncated_values := rd_truncated_values summary + 1\<rparr>))"

definition sorted_fields :: "(string \<times> json) list \<Rightarrow> (string \<times> json) list" where
  "sorted_fields m = sort_key fst m"

lemma size_list_insort: "size_list f (insort_key g x xs) = Suc (f x + size_list f xs)"
  by (induction xs) auto

lemma size_list_sort: "size_list f (sort_key g xs) = size_list f xs"
  by (induction xs) (auto simp: size_list_insort)

lemma size_list_take: "size_list f (take n xs) \<le> size_list f xs"
  by (induction xs arbitrary: n) (auto simp: take_Cons split: nat.split intro: order_trans)

text \<open>
  An object keeps its first fields in key order and an array its first items, with a note of how many
  were omitted.
\<close>

function (sequential) sanitize_payload :: "json \<Rightarrow> redaction_summary \<Rightarrow> json \<times> redaction_summary"
and sanitize_fields :: "(string \<times> json) list \<Rightarrow> redaction_summary \<Rightarrow> (string \<times> json) list \<times> redaction_summary"
and sanitize_items :: "json list \<Rightarrow> redaction_summary \<Rightarrow> json list \<times> redaction_summary" where
  "sanitize_payload (JObject m) summary =
     (let omitted = length m - durable_max_object_fields;
          (sanitized, summary1) = sanitize_fields (take durable_max_object_fields (sorted_fields m)) summary
      in if omitted > 0
         then (JObject (bt_insert ''_truncated'' (JString (show_nat omitted @ '' additional field(s) omitted'')) sanitized),
               summary1\<lparr>rd_truncated_values := rd_truncated_values summary1 + omitted\<rparr>)
         else (JObject sanitized, summary1))"
| "sanitize_payload (JArray vs) summary =
     (let omitted = length vs - durable_max_array_items;
          (sanitized, summary1) = sanitize_items (take durable_max_array_items vs) summary
      in if omitted > 0
         then (JArray (sanitized @ [JObject [(''_truncated'', JString (show_nat omitted @ '' additional item(s) omitted''))]]),
               summary1\<lparr>rd_truncated_values := rd_truncated_values summary1 + omitted\<rparr>)
         else (JArray sanitized, summary1))"
| "sanitize_payload (JString s) summary = apfst JString (truncate_string_for_rollout s summary)"
| "sanitize_payload v summary = (v, summary)"
| "sanitize_fields [] summary = ([], summary)"
| "sanitize_fields ((key, v) # m) summary =
     (if is_sensitive_key key
      then apfst (Cons (key, JString (evidence_marker ''secret_key'')))
        (sanitize_fields m (summary\<lparr>rd_redacted_fields := rd_redacted_fields summary + 1\<rparr>))
      else
        (let (v1, summary1) = sanitize_payload v summary in apfst (Cons (key, v1)) (sanitize_fields m summary1)))"
| "sanitize_items [] summary = ([], summary)"
| "sanitize_items (v # vs) summary =
     (let (v1, summary1) = sanitize_payload v summary in apfst (Cons v1) (sanitize_items vs summary1))"
  by pat_completeness auto
termination
  by (relation "measure (\<lambda>x. case x of Inl (v, _) \<Rightarrow> size v
      | Inr (Inl (m, _)) \<Rightarrow> size_list (size_prod (\<lambda>_. 0) size) m | Inr (Inr (vs, _)) \<Rightarrow> size_list size vs)")
    (auto simp: less_Suc_eq_le intro: order_trans [OF size_list_take] simp: sorted_fields_def size_list_sort)

function (sequential) canonicalize_json :: "json \<Rightarrow> json"
and canonicalize_fields :: "(string \<times> json) list \<Rightarrow> (string \<times> json) list"
and canonicalize_items :: "json list \<Rightarrow> json list" where
  "canonicalize_json (JObject m) = JObject (canonicalize_fields (sorted_fields m))"
| "canonicalize_json (JArray vs) = JArray (canonicalize_items vs)"
| "canonicalize_json v = v"
| "canonicalize_fields [] = []"
| "canonicalize_fields ((key, v) # m) = (key, canonicalize_json v) # canonicalize_fields m"
| "canonicalize_items [] = []"
| "canonicalize_items (v # vs) = canonicalize_json v # canonicalize_items vs"
  by pat_completeness auto
termination
  by (relation "measure (\<lambda>x. case x of Inl v \<Rightarrow> size v
      | Inr (Inl m) \<Rightarrow> size_list (size_prod (\<lambda>_. 0) size) m | Inr (Inr vs) \<Rightarrow> size_list size vs)")
    (auto simp: less_Suc_eq_le sorted_fields_def size_list_sort)

definition payload_preview_text :: "evidence_env \<Rightarrow> json \<Rightarrow> string" where
  "payload_preview_text env v =
     (case v of
        JString s \<Rightarrow> trim s
      | JObject m \<Rightarrow>
          (case Option.bind (bt_get m ''error'') json_str of
             Some e \<Rightarrow> ''error: '' @ trim e
           | None \<Rightarrow> (case Option.bind (bt_get m ''status'') json_str of Some st \<Rightarrow> trim st | None \<Rightarrow> ev_print env v))
      | _ \<Rightarrow> ev_print env v)"

definition payload_preview :: "evidence_env \<Rightarrow> json \<Rightarrow> string option" where
  "payload_preview env v =
     (if v = JNull then None
      else
        (let preview = payload_preview_text env v in
         if preview = [] then None
         else if char_count preview > durable_preview_max_chars
           then Some (take_chars durable_preview_max_chars preview @ ''...'')
         else Some preview))"

definition insert_preview :: "string option \<Rightarrow> json \<times> redaction_summary \<Rightarrow> json \<times> redaction_summary" where
  "insert_preview preview = (\<lambda>(durable, summary).
     (case (preview, durable) of
        (Some p, JObject m) \<Rightarrow>
          (JObject (bt_insert ''preview'' (JString p) m),
           if char_count p > durable_max_string_chars
           then summary\<lparr>rd_truncated_values := rd_truncated_values summary - 1\<rparr> else summary)
      | _ \<Rightarrow> (durable, summary)))"

definition build_durable_tool_payload :: "evidence_env \<Rightarrow> json \<Rightarrow> durable_tool_payload" where
  "build_durable_tool_payload env payload =
     (let redacted = redact_evidence_payload payload;
          projection_preview = bounded_projection_preview env redacted;
          (durable, summary) = insert_preview projection_preview
            (sanitize_payload redacted \<lparr>rd_redacted_fields = 0, rd_truncated_values = 0\<rparr>)
      in \<lparr>dp_payload = durable, dp_digest = ev_sha_hex env (ev_print env (canonicalize_json durable)),
          dp_preview = payload_preview env durable,
          dp_redaction = (if rd_redacted_fields summary > 0 \<or> rd_truncated_values summary > 0 then Some summary else None)\<rparr>)"

text \<open>The preview of a projection always passes the check made of it when it is recorded.\<close>

lemma floor_char_boundary_le: "floor_char_boundary s n \<le> n"
  by (induction n) auto

lemma utf8_prefix_with_marker_length: "length truncation_marker \<le> max_bytes \<Longrightarrow> length (utf8_prefix_with_marker s max_bytes) \<le> max_bytes"
  using floor_char_boundary_le [of s "min (max_bytes - length truncation_marker) (length s)"]
  by (auto simp: utf8_prefix_with_marker_def Let_def)

lemma projection_preview_bounded:
  "length (ep_preview (evidence_projection_of env payload reference redactions fallback)) \<le> max_evidence_preview_bytes"
  using utf8_prefix_with_marker_length [of max_evidence_preview_bytes]
  by (auto simp: evidence_projection_of_def Let_def max_evidence_preview_bytes_def truncation_marker_def split: prod.splits)

section \<open>No bearer token survives\<close>

text \<open>Every occurrence of the prefix of a bearer token is followed by the marker.\<close>

definition bearers_marked :: "string \<Rightarrow> bool" where
  "bearers_marked s \<longleftrightarrow>
     (\<forall>a b. to_ascii_lowercase s = a @ ''bearer '' @ b \<longrightarrow>
        starts_with (drop (length a + 7) s) (evidence_marker ''credential_token''))"

lemma split_once_Some:
  "split_once pat s = Some (a, b) \<Longrightarrow> s = a @ pat @ b \<and> (\<forall>a' b'. s = a' @ pat @ b' \<longrightarrow> length a \<le> length a')"
proof (induction pat s arbitrary: a b rule: split_once.induct)
  case (2 pat x xs)
  show ?case
  proof (cases "strip_prefix pat (x # xs)")
    case None
    then obtain a1 where a1: "split_once pat xs = Some (a1, b)" "a = x # a1" using 2 by auto
    then have ih: "xs = a1 @ pat @ b" "\<And>a' b'. xs = a' @ pat @ b' \<Longrightarrow> length a1 \<le> length a'"
      using 2(1) [OF None, of a1 b] by blast+
    have "length a \<le> length a'" if "x # xs = a' @ pat @ b'" for a' b'
    proof (cases a')
      case Nil
      then show ?thesis using that None strip_prefix_append by (metis append_Nil option.distinct(1))
    next
      case (Cons y ys)
      then show ?thesis using ih(2) [of ys b'] that a1(2) by simp
    qed
    then show ?thesis using ih(1) a1(2) by simp
  next
    case (Some rest)
    then have "a = []" "b = rest" using 2(2) by simp_all
    then show ?thesis using Some by (simp add: strip_prefix_Some)
  qed
qed (auto simp: strip_prefix_Some split: option.splits)

lemma split_once_None: "split_once pat s = None \<Longrightarrow> s \<noteq> a @ pat @ b"
proof (induction pat s arbitrary: a rule: split_once.induct)
  case (1 pat)
  then show ?case by (cases pat) auto
next
  case (2 pat x xs)
  then show ?case by (cases a) (auto split: option.splits simp: strip_prefix_append dest: sym)
qed

lemma lower_simps [simp]:
  "to_ascii_lowercase (s @ t) = to_ascii_lowercase s @ to_ascii_lowercase t" "length (to_ascii_lowercase s) = length s"
  by (simp_all add: to_ascii_lowercase_def)

lemma bearer_marker_no_b:
  "0 < i \<Longrightarrow> i < 41 \<Longrightarrow> (''bearer '' @ to_ascii_lowercase (evidence_marker ''credential_token'')) ! i \<noteq> CHR ''b''"
proof -
  have "\<forall>i \<in> set [1..<41]. (''bearer '' @ to_ascii_lowercase (evidence_marker ''credential_token'')) ! i \<noteq> CHR ''b''"
    by code_simp
  then show "0 < i \<Longrightarrow> i < 41 \<Longrightarrow> ?thesis" by simp
qed

lemma length_credential_marker: "length (evidence_marker ''credential_token'') = 34"
  by code_simp

text \<open>After a first redaction an occurrence is the redacted one or lies in the rest of the text.\<close>

lemma bearer_occurrence:
  assumes low: "to_ascii_lowercase t = before @ ''bearer ''"
    and first: "\<And>a' b'. before @ ''bearer '' @ after = a' @ ''bearer '' @ b' \<Longrightarrow> length before \<le> length a'"
    and rest: "bearers_marked r"
    and occ: "to_ascii_lowercase (t @ evidence_marker ''credential_token'' @ r) = a @ ''bearer '' @ b"
  shows "starts_with (drop (length a + 7) (t @ evidence_marker ''credential_token'' @ r)) (evidence_marker ''credential_token'')"
proof -
  let ?m = "evidence_marker ''credential_token''"
  have lt: "length t = length before + 7" using arg_cong [OF low, of length] by simp
  have occ': "before @ (''bearer '' @ to_ascii_lowercase ?m) @ to_ascii_lowercase r = a @ ''bearer '' @ b"
    using occ low by simp
  consider "length a < length before" | "length a = length before"
    | "length before < length a" "length a < length before + 41" | "length before + 41 \<le> length a"
    by linarith
  then show ?thesis
  proof cases
    case 1
    have "take (length before + 7) (a @ ''bearer '' @ b) = before @ ''bearer ''" by (subst occ' [symmetric]) simp
    then have "before @ ''bearer '' @ after = a @ ''bearer '' @ (take (length before - length a) b @ after)"
      using 1 by (simp add: take_Cons' Suc_diff_le)
    then have "length before \<le> length a" by (rule first)
    then show ?thesis using 1 by linarith
  next
    case 2
    then show ?thesis by (simp add: lt starts_with_def)
  next
    case 3
    have "(a @ ''bearer '' @ b) ! length a = CHR ''b''" by simp
    moreover have "(before @ (''bearer '' @ to_ascii_lowercase ?m) @ to_ascii_lowercase r) ! length a
        = (''bearer '' @ to_ascii_lowercase ?m) ! (length a - length before)"
      using 3 by (subst nth_append, simp only: nth_append) (simp add: length_credential_marker)
    ultimately have "(''bearer '' @ to_ascii_lowercase ?m) ! (length a - length before) = CHR ''b''" using occ' by metis
    moreover have "0 < length a - length before" "length a - length before < 41" using 3 by linarith+
    ultimately show ?thesis using bearer_marker_no_b by blast
  next
    case 4
    have "to_ascii_lowercase r = drop (length before + 41) (a @ ''bearer '' @ b)"
      by (subst occ' [symmetric]) (simp add: length_credential_marker)
    also have "\<dots> = drop (length before + 41) a @ ''bearer '' @ b" using 4 by simp
    finally have "starts_with (drop (length a - (length before + 41) + 7) r) ?m"
      using rest unfolding bearers_marked_def by fastforce
    then show ?thesis using 4 by (simp add: lt length_credential_marker add.commute)
  qed
qed

lemma bearer_loop_marked: "bearers_marked (fst (bearer_loop s))"
proof (induction s rule: bearer_loop.induct)
  case (1 s)
  show ?case
  proof (cases "split_once ''bearer '' (to_ascii_lowercase s)")
    case None
    then show ?thesis using split_once_None [OF None]
      by (subst bearer_loop.simps) (simp add: bearers_marked_def)
  next
    case (Some p)
    obtain before after where p: "p = (before, after)" by (cases p)
    let ?ts = "length before + 7"
    let ?rest = "drop (?ts + before_white (drop ?ts s)) s"
    let ?m = "evidence_marker ''credential_token''"
    have so: "to_ascii_lowercase s = before @ ''bearer '' @ after"
      "\<And>a' b'. to_ascii_lowercase s = a' @ ''bearer '' @ b' \<Longrightarrow> length before \<le> length a'"
      using split_once_Some [of "''bearer ''" "to_ascii_lowercase s" before after] Some p by blast+
    have loop: "fst (bearer_loop s) = take ?ts s @ ?m @ fst (bearer_loop ?rest)"
      by (subst bearer_loop.simps) (simp add: Some p Let_def)
    have ih: "bearers_marked (fst (bearer_loop ?rest))" using 1 [OF Some p [symmetric] refl refl] by simp
    have low: "to_ascii_lowercase (take ?ts s) = before @ ''bearer ''"
      using arg_cong [OF so(1), of "take ?ts"] by (simp add: to_ascii_lowercase_def take_map)
    have lens: "length (take ?ts s) = ?ts" using arg_cong [OF so(1), of length] by simp
    have "starts_with (drop (length a + 7) (fst (bearer_loop s))) ?m"
      if "to_ascii_lowercase (fst (bearer_loop s)) = a @ ''bearer '' @ b" for a b
      using bearer_occurrence [OF low so(2) [unfolded so(1)] ih that [unfolded loop]] unfolding loop .
    then show ?thesis by (simp add: bearers_marked_def)
  qed
qed

lemma bearer_loop_unfound: "\<not> snd (bearer_loop s) \<Longrightarrow> fst (bearer_loop s) = s"
  by (subst (asm) bearer_loop.simps, subst bearer_loop.simps) (auto simp: Let_def split: option.splits)


lemma redact_sensitive_line_bearer:
  assumes "str_contains (to_ascii_lowercase line) ''bearer ''" "\<not> sensitive_key (trim (take (scan_to '':='' line 0) line))"
  shows "bearers_marked (fst (redact_sensitive_line line markers))"
proof -
  have "bearers_marked (fst (redact_bearer r ms))" for r ms
    using bearer_loop_marked [of r] bearer_loop_unfound [of r] by (auto simp: redact_bearer_def split: prod.splits)
  then show ?thesis using assms by (simp add: redact_sensitive_line_def Let_def split: prod.splits)
qed

text \<open>The token is what follows one space: after two spaces it is empty, and what follows stays.\<close>

lemma two_spaces_keep_token:
  "fst (redact_bearer ''Bearer  sk-123'' []) = ''Bearer [REDACTED reason=credential_token] sk-123''"
  by code_simp

text \<open>
  A line whose key is sensitive is returned with its key as it stands: a token before the separator
  survives.
\<close>

lemma sensitive_line_keeps_token_in_key:
  "fst (redact_sensitive_line ''use Bearer sk-123 as token: x'' []) =
   ''use Bearer sk-123 as token: [REDACTED reason=secret_key]''"
proof -
  have at: "scan_to '':='' ''use Bearer sk-123 as token: x'' 0 = 26" by code_simp
  have "trim ''use Bearer sk-123 as token'' = ''use Bearer sk-123 as token''"
    by (rule trim_solid) (simp_all add: solid_def)
  moreover have "sensitive_key ''use Bearer sk-123 as token''" by code_simp
  ultimately show ?thesis by (simp add: redact_sensitive_line_def at evidence_marker_def)
qed

section \<open>No sensitive field survives\<close>

fun secrets_hidden :: "json \<Rightarrow> bool" where
  "secrets_hidden (JObject m) \<longleftrightarrow>
     (\<forall>p \<in> set m. if sensitive_key (fst p) then snd p = JString (evidence_marker ''secret_key'') else secrets_hidden (snd p))"
| "secrets_hidden (JArray vs) \<longleftrightarrow> (\<forall>v \<in> set vs. secrets_hidden v)"
| "secrets_hidden _ \<longleftrightarrow> True"

text \<open>The sizes a durable payload is cut to: the notes of what was omitted add one field or item.\<close>

definition omission_note :: "string \<Rightarrow> bool" where
  "omission_note s \<longleftrightarrow>
     (\<exists>n. s = show_nat n @ '' additional field(s) omitted'' \<or> s = show_nat n @ '' additional item(s) omitted'')"

fun durable_bounded :: "json \<Rightarrow> bool" where
  "durable_bounded (JObject m) \<longleftrightarrow> length m \<le> 65 \<and> (\<forall>p \<in> set m. durable_bounded (snd p))"
| "durable_bounded (JArray vs) \<longleftrightarrow> length vs \<le> 33 \<and> (\<forall>v \<in> set vs. durable_bounded v)"
| "durable_bounded (JString s) \<longleftrightarrow> char_count s \<le> 526 \<or> omission_note s"
| "durable_bounded _ \<longleftrightarrow> True"

definition field_hidden :: "string \<times> json \<Rightarrow> bool" where
  "field_hidden p \<longleftrightarrow>
     (if sensitive_key (fst p) then snd p = JString (evidence_marker ''secret_key'') else secrets_hidden (snd p))"

lemma secrets_hidden_object: "secrets_hidden (JObject m) \<longleftrightarrow> (\<forall>p \<in> set m. field_hidden p)"
  by (simp add: field_hidden_def)

lemma length_bt_insert: "length (bt_insert k v m) \<le> Suc (length m)"
  by (induction k v m rule: bt_insert.induct) auto

lemma char_count_continues: "char_count (takeWhile continues_char s) = 0"
  by (induction s) (auto simp: char_count_def continues_char_def)

lemma char_count_take_chars: "char_count (take_chars n s) \<le> n"
proof (induction n s rule: take_chars.induct)
  case (3 n c cs)
  have "char_count (c # t) \<le> Suc (char_count t)" for t by (simp add: char_count_def)
  from this [of "takeWhile continues_char cs @ take_chars n (dropWhile continues_char cs)"] 3
  show ?case by (simp add: char_count_continues)
qed (simp_all add: char_count_def)

lemma take_chars_prefix: "\<exists>r. s = take_chars n s @ r"
proof (induction n s rule: take_chars.induct)
  case (3 n c cs)
  then obtain r where "dropWhile continues_char cs = take_chars n (dropWhile continues_char cs) @ r" by blast
  then have "cs = takeWhile continues_char cs @ take_chars n (dropWhile continues_char cs) @ r"
    by (metis takeWhile_dropWhile_id)
  then show ?case by auto
qed simp_all

lemma take_chars_all: "length (take_chars n s) = length s \<Longrightarrow> take_chars n s = s"
  using take_chars_prefix [of s n] by (metis append_self_conv length_append add_cancel_right_right length_0_conv)

lemma truncate_string_bounded: "char_count (fst (truncate_string_for_rollout s summary)) \<le> 526"
proof (cases "length (take_chars durable_max_string_chars s) = length s")
  case True
  then show ?thesis using char_count_take_chars [of durable_max_string_chars s]
    by (simp add: truncate_string_for_rollout_def take_chars_all durable_max_string_chars_def)
next
  case False
  have "char_count ''...[truncated]'' \<le> 14" by (rule order_trans [OF char_count_le]) simp
  then show ?thesis using False char_count_take_chars [of durable_max_string_chars s]
    by (simp add: truncate_string_for_rollout_def durable_max_string_chars_def)
qed

lemma truncated_not_sensitive: "\<not> sensitive_key ''_truncated''" "\<not> sensitive_key ''preview''"
  by code_simp+

lemma omission_notes [simp]:
  "omission_note (show_nat n @ '' additional field(s) omitted'')" "omission_note (show_nat n @ '' additional item(s) omitted'')"
  unfolding omission_note_def by blast+

lemma secret_marker_bounded [simp]: "char_count (evidence_marker ''secret_key'') \<le> 526"
  by code_simp

lemma sanitized:
  "secrets_hidden (fst (sanitize_payload v summary)) \<and> durable_bounded (fst (sanitize_payload v summary))"
  "length (fst (sanitize_fields m summary)) = length m \<and>
   (\<forall>p \<in> set (fst (sanitize_fields m summary)). field_hidden p \<and> durable_bounded (snd p))"
  "length (fst (sanitize_items vs summary)) = length vs \<and>
   (\<forall>v \<in> set (fst (sanitize_items vs summary)). secrets_hidden v \<and> durable_bounded v)"
proof (induction v summary and m summary and vs summary rule: sanitize_payload_sanitize_fields_sanitize_items.induct)
  case (1 m summary)
  obtain fs summary1 where fs: "sanitize_fields (take durable_max_object_fields (sorted_fields m)) summary = (fs, summary1)"
    by fastforce
  let ?note = "JString (show_nat (length m - durable_max_object_fields) @ '' additional field(s) omitted'')"
  have ih: "length fs \<le> 64" "\<forall>p \<in> set fs. field_hidden p \<and> durable_bounded (snd p)"
    using 1 fs by (auto simp: durable_max_object_fields_def)
  have "field_hidden (''_truncated'', ?note)" by (simp add: field_hidden_def truncated_not_sensitive)
  then have "\<forall>p \<in> set (bt_insert ''_truncated'' ?note fs). field_hidden p \<and> durable_bounded (snd p)"
    using set_bt_insert [of "''_truncated''" ?note fs] ih(2) by fastforce
  moreover have "length (bt_insert ''_truncated'' ?note fs) \<le> 65"
    using length_bt_insert [of "''_truncated''" ?note fs] ih(1) by linarith
  ultimately show ?case using fs ih by (simp add: Let_def secrets_hidden_object del: secrets_hidden.simps(1))
next
  case (2 vs summary)
  obtain us summary1 where us: "sanitize_items (take durable_max_array_items vs) summary = (us, summary1)"
    by fastforce
  have ih: "length us \<le> 32" "\<forall>v \<in> set us. secrets_hidden v \<and> durable_bounded v"
    using 2 us by (auto simp: durable_max_array_items_def)
  then show ?case using us by (auto simp: Let_def truncated_not_sensitive)
next
  case (3 s summary)
  then show ?case by (simp add: truncate_string_bounded)
next
  case (6 key v m summary)
  then show ?case by (auto simp: Let_def field_hidden_def is_sensitive_key_eq split: prod.splits)
next
  case (8 v vs summary)
  then show ?case by (auto simp: Let_def split: prod.splits)
qed simp_all


definition sample_projection :: "json \<Rightarrow> evidence_projection option" where
  "sample_projection v =
     (case Option.bind (json_get ''preview'' v) json_str of
        None \<Rightarrow> None
      | Some p \<Rightarrow> Some \<lparr>ep_record_type = ''evidence_projection'', ep_preview = p, ep_reference = None,
          ep_truncation = \<lparr>et_original_bytes = length p, et_preview_bytes = length p,
            et_full_content_recoverable = False, et_fallback_reason = None\<rparr>,
          ep_redactions = [], ep_metadata = []\<rparr>)"

definition sample_env :: evidence_env where
  "sample_env = \<lparr>ev_print = (\<lambda>_. ''{}''), ev_parse = (\<lambda>_. None), ev_projection = sample_projection,
     ev_projection_json = (\<lambda>p. JString (ep_preview p)), ev_sha_hex = (\<lambda>_. ''00'')\<rparr>"

definition sample_payload :: json where
  "sample_payload = JObject [(''apiKey'', JString ''k''), (''nested'', JArray [JObject [(''password'', JBool True)]]),
     (''preview'', JString ''ok'')]"

lemma sample_projection_preview:
  "ev_projection sample_env v = Some p \<Longrightarrow> json_get ''preview'' v = Some (JString (ep_preview p))"
  by (auto simp: sample_env_def sample_projection_def json_str_def split: option.splits json.splits bind_splits)


end
