(* ===== verification/Agent_Records.thy ===== *)
theory Agent_Records
  imports Agent_Machine Agent_Evidence
begin

text \<open>
  The records of a rollout file (\<open>crates/agent-engine/src/rollout.rs\<close>, with the compaction and memory
  records of \<open>crates/agent-protocol/src\<close>) and how the recorder builds them. Times are arguments.
\<close>

section \<open>Records\<close>

datatype compaction_mode = CompactManual | AutoPreTurn | AutoMidTurn

datatype compaction_trigger = TriggerManual | TriggerAuto

datatype compaction_reason = ExplicitRequest | WindowPressure | ContinuationPressure

datatype compaction_result = CompactSuccess | CompactRetry | CompactDegraded | CompactFailure

datatype compaction_pressure_level = BelowSoft | SoftPressure | HardPressure

record compaction_request_metadata =
  cr_mode :: compaction_mode
  cr_trigger :: compaction_trigger
  cr_reason :: compaction_reason
  cr_focus :: "string option"

record compaction_attempt_snapshot =
  ca_attempt_id :: string
  ca_submission_id :: "string option"
  ca_request :: compaction_request_metadata
  ca_result :: compaction_result
  ca_pressure_level :: "compaction_pressure_level option"
  ca_memory_flush_attempt_id :: "string option"
  ca_input_messages :: "nat option"
  ca_output_messages :: "nat option"
  ca_input_prompt_tokens :: "nat option"
  ca_output_prompt_tokens :: "nat option"
  ca_retry_count :: u32
  ca_tape_mutated :: bool
  ca_warning_message :: "string option"
  ca_error_message :: "string option"
  ca_failure_streak :: "u32 option"
  ca_reference_context_revision_before :: "u64 option"
  ca_reference_context_revision_after :: "u64 option"
  ca_timestamp :: string

datatype memory_flush_result = FlushSuccess | FlushSkipped | FlushFailure

datatype memory_flush_skip_reason =
  AlreadyFlushedThisCycle | MemoryDisabled | MissingMemoryDir | ReadOnlyMemoryDir | NoDurableContent | FlushCancelled

record memory_flush_attempt_snapshot =
  mfa_attempt_id :: string
  mfa_compaction_mode :: compaction_mode
  mfa_pressure_level :: compaction_pressure_level
  mfa_result :: memory_flush_result
  mfa_skip_reason :: "memory_flush_skip_reason option"
  mfa_source_messages :: "nat option"
  mfa_output_path :: "string option"
  mfa_warning_message :: "string option"
  mfa_error_message :: "string option"
  mfa_timestamp :: string

record agent_machine_meta =
  mm_rollout_id :: string
  mm_process_path :: string
  mm_started_at :: string
  mm_cwd :: string
  mm_model :: string
  mm_reasoning_effort :: "reasoning_effort option"

record message_record =
  mr_role :: string
  mr_content :: "string option"
  mr_tool_name :: "string option"
  mr_message :: "message option"
  mr_timestamp :: string

record reference_context_snapshot_record =
  rs_revision :: u64
  rs_changed :: bool
  rs_reordered :: bool
  rs_added :: nat
  rs_updated :: nat
  rs_removed :: nat

record turn_context_item =
  ti_model :: string
  ti_reasoning_effort :: "reasoning_effort option"
  ti_system_prompt :: string
  ti_context_items :: "context_item list"
  ti_tools :: "string list"
  ti_memory_enabled :: bool
  ti_active_skills :: "string list"
  ti_reference_context :: "reference_context_snapshot_record option"
  ti_timestamp :: string

record compacted_item =
  cp_retained_messages :: "message list option"
  cp_message :: string
  cp_attempt_id :: "string option"
  cp_trigger :: "compaction_trigger option"
  cp_reason :: "compaction_reason option"
  cp_focus :: "string option"
  cp_input_messages :: "nat option"
  cp_output_messages :: "nat option"
  cp_input_tokens :: "nat option"
  cp_output_tokens :: "nat option"
  cp_duration_ms :: "u64 option"
  cp_retry_count :: "u32 option"
  cp_result :: "compaction_result option"
  cp_reference_context_revision :: "u64 option"
  cp_timestamp :: string

record tool_decision_audit =
  ta_policy_source :: string
  ta_rule_id :: "string option"
  ta_action :: string
  ta_reason :: "string option"
  ta_capability :: string
  ta_sandbox_backend :: string
  ta_path_mode :: "string option"

record tool_call_record =
  tk_name :: string
  tk_arguments :: json
  tk_result :: json
  tk_result_digest :: "string option"
  tk_result_preview :: "string option"
  tk_redaction :: "redaction_summary option"
  tk_success :: bool
  tk_audit :: "tool_decision_audit option"
  tk_timestamp :: string

datatype effect_status = EffectApplied | EffectFailed | EffectUnknown

record effect_record =
  ef_effect_id :: string
  ef_process_path :: string
  ef_tool_call_id :: string
  ef_idempotency_key :: string
  ef_effect_type :: string
  ef_request_fingerprint :: string
  ef_result_digest :: "string option"
  ef_result_payload :: "json option"
  ef_status :: effect_status
  ef_applied_at :: "string option"
  ef_reason :: "string option"
  ef_dedupe_hit :: bool
  ef_timestamp :: string

record checkpoint_record =
  ck_checkpoint_id :: string
  ck_checkpoint_type :: string
  ck_summary :: string
  ck_choice :: "string option"
  ck_knowledge_root :: "string option"
  ck_timestamp :: string

record event_record =
  ev_event_type :: string
  ev_payload :: json
  ev_timestamp :: string

datatype rollout_item =
    ItemMeta agent_machine_meta
  | ItemMessage message_record
  | ItemTurnContext turn_context_item
  | ItemCompactionAttempt compaction_attempt_snapshot
  | ItemMemoryFlushAttempt memory_flush_attempt_snapshot
  | ItemCompacted compacted_item
  | ItemToolCall tool_call_record
  | ItemEffect effect_record
  | ItemCheckpoint checkpoint_record
  | ItemEvent event_record

definition compacted_item_new :: "string \<Rightarrow> string \<Rightarrow> compacted_item" where
  "compacted_item_new now message = \<lparr>cp_retained_messages = None, cp_message = message, cp_attempt_id = None, cp_trigger = None,
     cp_reason = None, cp_focus = None, cp_input_messages = None, cp_output_messages = None, cp_input_tokens = None,
     cp_output_tokens = None, cp_duration_ms = None, cp_retry_count = None, cp_result = None,
     cp_reference_context_revision = None, cp_timestamp = now\<rparr>"

definition checkpoint_record_of ::
  "string \<Rightarrow> string \<Rightarrow> string \<Rightarrow> string \<Rightarrow> string option \<Rightarrow> string option \<Rightarrow> checkpoint_record" where
  "checkpoint_record_of now checkpoint_id checkpoint_type summary choice knowledge_root =
     \<lparr>ck_checkpoint_id = checkpoint_id, ck_checkpoint_type = checkpoint_type, ck_summary = summary, ck_choice = choice,
      ck_knowledge_root = knowledge_root, ck_timestamp = now\<rparr>"

definition nonempty_text :: "string \<Rightarrow> string option" where
  "nonempty_text s = (if s = [] then None else Some s)"

definition message_record_from_tape_message :: "tape_env \<Rightarrow> string \<Rightarrow> message \<Rightarrow> message_record" where
  "message_record_from_tape_message env now message =
     \<lparr>mr_role =
        (case message of
           UserMessage _ \<Rightarrow> ''user'' | AssistantMessage _ _ \<Rightarrow> ''assistant'' | ToolMessage _ \<Rightarrow> ''tool''
         | SystemMessage _ \<Rightarrow> ''system'' | ContextMessage _ \<Rightarrow> ''context''),
      mr_content =
        (case message of
           AssistantMessage _ _ \<Rightarrow> nonempty_text (non_thinking_text_content env message)
         | _ \<Rightarrow> nonempty_text (text_content env message)),
      mr_tool_name =
        (case message of
           ToolMessage (response # _) \<Rightarrow> nonempty_text (trim (ts_id response))
         | _ \<Rightarrow> None),
      mr_message = Some message, mr_timestamp = now\<rparr>"

definition tool_call_record_of ::
  "evidence_env \<Rightarrow> string \<Rightarrow> string \<Rightarrow> json \<Rightarrow> json \<Rightarrow> bool \<Rightarrow> tool_decision_audit option \<Rightarrow> tool_call_record" where
  "tool_call_record_of env now name arguments result success audit =
     (let durable_arguments = build_durable_tool_payload env arguments;
          durable_result = build_durable_tool_payload env result
      in \<lparr>tk_name = name, tk_arguments = dp_payload durable_arguments, tk_result = dp_payload durable_result,
          tk_result_digest = Some (dp_digest durable_result), tk_result_preview = dp_preview durable_result,
          tk_redaction = dp_redaction durable_result, tk_success = success, tk_audit = audit, tk_timestamp = now\<rparr>)"

end
