(* ===== verification/Agent_Rollout.thy ===== *)
theory Agent_Rollout
  imports Agent_Records "HOL-Library.Sublist"
begin

text \<open>
  The rollout file of an agent machine (\<open>crates/agent-engine/src/rollout.rs\<close> and \<open>rollout/writer.rs\<close>): the
  writer task that appends records and fails closed, the recorder that talks to it, and the loader
  that reads a file back after a crash. The JSON codec and the asynchronous writer are parameters. An
  error is its message.
\<close>

section \<open>Reading a rollout file\<close>

datatype 'i from_str = JsonOk 'i | JsonEof | JsonInvalid

datatype load_error = RecordNotUtf8 nat | RecordInvalid nat

text \<open>One line at a time. Only the last line can be torn, and only without a terminating newline.\<close>

fun load_records :: "(string \<Rightarrow> 'i from_str) \<Rightarrow> bool \<Rightarrow> nat \<Rightarrow> bytes list \<Rightarrow> load_error + 'i list" where
  "load_records parse terminated index [] = Inr []"
| "load_records parse terminated index (line # lines) =
     (let is_unterminated_tail = (lines = [] \<and> \<not> terminated) in
      if \<not> utf8_valid line
      then if is_unterminated_tail \<and> utf8_torn line then Inr [] else Inl (RecordNotUtf8 (index + 1))
      else
        (let text = trim line in
         if text = [] then load_records parse terminated (index + 1) lines
         else
           (case parse text of
              JsonOk item \<Rightarrow> map_sum id (Cons item) (load_records parse terminated (index + 1) lines)
            | JsonEof \<Rightarrow> if is_unterminated_tail then Inr [] else Inl (RecordInvalid (index + 1))
            | JsonInvalid \<Rightarrow> Inl (RecordInvalid (index + 1)))))"

definition load_history :: "(string \<Rightarrow> 'i from_str) \<Rightarrow> bytes \<Rightarrow> load_error + 'i list" where
  "load_history parse content = load_records parse (ends_with content [newline]) 0 (split_on newline content)"

section \<open>The writer task\<close>

record 'w async_writer =
  aw_write_all :: "bytes \<Rightarrow> 'w \<Rightarrow> string option \<times> 'w"
  aw_flush :: "'w \<Rightarrow> string option \<times> 'w"

datatype 'i rollout_cmd =
    CmdRecord 'i
  | CmdPersistBatch "'i list"
  | CmdFlush bool
  | CmdClose

text \<open>What the task sends back for a command.\<close>

datatype ack = NoAck | AckOk | AckErr string

definition ack_of :: "string option \<Rightarrow> ack" where
  "ack_of result = (case result of None \<Rightarrow> AckOk | Some e \<Rightarrow> AckErr e)"

definition write_item :: "('i \<Rightarrow> string + string) \<Rightarrow> 'w async_writer \<Rightarrow> 'i \<Rightarrow> 'w \<Rightarrow> string option \<times> 'w" where
  "write_item print wr item w =
     (case print item of
        Inl e \<Rightarrow> (Some e, w)
      | Inr json \<Rightarrow>
          (case aw_write_all wr json w of
             (Some e, w1) \<Rightarrow> (Some e, w1)
           | (None, w1) \<Rightarrow> aw_write_all wr [newline] w1))"

fun persist_items_and_flush ::
  "('i \<Rightarrow> string + string) \<Rightarrow> 'w async_writer \<Rightarrow> 'i list \<Rightarrow> 'w \<Rightarrow> string option \<times> 'w" where
  "persist_items_and_flush print wr [] w = aw_flush wr w"
| "persist_items_and_flush print wr (item # items) w =
     (case write_item print wr item w of
        (Some e, w1) \<Rightarrow> (Some e, w1)
      | (None, w1) \<Rightarrow> persist_items_and_flush print wr items w1)"

definition blocked :: "string \<Rightarrow> string" where
  "blocked e = ''Rollout writer failed closed after uncertain write or flush: '' @ e"

text \<open>One command: what is sent back, the failure the task remembers, and the file.\<close>

fun writer_step ::
  "('i \<Rightarrow> string + string) \<Rightarrow> 'w async_writer \<Rightarrow> 'i rollout_cmd \<Rightarrow> string option \<Rightarrow> 'w \<Rightarrow> ack \<times> string option \<times> 'w" where
  "writer_step print wr (CmdRecord item) failed w =
     (case failed of
        Some e \<Rightarrow> (NoAck, failed, w)
      | None \<Rightarrow> (let (result, w1) = write_item print wr item w in (NoAck, result, w1)))"
| "writer_step print wr (CmdPersistBatch items) failed w =
     (case failed of
        Some e \<Rightarrow> (AckErr (blocked e), Some (blocked e), w)
      | None \<Rightarrow> (let (result, w1) = persist_items_and_flush print wr items w in (ack_of result, result, w1)))"
| "writer_step print wr (CmdFlush has_ack) failed w =
     (case failed of
        Some e \<Rightarrow> (if has_ack then AckErr (blocked e) else NoAck, Some (blocked e), w)
      | None \<Rightarrow> (let (result, w1) = aw_flush wr w in (if has_ack then ack_of result else NoAck, result, w1)))"
| "writer_step print wr CmdClose failed w =
     (case failed of
        Some e \<Rightarrow> (AckErr (blocked e), failed, w)
      | None \<Rightarrow> (let (result, w1) = aw_flush wr w in (ack_of result, failed, w1)))"

fun run_writer ::
  "('i \<Rightarrow> string + string) \<Rightarrow> 'w async_writer \<Rightarrow> 'i rollout_cmd list \<Rightarrow> string option \<Rightarrow> 'w \<Rightarrow> ack list \<times> 'w" where
  "run_writer print wr [] failed w = ([], if failed = None then snd (aw_flush wr w) else w)"
| "run_writer print wr (cmd # cmds) failed w =
     (let (a, failed1, w1) = writer_step print wr cmd failed w in
      if cmd = CmdClose then ([a], w1)
      else apfst (Cons a) (run_writer print wr cmds failed1 w1))"

section \<open>The recorder\<close>

text \<open>
  The handle of the task: its end of the channel until it is closed, what was sent and not yet
  received, whether the task is still receiving, whether it was joined, and the error of the close.
\<close>

record 'i rollout_writer =
  rw_tx_open :: bool
  rw_channel :: "'i rollout_cmd list"
  rw_receiving :: bool
  rw_task_taken :: bool
  rw_close_error :: "string option"

definition rollout_writer_new :: "'i rollout_writer" where
  "rollout_writer_new = \<lparr>rw_tx_open = True, rw_channel = [], rw_receiving = True, rw_task_taken = False, rw_close_error = None\<rparr>"

definition writer_send :: "'i rollout_cmd \<Rightarrow> 'i rollout_writer \<Rightarrow> string option \<times> 'i rollout_writer" where
  "writer_send cmd h =
     (if \<not> rw_tx_open h then (Some ''Rollout writer is closed'', h)
      else if \<not> rw_receiving h then (Some ''Rollout writer task has stopped'', h)
      else (None, h\<lparr>rw_channel := rw_channel h @ [cmd]\<rparr>))"

text \<open>The first close takes the task; \<open>ack\<close> is what it answers, if it does, and \<open>joined\<close> how it ended.\<close>

definition writer_close ::
  "ack option \<Rightarrow> string option \<Rightarrow> 'i rollout_writer \<Rightarrow> string option \<times> 'i rollout_writer" where
  "writer_close ack joined h =
     (if rw_task_taken h then (rw_close_error h, h)
      else
        (let (sent, h1) =
               (if \<not> rw_tx_open h then (Some ''Rollout writer is already closed'', h)
                else if \<not> rw_receiving h then (Some ''Rollout writer task has stopped'', h\<lparr>rw_tx_open := False\<rparr>)
                else (None, h\<lparr>rw_tx_open := False, rw_channel := rw_channel h @ [CmdClose]\<rparr>));
             ack_result =
               (case sent of
                  Some e \<Rightarrow> Some e
                | None \<Rightarrow>
                    (case ack of
                       Some (AckErr e) \<Rightarrow> Some e
                     | Some _ \<Rightarrow> None
                     | None \<Rightarrow> Some ''Rollout writer stopped before close acknowledgement''));
             result = (case ack_result of Some e \<Rightarrow> Some e | None \<Rightarrow> joined)
         in (result, h1\<lparr>rw_task_taken := True, rw_close_error := result\<rparr>)))"

definition record_nowait :: "'i \<Rightarrow> 'i rollout_writer \<Rightarrow> string option \<times> 'i rollout_writer" where
  "record_nowait item h = writer_send (CmdRecord item) h"

definition flush_nowait :: "'i rollout_writer \<Rightarrow> string option \<times> 'i rollout_writer" where
  "flush_nowait h = writer_send (CmdFlush False) h"

text \<open>Waiting for an answer: \<open>None\<close> is a task that is gone.\<close>

definition await_ack :: "string \<Rightarrow> ack option \<Rightarrow> string option" where
  "await_ack dropped ack =
     (case ack of None \<Rightarrow> Some dropped | Some (AckErr e) \<Rightarrow> Some e | Some _ \<Rightarrow> None)"

definition recorder_flush :: "ack option \<Rightarrow> 'i rollout_writer \<Rightarrow> string option \<times> 'i rollout_writer" where
  "recorder_flush ack h =
     (case writer_send (CmdFlush True) h of
        (Some e, h1) \<Rightarrow> (Some e, h1)
      | (None, h1) \<Rightarrow> (await_ack ''Rollout writer dropped before flush ack'' ack, h1))"

definition persist_batch :: "ack option \<Rightarrow> 'i list \<Rightarrow> 'i rollout_writer \<Rightarrow> string option \<times> 'i rollout_writer" where
  "persist_batch ack items h =
     (if items = [] then (None, h)
      else
        (case writer_send (CmdPersistBatch items) h of
           (Some e, h1) \<Rightarrow> (Some e, h1)
         | (None, h1) \<Rightarrow> (await_ack ''Rollout writer dropped before batch persistence ack'' ack, h1)))"

text \<open>Every kind of record goes through one of these two: enqueued and flushed, with or without waiting.\<close>

definition record_and_flush :: "ack option \<Rightarrow> 'i \<Rightarrow> 'i rollout_writer \<Rightarrow> string option \<times> 'i rollout_writer" where
  "record_and_flush ack item h =
     (case record_nowait item h of
        (Some e, h1) \<Rightarrow> (Some e, h1)
      | (None, h1) \<Rightarrow> recorder_flush ack h1)"

definition record_and_flush_nowait :: "'i \<Rightarrow> 'i rollout_writer \<Rightarrow> string option \<times> 'i rollout_writer" where
  "record_and_flush_nowait item h =
     (case record_nowait item h of
        (Some e, h1) \<Rightarrow> (Some e, h1)
      | (None, h1) \<Rightarrow> flush_nowait h1)"

definition record_tool_call ::
  "evidence_env \<Rightarrow> string \<Rightarrow> ack option \<Rightarrow> string \<Rightarrow> json \<Rightarrow> json \<Rightarrow> bool \<Rightarrow> tool_decision_audit option \<Rightarrow>
     rollout_item rollout_writer \<Rightarrow> string option \<times> rollout_item rollout_writer" where
  "record_tool_call env now ack name arguments result success audit h =
     record_and_flush ack (ItemToolCall (tool_call_record_of env now name arguments result success audit)) h"

definition record_tape_message ::
  "tape_env \<Rightarrow> string \<Rightarrow> ack option \<Rightarrow> message \<Rightarrow> rollout_item rollout_writer \<Rightarrow> string option \<times> rollout_item rollout_writer" where
  "record_tape_message env now ack message h =
     record_and_flush ack (ItemMessage (message_record_from_tape_message env now message)) h"

definition record_message ::
  "string \<Rightarrow> string \<Rightarrow> string option \<Rightarrow> string option \<Rightarrow> ack option \<Rightarrow> rollout_item rollout_writer \<Rightarrow> string option \<times> rollout_item rollout_writer" where
  "record_message now role content tool_name ack h = record_and_flush ack (ItemMessage
     \<lparr>mr_role = role, mr_content = content, mr_tool_name = tool_name, mr_message = None, mr_timestamp = now\<rparr>) h"

definition record_message_nowait ::
  "string \<Rightarrow> string \<Rightarrow> string option \<Rightarrow> string option \<Rightarrow> rollout_item rollout_writer \<Rightarrow> string option \<times> rollout_item rollout_writer" where
  "record_message_nowait now role content tool_name h = record_and_flush_nowait (ItemMessage
     \<lparr>mr_role = role, mr_content = content, mr_tool_name = tool_name, mr_message = None, mr_timestamp = now\<rparr>) h"

definition record_turn_context ::
  "string \<Rightarrow> string \<Rightarrow> reasoning_effort option \<Rightarrow> string \<Rightarrow> context_item list \<Rightarrow> string list \<Rightarrow> bool \<Rightarrow> string list \<Rightarrow>
     reference_context_snapshot_record option \<Rightarrow> ack option \<Rightarrow> rollout_item rollout_writer \<Rightarrow> string option \<times> rollout_item rollout_writer" where
  "record_turn_context now model effort system_prompt context_items tools memory_enabled active_skills reference ack h = record_and_flush ack (ItemTurnContext
     \<lparr>ti_model = model, ti_reasoning_effort = effort, ti_system_prompt = system_prompt, ti_context_items = context_items,
      ti_tools = tools, ti_memory_enabled = memory_enabled, ti_active_skills = active_skills,
      ti_reference_context = reference, ti_timestamp = now\<rparr>) h"

definition record_turn_context_nowait ::
  "string \<Rightarrow> string \<Rightarrow> reasoning_effort option \<Rightarrow> string \<Rightarrow> context_item list \<Rightarrow> string list \<Rightarrow> bool \<Rightarrow> string list \<Rightarrow>
     reference_context_snapshot_record option \<Rightarrow> rollout_item rollout_writer \<Rightarrow> string option \<times> rollout_item rollout_writer" where
  "record_turn_context_nowait now model effort system_prompt context_items tools memory_enabled active_skills reference h = record_and_flush_nowait (ItemTurnContext
     \<lparr>ti_model = model, ti_reasoning_effort = effort, ti_system_prompt = system_prompt, ti_context_items = context_items,
      ti_tools = tools, ti_memory_enabled = memory_enabled, ti_active_skills = active_skills,
      ti_reference_context = reference, ti_timestamp = now\<rparr>) h"

definition record_compacted_item ::
  "compacted_item \<Rightarrow> ack option \<Rightarrow> rollout_item rollout_writer \<Rightarrow> string option \<times> rollout_item rollout_writer" where
  "record_compacted_item compacted ack h = record_and_flush ack (ItemCompacted compacted) h"

definition record_compacted_item_nowait ::
  "compacted_item \<Rightarrow> rollout_item rollout_writer \<Rightarrow> string option \<times> rollout_item rollout_writer" where
  "record_compacted_item_nowait compacted h = record_and_flush_nowait (ItemCompacted compacted) h"

definition record_compaction_attempt ::
  "compaction_attempt_snapshot \<Rightarrow> ack option \<Rightarrow> rollout_item rollout_writer \<Rightarrow> string option \<times> rollout_item rollout_writer" where
  "record_compaction_attempt attempt ack h = record_and_flush ack (ItemCompactionAttempt attempt) h"

definition record_compaction_attempt_nowait ::
  "compaction_attempt_snapshot \<Rightarrow> rollout_item rollout_writer \<Rightarrow> string option \<times> rollout_item rollout_writer" where
  "record_compaction_attempt_nowait attempt h = record_and_flush_nowait (ItemCompactionAttempt attempt) h"

definition record_memory_flush_attempt ::
  "memory_flush_attempt_snapshot \<Rightarrow> ack option \<Rightarrow> rollout_item rollout_writer \<Rightarrow> string option \<times> rollout_item rollout_writer" where
  "record_memory_flush_attempt attempt ack h = record_and_flush ack (ItemMemoryFlushAttempt attempt) h"

definition record_memory_flush_attempt_nowait ::
  "memory_flush_attempt_snapshot \<Rightarrow> rollout_item rollout_writer \<Rightarrow> string option \<times> rollout_item rollout_writer" where
  "record_memory_flush_attempt_nowait attempt h = record_and_flush_nowait (ItemMemoryFlushAttempt attempt) h"

definition record_effect ::
  "effect_record \<Rightarrow> ack option \<Rightarrow> rollout_item rollout_writer \<Rightarrow> string option \<times> rollout_item rollout_writer" where
  "record_effect effect ack h = record_and_flush ack (ItemEffect effect) h"

definition record_effect_nowait ::
  "effect_record \<Rightarrow> rollout_item rollout_writer \<Rightarrow> string option \<times> rollout_item rollout_writer" where
  "record_effect_nowait effect h = record_and_flush_nowait (ItemEffect effect) h"

definition record_checkpoint ::
  "string \<Rightarrow> string \<Rightarrow> string \<Rightarrow> string \<Rightarrow> string option \<Rightarrow> ack option \<Rightarrow> rollout_item rollout_writer \<Rightarrow> string option \<times> rollout_item rollout_writer" where
  "record_checkpoint now checkpoint_id checkpoint_type summary choice ack h = record_and_flush ack (ItemCheckpoint (checkpoint_record_of now checkpoint_id checkpoint_type summary choice None)) h"

definition record_checkpoint_nowait ::
  "string \<Rightarrow> string \<Rightarrow> string \<Rightarrow> string \<Rightarrow> string option \<Rightarrow> rollout_item rollout_writer \<Rightarrow> string option \<times> rollout_item rollout_writer" where
  "record_checkpoint_nowait now checkpoint_id checkpoint_type summary choice h = record_and_flush_nowait (ItemCheckpoint (checkpoint_record_of now checkpoint_id checkpoint_type summary choice None)) h"

definition record_checkpoint_with_knowledge_root ::
  "string \<Rightarrow> string \<Rightarrow> string \<Rightarrow> string \<Rightarrow> string option \<Rightarrow> string \<Rightarrow> ack option \<Rightarrow> rollout_item rollout_writer \<Rightarrow> string option \<times> rollout_item rollout_writer" where
  "record_checkpoint_with_knowledge_root now checkpoint_id checkpoint_type summary choice knowledge_root ack h = record_and_flush ack (ItemCheckpoint
     (checkpoint_record_of now checkpoint_id checkpoint_type summary choice (Some knowledge_root))) h"

definition record_checkpoint_with_knowledge_root_nowait ::
  "string \<Rightarrow> string \<Rightarrow> string \<Rightarrow> string \<Rightarrow> string option \<Rightarrow> string \<Rightarrow> rollout_item rollout_writer \<Rightarrow> string option \<times> rollout_item rollout_writer" where
  "record_checkpoint_with_knowledge_root_nowait now checkpoint_id checkpoint_type summary choice knowledge_root h = record_and_flush_nowait (ItemCheckpoint
     (checkpoint_record_of now checkpoint_id checkpoint_type summary choice (Some knowledge_root))) h"

definition record_event_item ::
  "event_record \<Rightarrow> ack option \<Rightarrow> rollout_item rollout_writer \<Rightarrow> string option \<times> rollout_item rollout_writer" where
  "record_event_item event ack h = record_and_flush ack (ItemEvent event) h"

definition record_event_item_nowait ::
  "event_record \<Rightarrow> rollout_item rollout_writer \<Rightarrow> string option \<times> rollout_item rollout_writer" where
  "record_event_item_nowait event h = record_and_flush_nowait (ItemEvent event) h"

definition record_tool_call_nowait ::
  "evidence_env \<Rightarrow> string \<Rightarrow> string \<Rightarrow> json \<Rightarrow> json \<Rightarrow> bool \<Rightarrow> tool_decision_audit option \<Rightarrow>
     rollout_item rollout_writer \<Rightarrow> string option \<times> rollout_item rollout_writer" where
  "record_tool_call_nowait env now name arguments result success audit h =
     record_and_flush_nowait (ItemToolCall (tool_call_record_of env now name arguments result success audit)) h"

definition record_tape_message_nowait ::
  "tape_env \<Rightarrow> string \<Rightarrow> message \<Rightarrow> rollout_item rollout_writer \<Rightarrow> string option \<times> rollout_item rollout_writer" where
  "record_tape_message_nowait env now message h =
     record_and_flush_nowait (ItemMessage (message_record_from_tape_message env now message)) h"

text \<open>A new recorder writes its metadata first and exists only once they are acknowledged.\<close>

definition recorder_new ::
  "string \<Rightarrow> string \<Rightarrow> string \<Rightarrow> string \<Rightarrow> string option \<Rightarrow> reasoning_effort option \<Rightarrow> ack option \<Rightarrow>
     string + rollout_item rollout_writer" where
  "recorder_new now rollout_id process_path model cwd effort ack =
     (case persist_batch ack
        [ItemMeta \<lparr>mm_rollout_id = rollout_id, mm_process_path = process_path, mm_started_at = now,
           mm_cwd = (case cwd of None \<Rightarrow> ''/'' | Some path \<Rightarrow> path), mm_model = model, mm_reasoning_effort = effort\<rparr>]
        rollout_writer_new of
        (Some e, h) \<Rightarrow> Inl e
      | (None, h) \<Rightarrow> Inr h)"

text \<open>A close is final: whatever happened in it, every later close answers the same and nothing more is sent.\<close>

lemma writer_close_final:
  assumes "writer_close ack joined h = (result, h')" "\<not> rw_task_taken h"
  shows "writer_close ack' joined' h' = (result, h')"
    "writer_send cmd h' = (Some ''Rollout writer is closed'', h')"
proof -
  have "rw_task_taken h'" "rw_close_error h' = result" "\<not> rw_tx_open h'"
    using assms by (cases "rw_tx_open h"; cases "rw_receiving h"; clarsimp simp: writer_close_def Let_def)+
  then show "writer_close ack' joined' h' = (result, h')" "writer_send cmd h' = (Some ''Rollout writer is closed'', h')"
    by (simp_all add: writer_close_def writer_send_def)
qed

section \<open>Torn tails\<close>

definition frame :: "('i \<Rightarrow> string) \<Rightarrow> 'i \<Rightarrow> bytes" where
  "frame print item = print item @ [newline]"

definition frames :: "('i \<Rightarrow> string) \<Rightarrow> 'i list \<Rightarrow> bytes" where
  "frames print items = concat (map (frame print) items)"

lemma frames_simps [simp]:
  "frames print [] = []" "frames print (item # items) = print item @ newline # frames print items"
  "frames print (items @ items') = frames print items @ frames print items'"
  by (simp_all add: frames_def frame_def)

text \<open>
  What the code relies on of the JSON codec: an item is printed on one line, as a text that starts and
  ends with a visible character (a brace), it is parsed back, and a text that breaks off inside it is
  an unexpected end of input.
\<close>

definition record_codec :: "('i \<Rightarrow> string) \<Rightarrow> (string \<Rightarrow> 'i from_str) \<Rightarrow> 'i \<Rightarrow> bool" where
  "record_codec print parse item \<longleftrightarrow>
     print item \<noteq> [] \<and> newline \<notin> set (print item) \<and> utf8_valid (print item) \<and>
     solid (hd (print item)) \<and> solid (last (print item)) \<and> parse (print item) = JsonOk item \<and>
     (\<forall>p r. print item = p @ r \<and> p \<noteq> [] \<and> r \<noteq> [] \<and> utf8_valid p \<longrightarrow> parse p = JsonEof)"

lemma record_line:
  assumes "record_codec print parse item"
  shows "load_records parse terminated index (print item # lines) =
    map_sum id (Cons item) (load_records parse terminated (index + 1) lines)"
proof -
  have "trim (print item) = print item" using assms unfolding record_codec_def by (intro trim_solid) simp_all
  then show ?thesis using assms by (simp add: record_codec_def)
qed

lemma record_torn:
  assumes "record_codec print parse item" "m < length (print item)"
  shows "load_records parse False index [take m (print item)] = Inr []"
proof -
  let ?s = "print item" and ?t = "take m (print item)"
  have v: "utf8_valid ?t \<or> utf8_torn ?t" using assms utf8_prefix by (auto simp: record_codec_def)
  show ?thesis
  proof (cases "utf8_valid ?t \<and> ?t \<noteq> []")
    case True
    then have "hd ?t = hd ?s" by simp
    then have t: "trim ?t \<noteq> []" "\<exists>r. ?t = trim ?t @ r"
      using trim_prefix [of ?t] True assms(1) by (auto simp: record_codec_def)
    then obtain r where r: "?t = trim ?t @ r" by blast
    have "?s = trim ?t @ (r @ drop m ?s)" using r by (metis append.assoc append_take_drop_id)
    moreover have "r @ drop m ?s \<noteq> []" using assms(2) by simp
    moreover have "utf8_valid (trim ?t)"
      using True utf8_valid_trim_end [of ?t] white_at_solid [of ?t] assms(1) \<open>hd ?t = hd ?s\<close>
      by (simp add: trim_def trim_start.simps [of ?t] record_codec_def)
    ultimately have "parse (trim ?t) = JsonEof" using assms(1) t(1) unfolding record_codec_def by metis
    then show ?thesis using True t(1) by simp
  qed (use v in \<open>auto simp: trim_Nil\<close>)
qed

text \<open>How many bytes the first records take.\<close>

lemma load_prefix:
  assumes "\<forall>item \<in> set items. record_codec print parse item"
    and "content = take m (frames print items)" "content \<noteq> [] \<Longrightarrow> terminated = (last content = newline)"
  shows "\<exists>k \<le> length items. load_records parse terminated index (split_on newline content) = Inr (take k items) \<and>
    (\<forall>j \<le> length items. length (frames print (take j items)) \<le> m \<longrightarrow> j \<le> k)"
  using assms
proof (induction items arbitrary: m content index)
  case Nil
  then show ?case by simp
next
  case (Cons item items)
  let ?s = "print item"
  have codec: "record_codec print parse item" using Cons.prems(1) by simp
  then have no_nl: "newline \<notin> set ?s" by (simp add: record_codec_def)
  show ?case
  proof (cases "m \<le> length ?s")
    case True
    then have content: "content = take m ?s" using Cons.prems(2) by simp
    then have split: "split_on newline content = [content]" using no_nl by (auto intro!: split_on_no_sep dest: in_set_takeD)
    have small: "length (frames print (take j (item # items))) \<le> m \<Longrightarrow> j = 0" for j using True by (cases j) auto
    show ?thesis
    proof (cases "m < length ?s")
      case True
      have "load_records parse terminated index [content] = Inr []"
      proof (cases "content = []")
        case False
        then have "last content \<noteq> newline" using content no_nl by (metis in_set_takeD last_in_set)
        then show ?thesis using record_torn [OF codec True] content Cons.prems(3) False by simp
      qed simp
      then show ?thesis using split small by (intro exI [of _ 0]) auto
    next
      case False
      then have "load_records parse terminated index [content] = Inr [item]"
        using content record_line [OF codec, of terminated index "[]"] True by simp
      then show ?thesis using split small by (intro exI [of _ 1]) auto
    qed
  next
    case False
    let ?rest = "take (m - Suc (length ?s)) (frames print items)"
    have content: "content = ?s @ newline # ?rest" using False Cons.prems(2) by (simp add: take_Cons' Suc_diff_le)
    then have split: "split_on newline content = ?s # split_on newline ?rest" using no_nl by (simp add: split_on_append_sep)
    have "?rest \<noteq> [] \<Longrightarrow> terminated = (last ?rest = newline)" using Cons.prems(3) content by simp
    then obtain k where k: "k \<le> length items"
        "load_records parse terminated (index + 1) (split_on newline ?rest) = Inr (take k items)"
        "\<forall>j \<le> length items. length (frames print (take j items)) \<le> m - Suc (length ?s) \<longrightarrow> j \<le> k"
      using Cons.IH [of ?rest "m - Suc (length ?s)" "index + 1"] Cons.prems(1) by auto
    have "load_records parse terminated index (split_on newline content) = Inr (take (Suc k) (item # items))"
      unfolding split record_line [OF codec] k(2) by simp
    moreover have "j \<le> Suc k" if "j \<le> length (item # items)" "length (frames print (take j (item # items))) \<le> m" for j
      using that k(3) by (cases j) auto
    ultimately show ?thesis using k(1) by (intro exI [of _ "Suc k"]) auto
  qed
qed

lemma load_history_prefix:
  assumes "\<forall>item \<in> set items. record_codec print parse item"
  shows "\<exists>k \<le> length items. load_history parse (take m (frames print items)) = Inr (take k items) \<and>
    (\<forall>j \<le> length items. length (frames print (take j items)) \<le> m \<longrightarrow> j \<le> k)"
proof -
  have "ends_with c [newline] = (last c = newline)" if "c \<noteq> []" for c
    using that by (metis append_butlast_last_id ends_with_iff last_snoc)
  then show ?thesis unfolding load_history_def by (intro load_prefix [OF assms refl]) blast
qed

section \<open>Acknowledged records survive\<close>

text \<open>
  What the code relies on of the buffered file it writes to: it accepts bytes in order, a failed write
  some first part of them; what has reached the disk is a first part of what was accepted and never
  shrinks; a flush that succeeds brings everything to the disk.
\<close>

definition buffered_writer :: "'w async_writer \<Rightarrow> ('w \<Rightarrow> bytes) \<Rightarrow> ('w \<Rightarrow> bytes) \<Rightarrow> bool" where
  "buffered_writer wr accepted disk \<longleftrightarrow>
     (\<forall>bs w. prefix (disk w) (disk (snd (aw_write_all wr bs w))) \<and>
        (\<exists>n. accepted (snd (aw_write_all wr bs w)) = accepted w @ take n bs) \<and>
        (fst (aw_write_all wr bs w) = None \<longrightarrow> accepted (snd (aw_write_all wr bs w)) = accepted w @ bs)) \<and>
     (\<forall>w. prefix (disk w) (disk (snd (aw_flush wr w))) \<and> accepted (snd (aw_flush wr w)) = accepted w \<and>
        (fst (aw_flush wr w) = None \<longrightarrow> disk (snd (aw_flush wr w)) = accepted w)) \<and>
     (\<forall>w. prefix (disk w) (accepted w))"

text \<open>The records a command asks for.\<close>

primrec cmd_items :: "'i rollout_cmd \<Rightarrow> 'i list" where
  "cmd_items (CmdRecord item) = [item]"
| "cmd_items (CmdPersistBatch items) = items"
| "cmd_items (CmdFlush has_ack) = []"
| "cmd_items CmdClose = []"

definition requested :: "'i rollout_cmd list \<Rightarrow> 'i list" where
  "requested cmds = concat (map cmd_items cmds)"

text \<open>The effect of an operation that asks for some bytes: how much of them was accepted.\<close>

definition appended :: "('w \<Rightarrow> bytes) \<Rightarrow> ('w \<Rightarrow> bytes) \<Rightarrow> bytes \<Rightarrow> 'w \<Rightarrow> string option \<times> 'w \<Rightarrow> bool" where
  "appended accepted disk bs w r \<longleftrightarrow>
     prefix (disk w) (disk (snd r)) \<and> (\<exists>n. accepted (snd r) = accepted w @ take n bs) \<and>
     (fst r = None \<longrightarrow> accepted (snd r) = accepted w @ bs)"

lemma appended_seq:
  assumes "appended accepted disk bs w (None, w1)" "appended accepted disk cs w1 r"
  shows "appended accepted disk (bs @ cs) w r"
proof -
  have a: "accepted w1 = accepted w @ bs" "prefix (disk w) (disk w1)" using assms(1) by (simp_all add: appended_def)
  from assms(2) obtain n where "accepted (snd r) = accepted w1 @ take n cs" unfolding appended_def by blast
  then have "accepted (snd r) = accepted w @ take (length bs + n) (bs @ cs)" using a(1) by simp
  then show ?thesis using assms(2) a prefix_order.trans unfolding appended_def by fastforce
qed

lemma appended_stop:
  assumes "appended accepted disk bs w (Some e, w1)"
  shows "appended accepted disk (bs @ cs) w (Some e, w1)"
proof -
  from assms obtain n where "accepted w1 = accepted w @ take n bs" unfolding appended_def by auto
  then have "accepted w1 = accepted w @ take (min n (length bs)) (bs @ cs)" by (cases "n \<le> length bs") auto
  then show ?thesis using assms unfolding appended_def by (metis fst_conv option.distinct(1) snd_conv)
qed

lemma appended_write:
  assumes "buffered_writer wr accepted disk"
  shows "appended accepted disk bs w (aw_write_all wr bs w)"
  using assms unfolding buffered_writer_def appended_def by blast

lemma appended_flush:
  assumes "buffered_writer wr accepted disk"
  shows "appended accepted disk [] w (aw_flush wr w)"
  using assms unfolding buffered_writer_def appended_def by simp

lemma appended_item:
  assumes "buffered_writer wr accepted disk"
  shows "appended accepted disk (frame print item) w (write_item (Inr \<circ> print) wr item w)"
proof -
  obtain e w1 where w1: "aw_write_all wr (print item) w = (e, w1)" by fastforce
  have a: "appended accepted disk (print item) w (e, w1)" using appended_write [OF assms] w1 by metis
  show ?thesis
  proof (cases e)
    case None
    then show ?thesis using appended_seq [OF _ appended_write [OF assms]] a w1 by (simp add: write_item_def frame_def)
  next
    case (Some err)
    then show ?thesis using appended_stop a w1 by (simp add: write_item_def frame_def)
  qed
qed

lemma appended_items:
  assumes "buffered_writer wr accepted disk"
  shows "appended accepted disk (frames print items) w (persist_items_and_flush (Inr \<circ> print) wr items w)"
proof (induction items arbitrary: w)
  case Nil
  then show ?case using appended_flush [OF assms] by simp
next
  case (Cons item items)
  obtain e w1 where w1: "write_item (Inr \<circ> print) wr item w = (e, w1)" by fastforce
  have a: "appended accepted disk (frame print item) w (e, w1)" using appended_item [OF assms] w1 by metis
  have f: "frames print (item # items) = frame print item @ frames print items" by (simp add: frames_def)
  show ?case
  proof (cases e)
    case None
    have "appended accepted disk (frame print item) w (None, w1)" using a None by simp
    from appended_seq [OF this Cons] show ?thesis unfolding f persist_items_and_flush.simps w1 None by (simp add: comp_def)
  next
    case (Some err)
    then show ?thesis using appended_stop a unfolding f persist_items_and_flush.simps w1 Some by simp
  qed
qed

lemma items_flushed:
  assumes "buffered_writer wr accepted disk" "persist_items_and_flush print wr items w = (None, w')"
  shows "disk w' = accepted w'"
  using assms(2)
proof (induction items arbitrary: w)
  case Nil
  then show ?case using assms(1) unfolding buffered_writer_def by (metis fst_conv persist_items_and_flush.simps(1) snd_conv)
qed (auto split: prod.splits option.splits)

text \<open>One command of a task that has not failed, and of one that has.\<close>

lemma writer_step_open:
  assumes "buffered_writer wr accepted disk" "writer_step (Inr \<circ> print) wr cmd None w = (a, failed, w1)"
  shows "prefix (disk w) (disk w1)" "\<exists>n. accepted w1 = accepted w @ take n (frames print (cmd_items cmd))"
    "failed = None \<Longrightarrow> accepted w1 = accepted w @ frames print (cmd_items cmd)"
    "a = AckOk \<Longrightarrow> failed = None \<and> disk w1 = accepted w1"
proof -
  have flush: "fst (aw_flush wr w) = None \<Longrightarrow> disk (snd (aw_flush wr w)) = accepted (snd (aw_flush wr w))"
    using assms(1) by (simp add: buffered_writer_def)
  have "\<exists>r. appended accepted disk (frames print (cmd_items cmd)) w r \<and> snd r = w1 \<and> (failed = None \<longrightarrow> fst r = None \<or> cmd = CmdClose) \<and>
      (a = AckOk \<longrightarrow> fst r = None \<and> failed = None \<and> disk w1 = accepted w1)"
  proof (cases cmd)
    case (CmdRecord item)
    then show ?thesis using assms(2) appended_item [OF assms(1), of print item w]
      by (intro exI [of _ "write_item (Inr \<circ> print) wr item w"]) (auto simp: frames_def split: prod.splits)
  next
    case (CmdPersistBatch items)
    then show ?thesis using assms(2) appended_items [OF assms(1), of print items w] items_flushed [OF assms(1)]
      by (intro exI [of _ "persist_items_and_flush (Inr \<circ> print) wr items w"])
        (auto simp: ack_of_def split: prod.splits option.splits)
  next
    case (CmdFlush has_ack)
    then show ?thesis using assms(2) appended_flush [OF assms(1), of w] flush
      by (intro exI [of _ "aw_flush wr w"]) (auto simp: ack_of_def split: prod.splits option.splits if_splits)
  next
    case CmdClose
    then show ?thesis using assms(2) appended_flush [OF assms(1), of w] flush
      by (intro exI [of _ "aw_flush wr w"]) (auto simp: ack_of_def split: prod.splits option.splits)
  qed
  then obtain r where r: "appended accepted disk (frames print (cmd_items cmd)) w r" "snd r = w1"
      "failed = None \<Longrightarrow> fst r = None \<or> cmd = CmdClose" "a = AckOk \<Longrightarrow> failed = None \<and> disk w1 = accepted w1" by blast
  then show "prefix (disk w) (disk w1)" "\<exists>n. accepted w1 = accepted w @ take n (frames print (cmd_items cmd))"
    "a = AckOk \<Longrightarrow> failed = None \<and> disk w1 = accepted w1" by (auto simp: appended_def)
  show "failed = None \<Longrightarrow> accepted w1 = accepted w @ frames print (cmd_items cmd)"
    using r unfolding appended_def by auto
qed

lemma writer_step_failed:
  "writer_step print wr cmd (Some e) w = (a, failed, w1) \<Longrightarrow> failed \<noteq> None \<and> w1 = w \<and> a \<noteq> AckOk"
  by (cases cmd) (auto split: if_splits)

lemma run_writer_Cons:
  assumes "run_writer print wr (cmd # cmds) failed w = (acks, w')" "writer_step print wr cmd failed w = (a, failed1, w1)"
  shows "cmd = CmdClose \<and> acks = [a] \<and> w' = w1 \<or>
    cmd \<noteq> CmdClose \<and> (\<exists>acks1. run_writer print wr cmds failed1 w1 = (acks1, w') \<and> acks = a # acks1)"
  using assms by (cases "run_writer print wr cmds failed1 w1") (simp split: if_splits)

lemma run_writer_failed: "run_writer print wr cmds (Some e) w = (acks, w') \<Longrightarrow> w' = w \<and> AckOk \<notin> set acks"
proof (induction cmds arbitrary: e acks)
  case (Cons cmd cmds)
  obtain a failed w1 where st: "writer_step print wr cmd (Some e) w = (a, failed, w1)" using prod_cases3 by blast
  note f = writer_step_failed [OF st]
  then obtain e' where e': "failed = Some e'" by blast
  from run_writer_Cons [OF Cons.prems st] f show ?case
  proof (elim disjE conjE exE)
    fix acks1 assume "run_writer print wr cmds failed w1 = (acks1, w')" "acks = a # acks1"
    then show ?thesis using Cons.IH [of e' acks1] f e' by auto
  qed auto
qed simp

lemma requested_simps [simp]: "requested [] = []" "requested (cmd # cmds) = cmd_items cmd @ requested cmds"
  by (simp_all add: requested_def)

lemma run_writer_open:
  assumes "buffered_writer wr accepted disk" "run_writer (Inr \<circ> print) wr cmds None w = (acks, w')"
  shows "prefix (disk w) (disk w') \<and> (\<exists>n. accepted w' = accepted w @ take n (frames print (requested cmds))) \<and>
    (\<forall>i < length acks. acks ! i = AckOk \<longrightarrow> prefix (accepted w @ frames print (requested (take (Suc i) cmds))) (disk w'))"
  using assms(2)
proof (induction cmds arbitrary: w acks)
  case Nil
  then have "acks = []" "w' = snd (aw_flush wr w)" by simp_all
  then show ?case using assms(1) by (simp add: buffered_writer_def)
next
  case (Cons cmd cmds)
  obtain a failed w1 where st: "writer_step (Inr \<circ> print) wr cmd None w = (a, failed, w1)" using prod_cases3 by blast
  note s = writer_step_open [OF assms(1) st]
  from s(2) obtain n where n: "accepted w1 = accepted w @ take n (frames print (cmd_items cmd))" by blast
  have part: "accepted w1 = accepted w @ take (min n (length (frames print (cmd_items cmd)))) (frames print (requested (cmd # cmds)))"
    using n by (simp add: min_def)
  have ok: "prefix (accepted w @ frames print (cmd_items cmd)) (disk w1)" if "a = AckOk"
    using s(3,4) that by simp
  show ?case
  proof (cases "cmd = CmdClose \<or> failed \<noteq> None")
    case True
    have "w' = w1 \<and> (\<exists>acks1. acks = a # acks1 \<and> AckOk \<notin> set acks1)"
      using run_writer_Cons [OF Cons.prems st] True run_writer_failed by force
    then obtain acks1 where r: "w' = w1" "acks = a # acks1" "AckOk \<notin> set acks1" by blast
    have "prefix (accepted w @ frames print (requested (take (Suc i) (cmd # cmds)))) (disk w')"
      if "i < length acks" "acks ! i = AckOk" for i
    proof (cases i)
      case 0
      then show ?thesis using ok that r by simp
    next
      case (Suc j)
      then show ?thesis using that r nth_mem [of j acks1] by simp
    qed
    then show ?thesis using s(1) part r(1) by blast
  next
    case False
    then obtain acks1 where r: "run_writer (Inr \<circ> print) wr cmds None w1 = (acks1, w')" "acks = a # acks1"
      using run_writer_Cons [OF Cons.prems st] by auto
    have all: "accepted w1 = accepted w @ frames print (cmd_items cmd)" using s(3) False by blast
    note ih = Cons.IH [OF r(1)]
    from ih obtain k where "accepted w' = accepted w1 @ take k (frames print (requested cmds))" by blast
    then have "accepted w' = accepted w @ take (length (frames print (cmd_items cmd)) + k) (frames print (requested (cmd # cmds)))"
      using all by simp
    moreover have "prefix (disk w) (disk w')" using ih s(1) prefix_order.trans by blast
    moreover have "prefix (accepted w @ frames print (requested (take (Suc i) (cmd # cmds)))) (disk w')"
      if "i < length acks" "acks ! i = AckOk" for i
    proof (cases i)
      case 0
      then show ?thesis using ok that r(2) ih prefix_order.trans by fastforce
    next
      case (Suc j)
      then show ?thesis using that r(2) ih all by (simp add: less_Suc_eq_le)
    qed
    ultimately show ?thesis by blast
  qed
qed


text \<open>
  A file that accepts bytes into a buffer while the device has room for them, and takes as many as fit
  otherwise.
\<close>

record sample_file =
  sf_disk :: bytes
  sf_buffer :: bytes
  sf_room :: nat

definition sample_writer :: "sample_file async_writer" where
  "sample_writer = \<lparr>
     aw_write_all = (\<lambda>bs f. (if length bs \<le> sf_room f then None else Some ''device full'',
       f\<lparr>sf_buffer := sf_buffer f @ take (sf_room f) bs, sf_room := sf_room f - length bs\<rparr>)),
     aw_flush = (\<lambda>f. (None, f\<lparr>sf_disk := sf_disk f @ sf_buffer f, sf_buffer := []\<rparr>))\<rparr>"

definition sample_print :: "bool \<Rightarrow> string" where
  "sample_print b = (if b then ''{1}'' else ''{0}'')"

definition sample_parse :: "string \<Rightarrow> bool from_str" where
  "sample_parse s = (if s = ''{1}'' then JsonOk True else if s = ''{0}'' then JsonOk False
     else if length s < 3 then JsonEof else JsonInvalid)"

lemma sample_codec: "record_codec sample_print sample_parse b"
proof -
  have v: "utf8_valid (sample_print b)" by (rule ascii_utf8_valid) (simp add: ascii_def sample_print_def)
  have "sample_parse p = JsonEof" if "sample_print b = p @ r" "r \<noteq> []" for p r
  proof -
    have "length (sample_print b) = 3" by (simp add: sample_print_def)
    then have "length p < 3" using that by (metis length_append length_greater_0_conv less_add_same_cancel1)
    then show ?thesis by (auto simp: sample_parse_def)
  qed
  then show ?thesis using v by (auto simp: record_codec_def sample_print_def sample_parse_def solid_def)
qed

lemma sample_buffered: "buffered_writer sample_writer (\<lambda>f. sf_disk f @ sf_buffer f) sf_disk"
  by (auto simp: buffered_writer_def sample_writer_def) (metis order_refl take_all)


end
