(* ===== verification/Spec2Isabelle.thy ===== *)
theory Spec2Isabelle
  imports AP_Connection Process_Table Srv_Fs Mount_Fs Mem_Fs Reference_Fs Proc_Fs Route_Fs Edit_Fs Branch_Fs
    Agent_Rollout
begin

text \<open>
  \<^bold>\<open>Alan.\<close> Alan is an agent operating system in the tradition of Plan 9: every resource is a file
  server that speaks one protocol, aP, and every process sees the servers it may use mounted in a
  namespace of its own. Agents are processes; what they read, write and record goes through files.
  This development models the protocol, the kernel, the leaf file servers and the core of the agent
  engine (all paths below are relative to \<open>src/crates\<close>).

  \<^bold>\<open>Conventions.\<close> A Rust \<open>String\<close> or \<open>Vec<u8>\<close> is a list of bytes, \<open>u64\<close> and \<open>u32\<close> are words and
  \<open>usize\<close> counts of things in memory are natural numbers. A fallible operation returns \<open>'a res\<close>, an
  error code or a value; an asynchronous one returns \<open>'a poll\<close>, where \<open>None\<close> is a call parked at an
  await. State is passed explicitly. A hash map is a function to options, a BTree map an ordered
  association list. Code outside the repository (the JSON codec, SHA-256, the default hasher) is a
  parameter of the definitions that use it, and what a theorem needs of it is a named hypothesis.

  \<^bold>\<open>The protocol\<close> (\<open>ap/src\<close>).
  \<^item> \<open>AP_Prelude\<close>, \<open>Rust_Text\<close> and \<open>Json_Value\<close> hold the vocabulary: slices, splitting, decimal
    numbers, UTF-8, trimming, ordered maps, JSON values, and the lemmas on them.
  \<^item> \<open>AP_Types\<close>: \<open>types.rs\<close>, \<open>version.rs\<close>, \<open>stream.rs\<close>. A tailing reader of a stream sees every
    byte once and in order.
  \<^item> \<open>AP_Wire\<close>: \<open>wire.rs\<close>, the messages and the bounded line reader. Frames round-trip however the
    transport chunks them.
  \<^item> \<open>AP_Server\<close>: \<open>server.rs\<close>, the trait as a record \<open>file_server\<close>, in-process dispatch, the
    lock-step client and imported servers with chunked writes. The locale \<open>fid_server\<close> is the contract
    of the fids a server holds; every leaf server interprets it, so that its sessions keep fids
    isolated. Importing is transparent and fail-stop.
  \<^item> \<open>AP_Connection\<close>: the tag multiplexer and the export loop of \<open>server.rs\<close> as step relations over
    all interleavings: each caller gets the response of its own tag, closing wakes every waiter, each
    request is answered at most once.
  \<^item> \<open>Reference_Fs\<close>: \<open>reference.rs\<close>, with each panicking index explicit: no session panics.

  \<^bold>\<open>The kernel\<close> (\<open>kernel/src\<close>).
  \<^item> \<open>Kernel_Namespace\<close>: \<open>namespace.rs\<close>, the mount table. Restriction never widens authority,
    projection is exact, read-only mounts refuse every mutation.
  \<^item> \<open>Process_Table\<close>: \<open>process.rs\<close>. Pids are never reused, a spawn is staged, the manifest of a
    namespace restricts it to itself.
  \<^item> \<open>Srv_Fs\<close>: \<open>srvfs.rs\<close>. A withheld service is absent and activity on it is unobservable.
  \<^item> \<open>Mount_Fs\<close>: \<open>mountfs.rs\<close> and \<open>mountfs/walk_owner.rs\<close>, a namespace as one file server; a walk and a
    create are split at their awaits. Authority is confined, a clunked walk is never published.
  \<^item> \<open>Proc_Fs\<close>: \<open>procfs.rs\<close> and \<open>procfs/file_server.rs\<close>, built on the three theories above. A child has at
    most the authority of its spawner, failed spawns leak nothing, observation terminates.

  \<^bold>\<open>Storage and the leaf servers.\<close>
  \<^item> \<open>Knowledge_Store\<close>: \<open>knowledge/src/lib.rs\<close>. Live roots read forever, collection is exact, reads are
    authorised and verified.
  \<^item> \<open>Mem_Fs\<close>: \<open>memfs/src/lib.rs\<close> over the store, a refinement of a map from names to bytes.
  \<^item> \<open>Branch_Fs\<close>: \<open>branchfs/src/lib.rs\<close> over the store: consistent branches, isolated forks.
  \<^item> \<open>Route_Fs\<close>: \<open>routefs/src/lib.rs\<close>: messages are routed exactly once by the first matching rule.
  \<^item> \<open>Edit_Fs\<close>: \<open>editfs/src/lib.rs\<close>: an execution runs exactly the text its author addressed.

  \<^bold>\<open>The agent engine\<close> (\<open>agent-engine/src\<close>, \<open>agent-protocol/src\<close>).
  \<^item> \<open>Agent_Ops\<close>: the operations and interactive requests of \<open>agent-protocol\<close>, \<open>approval.rs\<close> and
    \<open>agent_machine/runtime_control.rs\<close>.
  \<^item> \<open>Agent_Tape\<close>: \<open>tape.rs\<close>. The prompt estimate is exact and compaction keeps tool blocks whole.
  \<^item> \<open>Agent_Machine\<close>: \<open>agent_machine.rs\<close> and \<open>agent_machine/transition_state.rs\<close>: pending requests, the
    guardian's breaker, the compaction budget, rollback.
  \<^item> \<open>Agent_Evidence\<close>: \<open>evidence.rs\<close> and \<open>rollout/durable_payload.rs\<close>: redaction and bounded records.
  \<^item> \<open>Agent_Records\<close> and \<open>Agent_Rollout\<close>: \<open>rollout.rs\<close> and \<open>rollout/writer.rs\<close>, the durable log of a machine.
    The writer fails closed, and what it acknowledged is read back after any crash, a torn tail
    included.

  \<^bold>\<open>Loops and bounds.\<close> Every loop of the modelled code is a total function with a termination proof,
  except the ones that wait for others: they are \<open>partial_function (option)\<close> or return \<open>None\<close> while parked,
  and the theorems that promise a result prove that it is returned. Only \<open>read_all\<close> in \<open>Mount_Fs\<close>, which
  reads a listing from a tree that may never end it, takes fuel; the theorems hold for every amount,
  and running out is the parked result. Counters
  that the code lets wrap or saturate are words; theorems that need a counter not to wrap say so
  (fewer operations than the pid space).

  \<^bold>\<open>Not modelled.\<close> Network and process I/O (\<open>llm\<close>, \<open>llmfs\<close>, \<open>auth\<close>, \<open>os-host\<close>, \<open>hostfs\<close>), the sandbox and
  the tools that run host commands, the terminal interface (\<open>tui\<close>), the command line (\<open>alan\<close>,
  \<open>shell\<close>), the service manager, and in the engine the asynchronous runtime around the machine:
  generation, delegation, memory, skills and configuration. Most of
  this orchestrates external services. The agent file server (\<open>agentfs\<close>), the policy rules
  (\<open>agent-engine/src/policy.rs\<close>), the replay of a rollout into a machine and the construction of the kernel
  root (\<open>kernel/src/bootstrap.rs\<close>) do not, and could be modelled in the same way. Locks are taken around whole
  operations in the modelled servers, so an operation is a step; the places where the code awaits
  between its locks are split into separate steps (\<open>AP_Connection\<close>, \<open>Mount_Fs\<close>).
\<close>

end
